(* ===== verification/Prelude.thy ===== *)
theory Prelude
  imports
    Main
    "HOL-Library.Word"
    "HOL-Library.Finite_Map"
    "HOL-Library.List_Lexorder"
    "HOL-Library.Product_Lexorder"
    "HOL-Library.Code_Target_Nat"
begin

text \<open>
  Shared ground of the development: names for the machine types of the Rust sources, the
  integer operations they use (saturating, wrapping, rounding up), byte encodings of
  integers, slices, and the collections.

  Unsigned machine integers are natural numbers with their bound written out where a
  value can leave it; bytes are \<open>8 word\<close>. Hash maps and B-tree maps are finite maps,
  hash sets and B-tree sets are finite sets; where the source walks a collection, the
  walk is in key order (the order of a B-tree; a hash table promises no order, and key
  order is one of those it may produce).
\<close>

named_theorems rust_arith \<open>integer operations of the Rust standard library\<close>
named_theorems codec_simps \<open>byte encodings and their inverses\<close>

section \<open>Machine types\<close>

type_synonym byte = "8 word"
type_synonym bytes = "byte list"
type_synonym u16 = nat
type_synonym u32 = nat
type_synonym u64 = nat
type_synonym usize = nat

text \<open>A 32-bit float is its bit pattern; see the operations on it below.\<close>

type_synonym f32 = "32 word"

definition U32_MAX :: nat where
  "U32_MAX = 4294967295"

definition U64_MAX :: nat where
  "U64_MAX = 18446744073709551615"

section \<open>Integer operations\<close>

text \<open>
  \<open>saturating_sub\<close> on an unsigned integer is subtraction on \<open>nat\<close> and needs no name.
\<close>

definition saturating_add :: "u64 \<Rightarrow> u64 \<Rightarrow> u64" where
  "saturating_add a b = min (a + b) U64_MAX"

definition saturating_add32 :: "u32 \<Rightarrow> u32 \<Rightarrow> u32" where
  "saturating_add32 a b = min (a + b) U32_MAX"

definition saturating_mul :: "usize \<Rightarrow> usize \<Rightarrow> usize" where
  "saturating_mul a b = min (a * b) U64_MAX"

definition wrapping_add :: "u64 \<Rightarrow> u64 \<Rightarrow> u64" where
  "wrapping_add a b = (a + b) mod (U64_MAX + 1)"

definition wrapping_mul :: "usize \<Rightarrow> usize \<Rightarrow> usize" where
  "wrapping_mul a b = (a * b) mod (U64_MAX + 1)"

definition as_u32 :: "nat \<Rightarrow> u32" where
  "as_u32 n = n mod (U32_MAX + 1)"

definition div_ceil :: "nat \<Rightarrow> nat \<Rightarrow> nat" where
  "div_ceil a b = (if a mod b = 0 then a div b else a div b + 1)"

definition abs_diff :: "nat \<Rightarrow> nat \<Rightarrow> nat" where
  "abs_diff a b = (if a < b then b - a else a - b)"

definition clamp :: "nat \<Rightarrow> nat \<Rightarrow> nat \<Rightarrow> nat" where
  "clamp x lo hi = max lo (min x hi)"

lemma saturating_add_le [rust_arith]: "saturating_add a b \<le> U64_MAX"
  by (simp add: saturating_add_def)

lemma saturating_add_ge: "a \<le> U64_MAX \<Longrightarrow> a \<le> saturating_add a b"
  by (simp add: saturating_add_def)

lemma saturating_add_mono: "a \<le> a' \<Longrightarrow> saturating_add a b \<le> saturating_add a' b"
  by (auto simp: saturating_add_def)

lemma saturating_add_exact: "a + b \<le> U64_MAX \<Longrightarrow> saturating_add a b = a + b"
  by (simp add: saturating_add_def)

lemma wrapping_add_exact: "a + b \<le> U64_MAX \<Longrightarrow> wrapping_add a b = a + b"
  by (simp add: wrapping_add_def)

lemma wrapping_mul_exact: "a * b \<le> U64_MAX \<Longrightarrow> wrapping_mul a b = a * b"
  by (simp add: wrapping_mul_def)

lemma as_u32_id [simp]: "n \<le> U32_MAX \<Longrightarrow> as_u32 n = n"
  by (simp add: as_u32_def)

lemma as_u32_le [rust_arith]: "as_u32 n \<le> U32_MAX"
  by (simp add: as_u32_def mod_Suc_le_divisor)

lemma div_ceil_mult_ge: "0 < b \<Longrightarrow> a \<le> div_ceil a b * b"
proof -
  assume b: "0 < b"
  have "a = a div b * b + a mod b" by simp
  moreover have "a mod b < b" using b by simp
  ultimately have "a \<le> b + a div b * b" by linarith
  then show ?thesis by (auto simp: div_ceil_def)
qed

lemma div_ceil_pos: "0 < a \<Longrightarrow> 0 < b \<Longrightarrow> 0 < div_ceil a b"
  using div_ceil_mult_ge [of b a] by (cases "div_ceil a b") auto

lemma div_ceil_le: "0 < b \<Longrightarrow> a \<le> c * b \<Longrightarrow> div_ceil a b \<le> c"
proof -
  assume b: "0 < b" and a: "a \<le> c * b"
  have le: "a div b \<le> c" using div_le_mono [OF a, of b] b by simp
  show ?thesis
  proof (cases "a mod b = 0")
    case False
    then have "a \<noteq> c * b" by auto
    then have "a div b < c" using a by (simp add: less_mult_imp_div_less)
    with False show ?thesis by (simp add: div_ceil_def)
  qed (simp add: div_ceil_def le)
qed

lemma clamp_bounds: "lo \<le> hi \<Longrightarrow> lo \<le> clamp x lo hi \<and> clamp x lo hi \<le> hi"
  by (simp add: clamp_def)

section \<open>32-bit floats as bit patterns\<close>

text \<open>
  The sources compare a rate with \<open>0.0\<close> and \<open>1.0\<close> and clamp it there. On IEEE bit
  patterns: \<open>0x3F800000\<close> is \<open>1.0\<close>, \<open>0x7F800000\<close> infinity, \<open>0x80000000\<close> minus zero,
  a pattern whose low 31 bits exceed infinity's is not a number, and non-negative
  floats are ordered as their patterns.
\<close>

definition F32_ONE :: f32 where
  "F32_ONE = 0x3F800000"

definition F32_ZERO :: f32 where
  "F32_ZERO = 0"

definition f32_is_nan :: "f32 \<Rightarrow> bool" where
  "f32_is_nan x \<longleftrightarrow> 0x7F800000 < take_bit 31 x"

definition f32_negative :: "f32 \<Rightarrow> bool" where
  "f32_negative x \<longleftrightarrow> \<not> f32_is_nan x \<and> 0x80000000 < x"

text \<open>\<open>(0.0..=1.0).contains(x)\<close>\<close>

definition f32_in_unit :: "f32 \<Rightarrow> bool" where
  "f32_in_unit x \<longleftrightarrow> x \<le> F32_ONE \<or> x = 0x80000000"

text \<open>\<open>x.clamp(0.0, 1.0)\<close>: not-a-number stays what it is.\<close>

definition f32_clamp_unit :: "f32 \<Rightarrow> f32" where
  "f32_clamp_unit x =
     (if f32_is_nan x then x
      else if f32_negative x then F32_ZERO
      else if f32_in_unit x then x
      else F32_ONE)"

text \<open>\<open>==\<close> on floats.\<close>

definition f32_eq :: "f32 \<Rightarrow> f32 \<Rightarrow> bool" where
  "f32_eq x y \<longleftrightarrow> \<not> f32_is_nan x \<and> \<not> f32_is_nan y \<and>
     (x = y \<or> (take_bit 31 x = 0 \<and> take_bit 31 y = 0))"

lemma f32_clamp_unit_in_unit: "\<not> f32_is_nan x \<Longrightarrow> f32_in_unit (f32_clamp_unit x)"
  by (auto simp: f32_clamp_unit_def f32_in_unit_def F32_ZERO_def F32_ONE_def)

section \<open>Slices and options\<close>

text \<open>\<open>xs.get(i)\<close> and \<open>xs.get(a..b)\<close>.\<close>

definition slice_get :: "'a list \<Rightarrow> nat \<Rightarrow> 'a option" where
  "slice_get xs i = (if i < length xs then Some (xs ! i) else None)"

definition slice_range :: "'a list \<Rightarrow> nat \<Rightarrow> nat \<Rightarrow> 'a list option" where
  "slice_range xs a b = (if a \<le> b \<and> b \<le> length xs then Some (take (b - a) (drop a xs)) else None)"

lemma slice_get_Some_iff: "slice_get xs i = Some x \<longleftrightarrow> i < length xs \<and> xs ! i = x"
  by (auto simp: slice_get_def)

lemma slice_get_in_set: "slice_get xs i = Some x \<Longrightarrow> x \<in> set xs"
  by (auto simp: slice_get_Some_iff)

lemma slice_range_append [codec_simps]:
  "slice_range (xs @ ys @ zs) (length xs) (length xs + length ys) = Some ys"
  by (simp add: slice_range_def)

lemma slice_range_length: "slice_range xs a b = Some ys \<Longrightarrow> length ys = b - a"
  by (auto simp: slice_range_def split: if_splits)

text \<open>The position of the first element with a property.\<close>

fun position :: "('a \<Rightarrow> bool) \<Rightarrow> 'a list \<Rightarrow> nat option" where
  "position P [] = None"
| "position P (x # xs) = (if P x then Some 0 else map_option Suc (position P xs))"

lemma position_Some: "position P xs = Some i \<Longrightarrow> i < length xs \<and> P (xs ! i)"
  by (induction xs arbitrary: i) (auto split: if_splits)

lemma position_None: "position P xs = None \<longleftrightarrow> (\<forall>x \<in> set xs. \<not> P x)"
  by (induction xs) auto

text \<open>\<open>opt.map_or(d, f)\<close>, \<open>opt.is_some_and(p)\<close>, \<open>opt.is_none_or(p)\<close>.\<close>

abbreviation map_or :: "'b \<Rightarrow> ('a \<Rightarrow> 'b) \<Rightarrow> 'a option \<Rightarrow> 'b" where
  "map_or d f x \<equiv> case_option d f x"

abbreviation is_some_and :: "('a \<Rightarrow> bool) \<Rightarrow> 'a option \<Rightarrow> bool" where
  "is_some_and P x \<equiv> case_option False P x"

abbreviation is_none_or :: "('a \<Rightarrow> bool) \<Rightarrow> 'a option \<Rightarrow> bool" where
  "is_none_or P x \<equiv> case_option True P x"

text \<open>\<open>Some(old.map_or(new, |m| m.max(new)))\<close>, the frontier update of the sources.\<close>

definition raise_to :: "nat option \<Rightarrow> nat \<Rightarrow> nat option" where
  "raise_to old new = Some (map_or new (\<lambda>m. max m new) old)"

lemma raise_to_ge: "raise_to old new = Some m \<Longrightarrow> new \<le> m \<and> (\<forall>o'. old = Some o' \<longrightarrow> o' \<le> m)"
  by (auto simp: raise_to_def split: option.splits)

lemma raise_to_Some [simp]: "raise_to old new \<noteq> None"
  by (simp add: raise_to_def)

lemma raise_to_bound:
  "raise_to old new = Some m \<Longrightarrow> new \<le> b \<Longrightarrow> (\<And>x. old = Some x \<Longrightarrow> x \<le> b) \<Longrightarrow> m \<le> b"
  by (auto simp: raise_to_def split: option.splits)

text \<open>The largest of the values an iterator yields.\<close>

definition max_list :: "nat list \<Rightarrow> nat option" where
  "max_list xs = (if xs = [] then None else Some (Max (set xs)))"

lemma max_list_Some: "max_list xs = Some m \<longleftrightarrow> m \<in> set xs \<and> (\<forall>x \<in> set xs. x \<le> m)"
  by (auto simp: max_list_def Max_eq_iff)

lemma max_list_ge: "x \<in> set xs \<Longrightarrow> \<exists>m. max_list xs = Some m \<and> x \<le> m"
  by (auto simp: max_list_def)

section \<open>Sorting and deduplication\<close>

text \<open>
  \<open>sort\<close> then \<open>dedup\<close>. The scheduler's \<open>unique\<close> compares the length before and after.
\<close>

definition sort_dedup :: "'a::linorder list \<Rightarrow> 'a list" where
  "sort_dedup xs = remdups_adj (sort xs)"

lemma set_sort_dedup [simp]: "set (sort_dedup xs) = set xs"
  by (simp add: sort_dedup_def)

lemma sorted_sort_dedup [simp]: "sorted (sort_dedup xs)"
  by (simp add: sort_dedup_def sorted_remdups_adj)

lemma sorted_distinct_remdups_adj: "sorted xs \<Longrightarrow> distinct (remdups_adj xs)"
  by (induction xs rule: remdups_adj.induct) (auto simp: less_le_not_le)

lemma distinct_sort_dedup [simp]: "distinct (sort_dedup xs)"
  unfolding sort_dedup_def
  by (rule sorted_distinct_remdups_adj) simp

lemma sort_dedup_eq: "sort_dedup xs = sorted_list_of_set (set xs)"
  by (simp add: sorted_distinct_set_unique)

lemma length_sort_dedup: "length (sort_dedup xs) = card (set xs)"
  using distinct_card [OF distinct_sort_dedup] by (metis set_sort_dedup)

definition unique :: "'a::linorder list \<Rightarrow> bool" where
  "unique xs \<longleftrightarrow> length (sort_dedup xs) = length xs"

lemma unique_iff_distinct: "unique xs \<longleftrightarrow> distinct xs"
  by (metis unique_def length_sort_dedup card_distinct distinct_card)

section \<open>Ordered maps\<close>

text \<open>Keys in order, values in key order, the last entry, and range queries of a B-tree map.\<close>

definition fm_keys :: "('k::linorder, 'v) fmap \<Rightarrow> 'k list" where
  "fm_keys m = sorted_list_of_fset (fmdom m)"

definition fm_values :: "('k::linorder, 'v) fmap \<Rightarrow> 'v list" where
  "fm_values m = map (\<lambda>k. the (fmlookup m k)) (fm_keys m)"

definition fm_items :: "('k::linorder, 'v) fmap \<Rightarrow> ('k \<times> 'v) list" where
  "fm_items m = map (\<lambda>k. (k, the (fmlookup m k))) (fm_keys m)"

definition fm_size :: "('k, 'v) fmap \<Rightarrow> nat" where
  "fm_size m = fcard (fmdom m)"

definition last_key :: "('k::linorder, 'v) fmap \<Rightarrow> 'k option" where
  "last_key m = (if fm_keys m = [] then None else Some (last (fm_keys m)))"

definition last_value :: "('k::linorder, 'v) fmap \<Rightarrow> 'v option" where
  "last_value m = (case last_key m of None \<Rightarrow> None | Some k \<Rightarrow> fmlookup m k)"

lemma fm_size_empty [simp]: "fm_size fmempty = 0"
  by (simp add: fm_size_def)

lemma set_fm_keys [simp]: "set (fm_keys m) = fmdom' m"
  by (simp add: fm_keys_def fmdom'_alt_def)

lemma sorted_fm_keys [simp]: "sorted (fm_keys m)"
  by (simp add: fm_keys_def sorted_list_of_fset.rep_eq)

lemma distinct_fm_keys [simp]: "distinct (fm_keys m)"
  by (simp add: fm_keys_def sorted_list_of_fset.rep_eq)

lemma set_fm_items: "set (fm_items m) = {(k, v). fmlookup m k = Some v}"
  by (auto simp: fm_items_def fmlookup_dom'_iff image_iff)

lemma set_fm_values: "set (fm_values m) = fmran' m"
  by (force simp: fm_values_def fmlookup_dom'_iff fmlookup_ran'_iff image_iff)

lemma length_fm_keys: "length (fm_keys m) = fm_size m"
  by (metis distinct_card distinct_fm_keys set_fm_keys fm_size_def fcard.rep_eq fmdom'_alt_def)

lemma map_fst_fm_items [simp]: "map fst (fm_items m) = fm_keys m"
  by (simp add: fm_items_def comp_def)

lemma length_fm_items: "length (fm_items m) = fm_size m"
  by (simp add: fm_items_def length_fm_keys)

lemma fm_keys_Nil_iff [simp]: "fm_keys m = [] \<longleftrightarrow> fmdom' m = {}"
  by (metis set_fm_keys set_empty)

lemma sorted_le_last: "sorted xs \<Longrightarrow> x \<in> set xs \<Longrightarrow> x \<le> last xs"
  by (induction xs) auto

lemma last_key_Some: "last_key m = Some k \<Longrightarrow> k \<in> fmdom' m \<and> (\<forall>k' \<in> fmdom' m. k' \<le> k)"
  using last_in_set [of "fm_keys m"] sorted_le_last [OF sorted_fm_keys, of _ m]
  by (auto simp: last_key_def split: if_splits)

lemma last_key_None [simp]: "last_key m = None \<longleftrightarrow> fmdom' m = {}"
  by (auto simp: last_key_def)

text \<open>
  The history bound of the observers: insert, then drop the oldest key while the map
  holds more than the cap.
\<close>

lemma fm_size_drop: "k |\<in>| fmdom m \<Longrightarrow> fm_size (fmdrop k m) < fm_size m"
  by (simp add: fm_size_def fcard.rep_eq card_Diff1_less del: card_Diff_insert)

function fm_trim :: "nat \<Rightarrow> ('k::linorder, 'v) fmap \<Rightarrow> ('k, 'v) fmap" where
  "fm_trim cap m = (if cap < fm_size m then fm_trim cap (fmdrop (hd (fm_keys m)) m) else m)"
  by pat_completeness auto
termination
proof (relation "measure (\<lambda>(cap, m). fm_size m)")
  fix cap and m :: "('k::linorder, 'v) fmap"
  assume "cap < fm_size m"
  then have "fm_keys m \<noteq> []"
    by (metis length_fm_keys list.size(3) less_nat_zero_code)
  then have "hd (fm_keys m) |\<in>| fmdom m"
    by (metis fmdom'_alt_def hd_in_set set_fm_keys)
  then show "((cap, fmdrop (hd (fm_keys m)) m), (cap, m)) \<in> measure (\<lambda>(cap, m). fm_size m)"
    using fm_size_drop by simp
qed auto

declare fm_trim.simps [simp del]

lemma fm_size_trim: "fm_size (fm_trim cap m) \<le> cap"
  by (induction cap m rule: fm_trim.induct) (subst fm_trim.simps, simp)

lemma fm_trim_sub: "fmlookup (fm_trim cap m) k = Some v \<Longrightarrow> fmlookup m k = Some v"
proof (induction cap m rule: fm_trim.induct)
  case (1 cap m)
  then show ?case
    by (subst (asm) (2) fm_trim.simps) (auto split: if_splits)
qed

text \<open>Only keys below every surviving key are dropped: the newest entries survive.\<close>

lemma hd_fm_keys_le: "k \<in> fmdom' m \<Longrightarrow> hd (fm_keys m) \<le> k"
  using sorted_fm_keys [of m] unfolding set_fm_keys [symmetric] by (cases "fm_keys m") auto

lemma fm_trim_keeps_newest:
  "fmlookup m k = Some v \<Longrightarrow> k' \<in> fmdom' (fm_trim cap m) \<Longrightarrow> k' \<le> k \<Longrightarrow>
     fmlookup (fm_trim cap m) k = Some v"
proof (induction cap m rule: fm_trim.induct)
  case (1 cap m)
  show ?case
  proof (cases "cap < fm_size m")
    case True
    let ?o = "hd (fm_keys m)"
    have k': "k' \<in> fmdom' (fm_trim cap (fmdrop ?o m))"
      using 1(3) True by (subst (asm) fm_trim.simps) simp
    then have "k' \<in> fmdom' (fmdrop ?o m)"
      by (meson fm_trim_sub fmlookup_dom'_iff)
    then have "k' \<noteq> ?o" "?o \<le> k'" using hd_fm_keys_le [of k' m] by auto
    then have "k \<noteq> ?o" using 1(4) by auto
    then have "fmlookup (fmdrop ?o m) k = Some v" using 1(2) by simp
    from 1(1) [OF True this k' 1(4)] show ?thesis
      using True by (subst fm_trim.simps) simp
  next
    case False
    then show ?thesis using 1(2) by (subst fm_trim.simps) simp
  qed
qed

lemma fm_trim_id: "fm_size m \<le> cap \<Longrightarrow> fm_trim cap m = m"
  by (subst fm_trim.simps) simp

text \<open>\<open>collect()\<close> into a map: a later pair replaces an earlier one with the same key.\<close>

definition fm_collect :: "('k \<times> 'v) list \<Rightarrow> ('k, 'v) fmap" where
  "fm_collect kvs = fold (\<lambda>(k, v). fmupd k v) kvs fmempty"

lemma fmlookup_fold_upd:
  "fmlookup (fold (\<lambda>(k, v). fmupd k v) kvs m) k =
     (case map_of (rev kvs) k of Some v \<Rightarrow> Some v | None \<Rightarrow> fmlookup m k)"
  by (induction kvs arbitrary: m) (auto simp: map_add_def split: option.splits)

lemma fmlookup_collect: "fmlookup (fm_collect kvs) k = map_of (rev kvs) k"
  by (simp add: fm_collect_def fmlookup_fold_upd split: option.splits)

lemma map_of_distinct_rev: "distinct (map fst kvs) \<Longrightarrow> map_of (rev kvs) k = map_of kvs k"
proof (induction kvs)
  case (Cons kv kvs)
  then have "map_of kvs (fst kv) = None" by (simp add: map_of_eq_None_iff)
  with Cons show ?case by (cases kv) (auto simp: map_add_def split: option.splits)
qed simp

lemma fmlookup_collect_distinct: "distinct (map fst kvs) \<Longrightarrow> fmlookup (fm_collect kvs) k = map_of kvs k"
  unfolding fmlookup_collect
  by (rule map_of_distinct_rev)

lemma fmlookup_collect_SomeD: "fmlookup (fm_collect kvs) k = Some v \<Longrightarrow> (k, v) \<in> set kvs"
  unfolding fmlookup_collect using map_of_SomeD by fastforce

text \<open>\<open>retain\<close> on a map, with a test that reads the value.\<close>

definition fm_retain :: "('k \<Rightarrow> 'v \<Rightarrow> bool) \<Rightarrow> ('k, 'v) fmap \<Rightarrow> ('k, 'v) fmap" where
  "fm_retain P m = fmfilter (\<lambda>k. P k (the (fmlookup m k))) m"

lemma fmlookup_retain [simp]:
  "fmlookup (fm_retain P m) k =
     (case fmlookup m k of None \<Rightarrow> None | Some v \<Rightarrow> if P k v then Some v else None)"
  by (auto simp: fm_retain_def split: option.splits)

section \<open>Integers as bytes\<close>

text \<open>\<open>to_le_bytes\<close>, \<open>to_be_bytes\<close> of a \<open>w\<close>-byte integer, and their inverses.\<close>

fun le_bytes :: "nat \<Rightarrow> nat \<Rightarrow> bytes" where
  "le_bytes 0 n = []"
| "le_bytes (Suc w) n = word_of_nat (n mod 256) # le_bytes w (n div 256)"

fun from_le_bytes :: "bytes \<Rightarrow> nat" where
  "from_le_bytes [] = 0"
| "from_le_bytes (b # bs) = unat b + 256 * from_le_bytes bs"

definition be_bytes :: "nat \<Rightarrow> nat \<Rightarrow> bytes" where
  "be_bytes w n = rev (le_bytes w n)"

definition from_be_bytes :: "bytes \<Rightarrow> nat" where
  "from_be_bytes bs = from_le_bytes (rev bs)"

lemma unat_byte_less: "unat (b :: byte) < 256"
  using unsigned_less [of b] by simp

lemma length_le_bytes [simp]: "length (le_bytes w n) = w"
  by (induction w arbitrary: n) auto

lemma length_be_bytes [simp]: "length (be_bytes w n) = w"
  by (simp add: be_bytes_def)

lemma from_le_bytes_le_bytes [codec_simps]: "n < 256 ^ w \<Longrightarrow> from_le_bytes (le_bytes w n) = n"
proof (induction w arbitrary: n)
  case (Suc w)
  then have "n div 256 < 256 ^ w" by (simp add: less_mult_imp_div_less mult.commute)
  with Suc.IH have "from_le_bytes (le_bytes w (n div 256)) = n div 256" by blast
  then show ?case by (simp add: unat_of_nat)
qed simp

lemma from_be_bytes_be_bytes [codec_simps]: "n < 256 ^ w \<Longrightarrow> from_be_bytes (be_bytes w n) = n"
  by (simp add: be_bytes_def from_be_bytes_def from_le_bytes_le_bytes)

lemma le_bytes_from_le_bytes [codec_simps]: "length bs = w \<Longrightarrow> le_bytes w (from_le_bytes bs) = bs"
  using unat_byte_less by (induction bs arbitrary: w) auto

lemma from_le_bytes_bound: "from_le_bytes bs < 256 ^ length bs"
proof (induction bs)
  case (Cons b bs)
  have "unat b < 256" by (rule unat_byte_less)
  with Cons show ?case by simp
qed simp

lemma from_be_bytes_bound: "from_be_bytes bs < 256 ^ length bs"
  using from_le_bytes_bound [of "rev bs"] by (simp add: from_be_bytes_def)

lemma le_bytes_inject:
  "n < 256 ^ w \<Longrightarrow> m < 256 ^ w \<Longrightarrow> le_bytes w n = le_bytes w m \<longleftrightarrow> n = m"
  by (metis from_le_bytes_le_bytes)

lemma be_bytes_inject:
  "n < 256 ^ w \<Longrightarrow> m < 256 ^ w \<Longrightarrow> be_bytes w n = be_bytes w m \<longleftrightarrow> n = m"
  by (metis from_be_bytes_be_bytes)

section \<open>Runs of a component\<close>

text \<open>
  A component is a step function: an operation takes a state to a new state and the values
  it emits. \<open>run_ops\<close> is a run over a list of operations; \<open>run_allowed\<close> says that every
  operation of a run was allowed in the state it met.
\<close>

fun run_ops :: "('op \<Rightarrow> 's \<Rightarrow> 's \<times> 'o list) \<Rightarrow> 'op list \<Rightarrow> 's \<Rightarrow> 's \<times> 'o list" where
  "run_ops step [] s = (s, [])"
| "run_ops step (op # ops) s =
     (case step op s of (s', os) \<Rightarrow>
      case run_ops step ops s' of (s'', os') \<Rightarrow> (s'', os @ os'))"

fun run_allowed ::
    "('op \<Rightarrow> 's \<Rightarrow> 's \<times> 'o list) \<Rightarrow> ('op \<Rightarrow> 's \<Rightarrow> bool) \<Rightarrow> 'op list \<Rightarrow> 's \<Rightarrow> bool" where
  "run_allowed step ok [] s \<longleftrightarrow> True"
| "run_allowed step ok (op # ops) s \<longleftrightarrow> ok op s \<and> run_allowed step ok ops (fst (step op s))"

lemma run_ops_Cons [simp]:
  "fst (run_ops step (op # ops) s) = fst (run_ops step ops (fst (step op s)))"
  "snd (run_ops step (op # ops) s) = snd (step op s) @ snd (run_ops step ops (fst (step op s)))"
  by (auto split: prod.splits)

declare run_ops.simps(2) [simp del]

lemma run_allowed_trivial [simp]: "run_allowed step (\<lambda>_ _. True) ops s"
  by (induction ops arbitrary: s) auto

text \<open>
  The contract of a component: allowed operations keep the invariant and emit only values
  with a given property. It then holds along every allowed run.
\<close>

locale component =
  fixes step :: "'op \<Rightarrow> 's \<Rightarrow> 's \<times> 'o list"
    and ok :: "'op \<Rightarrow> 's \<Rightarrow> bool"
    and inv :: "'s \<Rightarrow> bool"
    and good :: "'o \<Rightarrow> bool"
  assumes step_inv: "inv s \<Longrightarrow> ok op s \<Longrightarrow> inv (fst (step op s))"
    and step_good: "inv s \<Longrightarrow> ok op s \<Longrightarrow> x \<in> set (snd (step op s)) \<Longrightarrow> good x"
begin

lemma run_inv: "inv s \<Longrightarrow> run_allowed step ok ops s \<Longrightarrow> inv (fst (run_ops step ops s))"
  by (induction ops arbitrary: s) (auto intro: step_inv)

lemma run_good:
  "inv s \<Longrightarrow> run_allowed step ok ops s \<Longrightarrow> x \<in> set (snd (run_ops step ops s)) \<Longrightarrow> good x"
  by (induction ops arbitrary: s) (auto intro: step_inv step_good)

end

end
