(* ===== verification/Keys.thy ===== *)
theory Keys
  imports Prelude "HOL-Library.Char_ord"
begin

text \<open>
  Keys and their wire forms (\<open>anymone-core/src/keys.rs\<close>, \<open>identity.rs\<close>). The signature
  scheme, the exchange-key schemes, the hash functions and the hexadecimal codec come from
  other crates: they are the fields of the record \<open>crypto\<close>, an argument of every
  definition that calls them, and \<open>signing_ok\<close> and \<open>hex_ok\<close> state what their documentation
  promises. \<open>demo_crypto\<close> is an instance that meets both.
\<close>

section \<open>Public keys\<close>

datatype pubkey = Pubkey (pubkey_bytes: bytes)

text \<open>The derived order of the sources compares the byte arrays.\<close>

instantiation pubkey :: linorder
begin

definition less_eq_pubkey :: "pubkey \<Rightarrow> pubkey \<Rightarrow> bool" where
  "less_eq_pubkey p q \<longleftrightarrow> pubkey_bytes p \<le> pubkey_bytes q"

definition less_pubkey :: "pubkey \<Rightarrow> pubkey \<Rightarrow> bool" where
  "less_pubkey p q \<longleftrightarrow> pubkey_bytes p < pubkey_bytes q"

instance
  by standard (auto simp: less_eq_pubkey_def less_pubkey_def intro: pubkey.expand)

end

type_synonym peer_id = pubkey

text \<open>\<open>ExchangePublicKeyWire\<close>: the three public halves a relay registers.\<close>

record xk_wire =
  ecdh :: bytes
  kem :: bytes
  set_sig :: bytes

section \<open>Functions of other crates\<close>

record crypto =
  ed_sk_decode :: "bytes \<Rightarrow> bytes option"
  ed_public :: "bytes \<Rightarrow> bytes"
  ed_sign :: "bytes \<Rightarrow> bytes \<Rightarrow> bytes \<Rightarrow> bytes"
  ed_pk_valid :: "bytes \<Rightarrow> bool"
  ed_sig_valid :: "bytes \<Rightarrow> bool"
  ed_verify :: "bytes \<Rightarrow> bytes \<Rightarrow> bytes \<Rightarrow> bytes \<Rightarrow> bool"
  ecdh_valid :: "bytes \<Rightarrow> bool"
  ecdh_public :: "bytes \<Rightarrow> bytes"
  kem_public :: "bytes \<Rightarrow> bytes"
  setsig_public :: "bytes \<Rightarrow> bytes"
  sha256 :: "bytes \<Rightarrow> bytes"
  sha512 :: "bytes \<Rightarrow> bytes"
  hex_encode :: "bytes \<Rightarrow> string"
  hex_decode :: "string \<Rightarrow> bytes option"

text \<open>An ASCII literal as bytes.\<close>

definition ascii :: "string \<Rightarrow> bytes" where
  "ascii s = map (\<lambda>c. word_of_nat (of_char c)) s"

text \<open>Domain tag over every governance signature.\<close>

definition SIGN_NAMESPACE :: bytes where
  "SIGN_NAMESPACE = ascii ''anymone''"

definition verify :: "'z crypto_scheme \<Rightarrow> pubkey \<Rightarrow> bytes \<Rightarrow> bytes \<Rightarrow> bool" where
  "verify C pk msg sig \<longleftrightarrow>
     ed_pk_valid C (pubkey_bytes pk) \<and> ed_sig_valid C sig \<and>
     ed_verify C (pubkey_bytes pk) SIGN_NAMESPACE msg sig"

text \<open>What the sources rely on: a signature by a key verifies under its public half.\<close>

definition signing_ok :: "'z crypto_scheme \<Rightarrow> bool" where
  "signing_ok C \<longleftrightarrow> (\<forall>sk ns m. ed_pk_valid C (ed_public C sk) \<and>
     ed_sig_valid C (ed_sign C sk ns m) \<and>
     ed_verify C (ed_public C sk) ns m (ed_sign C sk ns m))"

definition hex_ok :: "'z crypto_scheme \<Rightarrow> bool" where
  "hex_ok C \<longleftrightarrow> (\<forall>bs. hex_decode C (hex_encode C bs) = Some bs)"

section \<open>Identities\<close>

datatype identity_error =
    Io string
  | BadSecretsLength nat nat
  | BadSeedLength nat
  | Decode

text \<open>
  An identity holds the Ed25519 key (its 32-byte encoding) and the exchange scalar every
  exchange key is derived from.
\<close>

record identity =
  keypair :: bytes
  exchange :: bytes

definition SECRETS_LEN :: nat where
  "SECRETS_LEN = 64"

definition from_secrets :: "'z crypto_scheme \<Rightarrow> bytes \<Rightarrow> identity_error + identity" where
  "from_secrets C secrets =
     (if length secrets \<noteq> SECRETS_LEN then Inl (BadSecretsLength SECRETS_LEN (length secrets))
      else case ed_sk_decode C (take 32 secrets) of
             None \<Rightarrow> Inl Decode
           | Some sk \<Rightarrow>
               if ecdh_valid C (drop 32 secrets)
               then Inr \<lparr>keypair = sk, exchange = drop 32 secrets\<rparr>
               else Inl Decode)"

definition secrets :: "identity \<Rightarrow> bytes" where
  "secrets self = keypair self @ exchange self"

definition identity_pubkey :: "'z crypto_scheme \<Rightarrow> identity \<Rightarrow> pubkey" where
  "identity_pubkey C self = Pubkey (ed_public C (keypair self))"

definition sign :: "'z crypto_scheme \<Rightarrow> identity \<Rightarrow> bytes \<Rightarrow> bytes" where
  "sign C self msg = ed_sign C (keypair self) SIGN_NAMESPACE msg"

text \<open>
  \<open>ExchangeIdentity::from_adcnet_key\<close> hashes the scalar under two tags and seeds the other
  two key pairs with the digests; the wire form carries the three public halves.
\<close>

definition exchange_keys :: "'z crypto_scheme \<Rightarrow> identity \<Rightarrow> xk_wire" where
  "exchange_keys C self =
     \<lparr>ecdh = ecdh_public C (exchange self),
      kem = kem_public C (sha512 C (ascii ''anymone/exchange/mlkem768/v1'' @ exchange self)),
      set_sig = setsig_public C (sha256 C (ascii ''anymone/client-set/sig/v1'' @ exchange self))\<rparr>"

section \<open>Textual public keys\<close>

datatype pubkey_parse_error = MissingPrefix | BadHex | BadLength nat

definition show_pubkey :: "'z crypto_scheme \<Rightarrow> pubkey \<Rightarrow> string" where
  "show_pubkey C pk = ''ed25519:'' @ hex_encode C (pubkey_bytes pk)"

definition strip_prefix :: "'a list \<Rightarrow> 'a list \<Rightarrow> 'a list option" where
  "strip_prefix p s = (if take (length p) s = p then Some (drop (length p) s) else None)"

definition parse_pubkey_str :: "'z crypto_scheme \<Rightarrow> string \<Rightarrow> pubkey_parse_error + pubkey" where
  "parse_pubkey_str C s =
     (case strip_prefix ''ed25519:'' s of
        None \<Rightarrow> Inl MissingPrefix
      | Some rest \<Rightarrow>
          (case hex_decode C rest of
             None \<Rightarrow> Inl BadHex
           | Some bs \<Rightarrow> if length bs = 32 then Inr (Pubkey bs) else Inl (BadLength (length bs))))"

section \<open>Rosters\<close>

text \<open>
  The sorted relay list paired with each relay's decoded key; relays with no key, or with
  one that does not decode, are skipped but keep their index.
\<close>

definition roster_keys ::
    "pubkey list \<Rightarrow> (pubkey \<times> xk_wire) list \<Rightarrow> (xk_wire \<Rightarrow> 'k option) \<Rightarrow> (nat \<times> 'k) list" where
  "roster_keys relays xks decode =
     (let by_pk = fm_collect xks
      in List.map_filter
           (\<lambda>(i, pk). Option.bind (fmlookup by_pk pk) (\<lambda>xk. map_option (Pair i) (decode xk)))
           (enumerate 0 (sort relays)))"

definition derive_seed :: "'z crypto_scheme \<Rightarrow> bytes \<Rightarrow> pubkey list \<Rightarrow> bytes" where
  "derive_seed C domain pubkeys = sha256 C (domain @ concat (map pubkey_bytes (sort pubkeys)))"

section \<open>Properties\<close>

lemma verify_sign: "signing_ok C \<Longrightarrow> verify C (identity_pubkey C i) m (sign C i m)"
  by (simp add: signing_ok_def verify_def identity_pubkey_def sign_def)

lemma strip_prefix_append [simp]: "strip_prefix p (p @ s) = Some s"
  by (simp add: strip_prefix_def)

lemma strip_prefix_Some: "strip_prefix p s = Some r \<longleftrightarrow> s = p @ r"
  by (auto simp: strip_prefix_def) (metis append_take_drop_id)

text \<open>An instance of the external functions, used where a concrete run is evaluated.\<close>

definition demo_crypto :: crypto where
  "demo_crypto =
     \<lparr>ed_sk_decode = (\<lambda>b. if length b = 32 then Some b else None),
      ed_public = (\<lambda>sk. sk),
      ed_sign = (\<lambda>sk ns m. sk @ ns @ m),
      ed_pk_valid = (\<lambda>_. True),
      ed_sig_valid = (\<lambda>_. True),
      ed_verify = (\<lambda>pk ns m s. s = pk @ ns @ m),
      ecdh_valid = (\<lambda>b. length b = 32),
      ecdh_public = (\<lambda>b. b),
      kem_public = (\<lambda>b. b),
      setsig_public = (\<lambda>b. b),
      sha256 = (\<lambda>b. take 32 (b @ replicate 32 0)),
      sha512 = (\<lambda>b. take 64 (b @ replicate 64 0)),
      hex_encode = map (\<lambda>b. char_of (unat b)),
      hex_decode = (\<lambda>s. Some (map (\<lambda>c. word_of_nat (of_char c)) s))\<rparr>"

lemma demo_signing_ok: "signing_ok demo_crypto"
  by (simp add: signing_ok_def demo_crypto_def)

lemma demo_hex_ok: "hex_ok demo_crypto"
proof -
  have "word_of_nat (of_char (char_of (unat b))) = b" for b :: byte
    using unat_byte_less [of b] by simp
  then show ?thesis by (simp add: hex_ok_def demo_crypto_def comp_def)
qed

lemma roster_keys_index:
  assumes "(i, k) \<in> set (roster_keys relays xks decode)"
  shows "i < length relays \<and>
    (\<exists>xk. fmlookup (fm_collect xks) (sort relays ! i) = Some xk \<and> decode xk = Some k)"
  using assms
  by (fastforce simp: roster_keys_def Let_def List.map_filter_def in_set_enumerate_eq
      bind_eq_Some_conv split: prod.splits)

end
