(* ===== verification/Wire.thy ===== *)
theory Wire
  imports Keys
begin

text \<open>
  The frame format of subnet messages (\<open>anymone-core/src/wire.rs\<close>): service and route tags,
  the two frame versions, their encoder and decoder, and the bytes a fragment signature
  covers. Fixed-size arrays are byte lists; \<open>wf_frame\<close> states the lengths the array types
  fix and the two range checks of the decoder.
\<close>

section \<open>Tags\<close>

definition VERSION_RAW :: byte where "VERSION_RAW = 0"
definition VERSION_MULTI_FRAGMENT :: byte where "VERSION_MULTI_FRAGMENT = 1"
definition SERVICE_TAG_LEN :: nat where "SERVICE_TAG_LEN = 20"
definition SIGNATURE_LEN :: nat where "SIGNATURE_LEN = 64"

datatype service_tag = ServiceTag (service_tag_bytes: bytes)

instantiation service_tag :: linorder
begin

definition less_eq_service_tag :: "service_tag \<Rightarrow> service_tag \<Rightarrow> bool" where
  "less_eq_service_tag p q \<longleftrightarrow> service_tag_bytes p \<le> service_tag_bytes q"

definition less_service_tag :: "service_tag \<Rightarrow> service_tag \<Rightarrow> bool" where
  "less_service_tag p q \<longleftrightarrow> service_tag_bytes p < service_tag_bytes q"

instance
  by standard (auto simp: less_eq_service_tag_def less_service_tag_def intro: service_tag.expand)

end

datatype route_tag = RouteTag (route_tag_bytes: bytes)

definition from_label :: "'z crypto_scheme \<Rightarrow> bytes \<Rightarrow> service_tag" where
  "from_label C s = ServiceTag (take SERVICE_TAG_LEN (sha256 C s))"

definition route_of_service :: "service_tag \<Rightarrow> route_tag" where
  "route_of_service t = RouteTag (service_tag_bytes t)"

section \<open>Frames\<close>

datatype frame =
    Raw (raw_dst: route_tag) (raw_data: bytes)
  | Fragment (frag_dst: route_tag) (n_chunks: byte) (chunk_index: byte) (signature: bytes)
      (frag_data: bytes)

datatype wire_error =
    Truncated
  | UnknownVersion byte
  | InvalidChunkCount
  | InvalidChunkIndex byte byte

fun dst :: "frame \<Rightarrow> route_tag" where
  "dst (Raw d _) = d"
| "dst (Fragment d _ _ _ _) = d"

definition decode :: "bytes \<Rightarrow> wire_error + frame" where
  "decode bs =
     (case bs of
        [] \<Rightarrow> Inl Truncated
      | version # rest \<Rightarrow>
          if version = VERSION_RAW then
            (if length rest < SERVICE_TAG_LEN then Inl Truncated
             else Inr (Raw (RouteTag (take SERVICE_TAG_LEN rest)) (drop SERVICE_TAG_LEN rest)))
          else if version = VERSION_MULTI_FRAGMENT then
            (let min_len = SERVICE_TAG_LEN + 1 + 1 + SIGNATURE_LEN in
             if length rest < min_len then Inl Truncated
             else
               (let tag = take SERVICE_TAG_LEN rest;
                    rest' = drop SERVICE_TAG_LEN rest;
                    n = rest' ! 0;
                    i = rest' ! 1;
                    sig = take SIGNATURE_LEN (drop 2 rest');
                    dat = drop SIGNATURE_LEN (drop 2 rest')
                in if n = 0 then Inl InvalidChunkCount
                   else if n \<le> i then Inl (InvalidChunkIndex i n)
                   else Inr (Fragment (RouteTag tag) n i sig dat)))
          else Inl (UnknownVersion version))"

fun encode :: "frame \<Rightarrow> bytes \<Rightarrow> bytes" where
  "encode (Raw d dat) out = out @ [VERSION_RAW] @ route_tag_bytes d @ dat"
| "encode (Fragment d n i sig dat) out =
     out @ [VERSION_MULTI_FRAGMENT] @ route_tag_bytes d @ [n] @ [i] @ sig @ dat"

definition to_bytes :: "frame \<Rightarrow> bytes" where
  "to_bytes f = encode f []"

definition fragment_signing_bytes :: "route_tag \<Rightarrow> byte \<Rightarrow> byte \<Rightarrow> bytes \<Rightarrow> bytes" where
  "fragment_signing_bytes d n i dat =
     [VERSION_MULTI_FRAGMENT] @ route_tag_bytes d @ [n] @ [i] @ dat"

section \<open>Well-formed frames\<close>

fun wf_frame :: "frame \<Rightarrow> bool" where
  "wf_frame (Raw d _) \<longleftrightarrow> length (route_tag_bytes d) = SERVICE_TAG_LEN"
| "wf_frame (Fragment d n i sig _) \<longleftrightarrow>
     length (route_tag_bytes d) = SERVICE_TAG_LEN \<and> length sig = SIGNATURE_LEN \<and>
     n \<noteq> 0 \<and> i < n"

lemmas wire_consts =
  VERSION_RAW_def VERSION_MULTI_FRAGMENT_def SERVICE_TAG_LEN_def SIGNATURE_LEN_def

lemma decode_encode:
  assumes "wf_frame f"
  shows "decode (to_bytes f) = Inr f"
proof (cases f)
  case (Raw d dat)
  with assms show ?thesis
    by (cases d) (simp add: decode_def to_bytes_def wire_consts)
next
  case (Fragment d n i sig dat)
  with assms show ?thesis
    by (cases d) (auto simp: decode_def to_bytes_def wire_consts Let_def nth_append not_le)
qed

lemma split_fragment:
  assumes "SERVICE_TAG_LEN + 1 + 1 + SIGNATURE_LEN \<le> length rest"
  shows "rest = take SERVICE_TAG_LEN rest @ [drop SERVICE_TAG_LEN rest ! 0] @
    [drop SERVICE_TAG_LEN rest ! 1] @ take SIGNATURE_LEN (drop 2 (drop SERVICE_TAG_LEN rest)) @
    drop SIGNATURE_LEN (drop 2 (drop SERVICE_TAG_LEN rest))"
proof -
  let ?r = "drop SERVICE_TAG_LEN rest"
  have len: "2 \<le> length ?r" using assms by (simp add: wire_consts)
  then obtain a b r' where r: "?r = a # b # r'"
    by (metis Suc_le_length_iff numeral_2_eq_2)
  have "rest = take SERVICE_TAG_LEN rest @ ?r" by simp
  also have "?r = [?r ! 0] @ [?r ! 1] @ take SIGNATURE_LEN (drop 2 ?r) @ drop SIGNATURE_LEN (drop 2 ?r)"
    by (simp only: r) simp
  finally show ?thesis .
qed

lemma encode_decode:
  assumes "decode bs = Inr f"
  shows "wf_frame f \<and> to_bytes f = bs"
proof (cases bs)
  case Nil
  with assms show ?thesis by (simp add: decode_def)
next
  case (Cons v rest)
  consider (raw) "v = VERSION_RAW" | (frag) "v = VERSION_MULTI_FRAGMENT" "v \<noteq> VERSION_RAW"
    | (bad) "v \<noteq> VERSION_RAW" "v \<noteq> VERSION_MULTI_FRAGMENT" by blast
  then show ?thesis
  proof cases
    case raw
    with assms Cons show ?thesis
      by (auto simp: decode_def to_bytes_def split: if_splits)
  next
    case frag
    let ?r = "drop SERVICE_TAG_LEN rest"
    from assms Cons frag have
      len: "SERVICE_TAG_LEN + 1 + 1 + SIGNATURE_LEN \<le> length rest" and
      n: "?r ! 0 \<noteq> 0" "?r ! 1 < ?r ! 0" and
      f: "f = Fragment (RouteTag (take SERVICE_TAG_LEN rest)) (?r ! 0) (?r ! 1)
            (take SIGNATURE_LEN (drop 2 ?r)) (drop SIGNATURE_LEN (drop 2 ?r))"
      by (auto simp: decode_def Let_def split: if_splits)
    have "wf_frame f" using len n by (auto simp: f wire_consts)
    moreover have "to_bytes f = v # rest"
      using split_fragment [OF len] frag by (simp add: f to_bytes_def)
    ultimately show ?thesis using Cons by simp
  next
    case bad
    with assms Cons show ?thesis by (simp add: decode_def)
  qed
qed

text \<open>
  C33. The decoder accepts exactly the encodings of well-formed frames, and returns the
  frame that was encoded: parsing and printing are inverse in both directions, so no two
  byte strings parse to the same frame and none that is not canonical is accepted.
\<close>

theorem decode_iff_encoding: "decode bs = Inr f \<longleftrightarrow> wf_frame f \<and> bs = to_bytes f"
  using decode_encode encode_decode by metis

text \<open>
  The bytes a fragment signature covers determine the destination, the chunk count,
  the chunk index and the data: two fragments with 20-byte tags that sign the same bytes
  are the same fragment, up to the signature itself.
\<close>

theorem fragment_signing_bytes_bind:
  assumes "length (route_tag_bytes d) = SERVICE_TAG_LEN"
    and "length (route_tag_bytes d') = SERVICE_TAG_LEN"
  shows "fragment_signing_bytes d n i dat = fragment_signing_bytes d' n' i' dat' \<longleftrightarrow>
    d = d' \<and> n = n' \<and> i = i' \<and> dat = dat'"
  using assms by (auto simp: fragment_signing_bytes_def intro: route_tag.expand)

theorem fragment_signing_bytes_bind_witness:
  "fragment_signing_bytes (RouteTag (replicate 20 7)) 3 1 (ascii ''hi'') \<noteq>
   fragment_signing_bytes (RouteTag (replicate 20 7)) 3 2 (ascii ''hi'')"
  using fragment_signing_bytes_bind [of "RouteTag (replicate 20 7)" "RouteTag (replicate 20 7)"
      3 1 "ascii ''hi''" 3 2 "ascii ''hi''"]
  by (simp add: SERVICE_TAG_LEN_def)

text \<open>
  Every rejection of the decoder is the one the frame layout calls for: an empty
  input or one shorter than its header is truncated, a version byte other than the two
  known ones is reported as such, a fragment with no chunks or with its index at or past
  the count is refused with both numbers.
\<close>

theorem decode_rejects:
  "decode bs = Inl e \<longleftrightarrow>
     (case bs of
        [] \<Rightarrow> e = Truncated
      | v # rest \<Rightarrow>
          (v = VERSION_RAW \<and> length rest < SERVICE_TAG_LEN \<and> e = Truncated) \<or>
          (v = VERSION_MULTI_FRAGMENT \<and>
             length rest < SERVICE_TAG_LEN + 1 + 1 + SIGNATURE_LEN \<and> e = Truncated) \<or>
          (v = VERSION_MULTI_FRAGMENT \<and>
             SERVICE_TAG_LEN + 1 + 1 + SIGNATURE_LEN \<le> length rest \<and>
             ((rest ! 20 = 0 \<and> e = InvalidChunkCount) \<or>
              (rest ! 20 \<noteq> 0 \<and> rest ! 20 \<le> rest ! 21 \<and>
                 e = InvalidChunkIndex (rest ! 21) (rest ! 20)))) \<or>
          (v \<noteq> VERSION_RAW \<and> v \<noteq> VERSION_MULTI_FRAGMENT \<and> e = UnknownVersion v))"
  by (cases bs) (auto simp: decode_def Let_def wire_consts)

end
