(* ===== verification/Config.thy ===== *)
theory Config
  imports Wire
begin

text \<open>
  The signed network configuration (\<open>anymone-core/src/config.rs\<close>): the protocol
  configurations, subnets, the body the committee signs, the multi-signature and its
  verification. The binary serialisation of the body is the \<open>bincode\<close> crate's, so it is a
  field of the record \<open>codecs\<close>, which extends the external functions of \<open>Keys\<close>.

  Every configuration type has its own record; field names carry a short prefix because
  the sources reuse the same names in each of them.
\<close>

type_synonym subnet_id = u32
type_synonym round = u64

section \<open>Attestation policy\<close>

text \<open>
  \<open>PortableMeasurements\<close> belongs to another crate: an image is kept as its serialised form,
  and the two halves that can be compared are read off by functions of the record
  \<open>codecs\<close> below.
\<close>

record firmware_registers =
  mrtd :: bytes
  rtmr0 :: bytes

record tdx_image =
  image_bytes :: bytes
  firmware :: "firmware_registers option"

record play_integrity_policy =
  decryption_key :: bytes
  verification_key :: bytes
  pi_package_name :: string
  pi_certificate_digests :: "bytes list"
  require_strong_integrity :: bool
  max_token_age_ms :: u64

record android_key_policy =
  ak_package_name :: string
  ak_certificate_digests :: "bytes list"
  require_strongbox :: bool
  ak_root_ca_der :: bytes

record app_attest_policy =
  team_id :: string
  bundle_id :: string
  production :: bool
  aa_root_ca_der :: bytes

record attestation_policy =
  tdx_images :: "tdx_image list"
  validity_rounds :: round
  play_integrity :: "play_integrity_policy option"
  app_attest :: "app_attest_policy option"
  android_key :: "android_key_policy option"

definition default_attestation :: attestation_policy where
  "default_attestation =
     \<lparr>tdx_images = [], validity_rounds = 0, play_integrity = None, app_attest = None,
      android_key = None\<rparr>"

section \<open>Protocol configurations\<close>

record noop_config =
  nc_round_duration_ms :: u64
  nc_message_size :: usize
  nc_client_set_min :: u32
  nc_client_set_max :: u32

definition default_noop_config :: noop_config where
  "default_noop_config =
     \<lparr>nc_round_duration_ms = 1000, nc_message_size = 1024, nc_client_set_min = 1,
      nc_client_set_max = 256\<rparr>"

datatype encoding = Prony | Mse

datatype set_formation = Leader | Consensus

record panetiere_config =
  pc_round_duration_ms :: u64
  pc_message_size :: usize
  pc_estimated_messages :: u32
  pc_client_set_min :: u32
  pc_client_set_max :: u32
  pc_threshold :: u32
  pc_setup_seed :: bytes
  pc_encoding :: encoding
  pc_set_formation :: set_formation

definition default_panetiere_config :: panetiere_config where
  "default_panetiere_config =
     \<lparr>pc_round_duration_ms = 1000, pc_message_size = 1024, pc_estimated_messages = 4,
      pc_client_set_min = 0, pc_client_set_max = 8, pc_threshold = 2,
      pc_setup_seed = replicate 32 0, pc_encoding = Prony, pc_set_formation = Leader\<rparr>"

record scheduled_panetiere_config =
  sp_round_duration_ms :: u64
  sp_message_size :: usize
  sp_vector_bytes :: usize
  sp_estimated_messages :: u32
  sp_client_set_min :: u32
  sp_client_set_max :: u32
  sp_threshold :: u32
  sp_setup_seed :: bytes
  sp_set_formation :: set_formation

definition default_scheduled_panetiere_config :: scheduled_panetiere_config where
  "default_scheduled_panetiere_config =
     \<lparr>sp_round_duration_ms = 1000, sp_message_size = 1024, sp_vector_bytes = 8192,
      sp_estimated_messages = 4, sp_client_set_min = 0, sp_client_set_max = 8,
      sp_threshold = 2, sp_setup_seed = replicate 32 0, sp_set_formation = Leader\<rparr>"

record aggregator_group =
  aggregator :: pubkey

record aggregation =
  groups :: "aggregator_group list"

record adcnet_config =
  ac_round_duration_ms :: u64
  ac_max_payload_bytes :: usize
  ac_estimated_messages :: u32
  ac_client_set_min :: u32
  ac_client_set_max :: u32
  ac_aggregation :: "aggregation option"

record scheduled_adcnet_config =
  sa_round_duration_ms :: u64
  sa_message_length :: usize
  sa_auction_slots :: u32
  sa_min_message_size :: u32
  sa_client_set_min :: u32
  sa_client_set_max :: u32

datatype protocol_config =
    Noop noop_config
  | Panetiere panetiere_config
  | ScheduledPanetiere scheduled_panetiere_config
  | Adcnet adcnet_config
  | ScheduledAdcnet scheduled_adcnet_config

fun round_duration :: "protocol_config \<Rightarrow> u64" where
  "round_duration (Noop c) = nc_round_duration_ms c"
| "round_duration (Panetiere c) = pc_round_duration_ms c"
| "round_duration (ScheduledPanetiere c) = sp_round_duration_ms c"
| "round_duration (Adcnet c) = ac_round_duration_ms c"
| "round_duration (ScheduledAdcnet c) = sa_round_duration_ms c"

fun message_size :: "protocol_config \<Rightarrow> usize" where
  "message_size (Noop c) = nc_message_size c"
| "message_size (Panetiere c) = pc_message_size c"
| "message_size (ScheduledPanetiere c) = sp_message_size c"
| "message_size (Adcnet c) = ac_max_payload_bytes c"
| "message_size (ScheduledAdcnet c) = sa_message_length c"

fun client_set_min :: "protocol_config \<Rightarrow> u32" where
  "client_set_min (Noop c) = nc_client_set_min c"
| "client_set_min (Panetiere c) = pc_client_set_min c"
| "client_set_min (ScheduledPanetiere c) = sp_client_set_min c"
| "client_set_min (Adcnet c) = ac_client_set_min c"
| "client_set_min (ScheduledAdcnet c) = sa_client_set_min c"

fun client_set_max :: "protocol_config \<Rightarrow> u32" where
  "client_set_max (Noop c) = nc_client_set_max c"
| "client_set_max (Panetiere c) = pc_client_set_max c"
| "client_set_max (ScheduledPanetiere c) = sp_client_set_max c"
| "client_set_max (Adcnet c) = ac_client_set_max c"
| "client_set_max (ScheduledAdcnet c) = sa_client_set_max c"

fun protocol_aggregation :: "protocol_config \<Rightarrow> aggregation option" where
  "protocol_aggregation (Adcnet c) = ac_aggregation c"
| "protocol_aggregation _ = None"

fun protocol_set_formation :: "protocol_config \<Rightarrow> set_formation" where
  "protocol_set_formation (Panetiere c) = pc_set_formation c"
| "protocol_set_formation (ScheduledPanetiere c) = sp_set_formation c"
| "protocol_set_formation _ = Leader"

section \<open>Subnets and the configuration\<close>

record subnet =
  subnet_id :: subnet_id
  relays :: "pubkey list"
  protocol :: protocol_config
  cover_rate :: f32
  attested :: bool

definition new_subnet :: "subnet_id \<Rightarrow> pubkey list \<Rightarrow> protocol_config \<Rightarrow> subnet" where
  "new_subnet i rs p =
     \<lparr>subnet_id = i, relays = rs, protocol = p, cover_rate = F32_ONE, attested = False\<rparr>"

record service_entry =
  entry_tag :: service_tag
  entry_pubkey :: pubkey

text \<open>\<open>Endpoints\<close> of \<open>discovery.rs\<close>.\<close>

record endpoints =
  node_urls :: "(pubkey \<times> string) list"
  service_urls :: "(service_tag \<times> string) list"

definition default_endpoints :: endpoints where
  "default_endpoints = \<lparr>node_urls = [], service_urls = []\<rparr>"

record config_body =
  body_round :: round
  body_endpoints :: endpoints
  epoch_unix_ms :: u64
  services :: "service_entry list"
  relay_exchange_keys :: "(pubkey \<times> xk_wire) list"
  subnets :: "subnet list"
  relay_client_addrs :: "(pubkey \<times> string) list"
  watchers :: "pubkey list"
  attestation :: attestation_policy

record config_signature =
  signer :: pubkey
  signature_bytes :: bytes

record configuration =
  body :: config_body
  signatures :: "config_signature list"

datatype config_error =
    BadThreshold u32 u32
  | InsufficientSignatures u32 u32

section \<open>Serialisation\<close>

text \<open>
  \<open>body_bytes\<close> is the deterministic big-endian encoding of a body, \<open>body_of_bytes\<close> its
  decoder; \<open>config_bytes\<close> and \<open>config_of_bytes\<close> encode a whole configuration.
\<close>

record codecs = crypto +
  body_bytes :: "config_body \<Rightarrow> bytes"
  body_of_bytes :: "bytes \<Rightarrow> config_body option"
  config_bytes :: "configuration \<Rightarrow> bytes"
  config_of_bytes :: "bytes \<Rightarrow> configuration option"
  image_azure :: "bytes \<Rightarrow> bytes"
  image_dcap :: "bytes \<Rightarrow> bytes"

definition canonical_bytes :: "'z codecs_scheme \<Rightarrow> config_body \<Rightarrow> bytes" where
  "canonical_bytes C b = body_bytes C b"

definition from_canonical_bytes :: "'z codecs_scheme \<Rightarrow> bytes \<Rightarrow> config_body option" where
  "from_canonical_bytes C bs = body_of_bytes C bs"

definition tagged_bytes :: "'z codecs_scheme \<Rightarrow> bytes \<Rightarrow> config_body \<Rightarrow> bytes" where
  "tagged_bytes C tag b = tag @ canonical_bytes C b"

definition propose_bytes :: "'z codecs_scheme \<Rightarrow> config_body \<Rightarrow> bytes" where
  "propose_bytes C b = tagged_bytes C (ascii ''anymone/config/propose'') b"

definition approve_bytes :: "'z codecs_scheme \<Rightarrow> config_body \<Rightarrow> bytes" where
  "approve_bytes C b = tagged_bytes C (ascii ''anymone/config/approve'') b"

text \<open>
  \<open>with_limit(MAX_TRANSMIT_SIZE)\<close>: a configuration whose encoding is larger than one
  transport message is refused.
\<close>

definition MAX_TRANSMIT_SIZE :: nat where
  "MAX_TRANSMIT_SIZE = 16 * 1024 * 1024"

definition decode_config :: "'z codecs_scheme \<Rightarrow> bytes \<Rightarrow> configuration option" where
  "decode_config C bs = (if MAX_TRANSMIT_SIZE < length bs then None else config_of_bytes C bs)"

text \<open>
  Two policies compare their images on the halves that have an equality; everything else
  compares field by field, and so do bodies.
\<close>

definition attestation_eq :: "'z codecs_scheme \<Rightarrow> attestation_policy \<Rightarrow> attestation_policy \<Rightarrow> bool" where
  "attestation_eq C p q \<longleftrightarrow>
     (let images = \<lambda>r. map (\<lambda>i. (image_azure C (image_bytes i), image_dcap C (image_bytes i), firmware i))
                        (tdx_images r)
      in validity_rounds p = validity_rounds q \<and> play_integrity p = play_integrity q \<and>
         app_attest p = app_attest q \<and> android_key p = android_key q \<and> images p = images q)"

definition subnet_eq :: "subnet \<Rightarrow> subnet \<Rightarrow> bool" where
  "subnet_eq s t \<longleftrightarrow>
     subnet_id s = subnet_id t \<and> relays s = relays t \<and> protocol s = protocol t \<and>
     f32_eq (cover_rate s) (cover_rate t) \<and> attested s = attested t"

definition body_eq :: "'z codecs_scheme \<Rightarrow> config_body \<Rightarrow> config_body \<Rightarrow> bool" where
  "body_eq C a b \<longleftrightarrow>
     body_round a = body_round b \<and> body_endpoints a = body_endpoints b \<and>
     epoch_unix_ms a = epoch_unix_ms b \<and> services a = services b \<and>
     relay_exchange_keys a = relay_exchange_keys b \<and>
     list_all2 subnet_eq (subnets a) (subnets b) \<and>
     relay_client_addrs a = relay_client_addrs b \<and> watchers a = watchers b \<and>
     attestation_eq C (attestation a) (attestation b)"

section \<open>The multi-signature\<close>

definition new_configuration :: "config_body \<Rightarrow> configuration" where
  "new_configuration b = \<lparr>body = b, signatures = []\<rparr>"

definition sign_one ::
    "'z codecs_scheme \<Rightarrow> bytes \<Rightarrow> identity \<Rightarrow> config_signature list \<Rightarrow> config_signature list" where
  "sign_one C msg i sigs =
     (let pk = identity_pubkey C i in
      if list_ex (\<lambda>s. signer s = pk) sigs then sigs
      else sigs @ [\<lparr>signer = pk, signature_bytes = sign C i msg\<rparr>])"

definition sign_with :: "'z codecs_scheme \<Rightarrow> identity list \<Rightarrow> configuration \<Rightarrow> configuration" where
  "sign_with C ids cfg =
     (let msg = approve_bytes C (body cfg)
      in cfg\<lparr>signatures := fold (sign_one C msg) ids (signatures cfg)\<rparr>)"

text \<open>The loop of \<open>verify_multisig\<close>: the signers accepted so far, newest last.\<close>

fun multisig_seen ::
    "'z crypto_scheme \<Rightarrow> pubkey list \<Rightarrow> bytes \<Rightarrow> config_signature list \<Rightarrow> pubkey list \<Rightarrow> pubkey list" where
  "multisig_seen C committee msg [] seen = seen"
| "multisig_seen C committee msg (s # ss) seen =
     multisig_seen C committee msg ss
       (if signer s \<notin> set committee then seen
        else if signer s \<in> set seen then seen
        else if \<not> verify C (signer s) msg (signature_bytes s) then seen
        else seen @ [signer s])"

definition verify_multisig ::
    "'z codecs_scheme \<Rightarrow> configuration \<Rightarrow> pubkey list \<Rightarrow> u32 \<Rightarrow> config_error + unit" where
  "verify_multisig C cfg committee threshold =
     (if threshold = 0 \<or> length committee < threshold
      then Inl (BadThreshold threshold (as_u32 (length committee)))
      else
        (let seen = multisig_seen C committee (approve_bytes C (body cfg)) (signatures cfg) []
         in if as_u32 (length seen) < threshold
            then Inl (InsufficientSignatures (as_u32 (length seen)) threshold)
            else Inr ()))"

text \<open>\<open>now_unix_ms\<close> reads the clock: its reading is an argument.\<close>

definition singleton_subnet ::
    "u64 \<Rightarrow> round \<Rightarrow> protocol_config \<Rightarrow> pubkey list \<Rightarrow> (pubkey \<times> xk_wire) list \<Rightarrow>
     service_entry list \<Rightarrow> configuration" where
  "singleton_subnet now_unix_ms r p rs xks svcs =
     new_configuration
       \<lparr>body_round = r, body_endpoints = default_endpoints, epoch_unix_ms = now_unix_ms,
        services = svcs, relay_exchange_keys = xks, subnets = [new_subnet 0 rs p],
        relay_client_addrs = [], watchers = [], attestation = default_attestation\<rparr>"

section \<open>Who signed a configuration\<close>

text \<open>The committee members with a valid signature among those a configuration carries.\<close>

definition valid_signers :: "'z codecs_scheme \<Rightarrow> pubkey list \<Rightarrow> configuration \<Rightarrow> pubkey set" where
  "valid_signers C committee cfg =
     {signer s | s. s \<in> set (signatures cfg) \<and> signer s \<in> set committee \<and>
        verify C (signer s) (approve_bytes C (body cfg)) (signature_bytes s)}"

lemma set_multisig_seen:
  "set (multisig_seen C committee msg ss seen) =
     set seen \<union> {signer s | s. s \<in> set ss \<and> signer s \<in> set committee \<and>
        verify C (signer s) msg (signature_bytes s)}"
  by (induction C committee msg ss seen rule: multisig_seen.induct) auto

lemma distinct_multisig_seen:
  "distinct seen \<Longrightarrow> distinct (multisig_seen C committee msg ss seen)"
  by (induction C committee msg ss seen rule: multisig_seen.induct) auto

lemma length_multisig_seen:
  "length (multisig_seen C committee (approve_bytes C (body cfg)) (signatures cfg) []) =
     card (valid_signers C committee cfg)"
proof -
  let ?seen = "multisig_seen C committee (approve_bytes C (body cfg)) (signatures cfg) []"
  have "length ?seen = card (set ?seen)"
    by (rule distinct_card [symmetric]) (rule distinct_multisig_seen, simp)
  then show ?thesis by (simp add: set_multisig_seen valid_signers_def)
qed

lemma valid_signers_subset: "valid_signers C committee cfg \<subseteq> set committee"
  by (auto simp: valid_signers_def)

lemma finite_valid_signers [simp]: "finite (valid_signers C committee cfg)"
  using finite_subset [OF valid_signers_subset] by blast

lemma card_valid_signers_le: "card (valid_signers C committee cfg) \<le> length committee"
  by (meson List.finite_set card_length card_mono le_trans valid_signers_subset)

lemma verify_multisig_threshold:
  assumes "verify_multisig C cfg committee t = Inr u"
  shows "0 < t \<and> t \<le> length committee \<and> t \<le> card (valid_signers C committee cfg)"
proof -
  from assms have "0 < t" "t \<le> length committee"
    and "t \<le> as_u32 (card (valid_signers C committee cfg))"
    by (auto simp: verify_multisig_def Let_def length_multisig_seen split: if_splits)
  moreover have "as_u32 n \<le> n" for n by (simp add: as_u32_def)
  ultimately show ?thesis using le_trans by blast
qed

section \<open>Quorum certificates\<close>

text \<open>
  What a threshold signature promises its users: a certificate that is accepted was signed
  by at least \<open>t\<close> of the members. Two accepted certificates then share signers.
\<close>

locale quorum_certificates =
  fixes accepts :: "'c \<Rightarrow> bool"
    and certifiers :: "'c \<Rightarrow> 'p set"
    and members :: "'p set"
    and t :: nat
  assumes finite_members: "finite members"
    and certifiers_members: "certifiers c \<subseteq> members"
    and accepts_quorum: "accepts c \<Longrightarrow> t \<le> card (certifiers c)"
begin

lemma finite_certifiers: "finite (certifiers c)"
  using finite_subset [OF certifiers_members finite_members] .

lemma overlap:
  assumes "accepts c" "accepts d"
  shows "2 * t \<le> card members + card (certifiers c \<inter> certifiers d)"
proof -
  have "card (certifiers c \<union> certifiers d) + card (certifiers c \<inter> certifiers d) =
      card (certifiers c) + card (certifiers d)"
    using card_Un_Int [OF finite_certifiers finite_certifiers] by simp
  moreover have "card (certifiers c \<union> certifiers d) \<le> card members"
    using certifiers_members by (simp add: card_mono finite_members)
  ultimately show ?thesis
    using accepts_quorum [OF assms(1)] accepts_quorum [OF assms(2)] by linarith
qed

lemma common_certifier:
  assumes "accepts c" "accepts d" "card members < 2 * t"
  shows "\<exists>p \<in> members. p \<in> certifiers c \<and> p \<in> certifiers d"
proof -
  have "0 < card (certifiers c \<inter> certifiers d)"
    using overlap [OF assms(1,2)] assms(3) by linarith
  then have "certifiers c \<inter> certifiers d \<noteq> {}"
    by (metis card.empty less_irrefl)
  then show ?thesis using certifiers_members by blast
qed

text \<open>An honest member, outside a set of \<open>f\<close> faulty ones, signed both.\<close>

lemma common_honest_certifier:
  assumes "accepts c" "accepts d" "F \<subseteq> members" "card members + card F < 2 * t"
  shows "\<exists>p \<in> members - F. p \<in> certifiers c \<and> p \<in> certifiers d"
proof (rule ccontr)
  assume "\<not> ?thesis"
  then have "certifiers c \<inter> certifiers d \<subseteq> F"
    using certifiers_members by blast
  then have "card (certifiers c \<inter> certifiers d) \<le> card F"
    using assms(3) finite_members by (meson card_mono finite_subset)
  then show False using overlap [OF assms(1,2)] assms(4) by linarith
qed

end

interpretation multisig: quorum_certificates
  "\<lambda>cfg. verify_multisig C cfg committee t = Inr ()" "valid_signers C committee"
  "set committee" t
  for C :: "'z codecs_scheme" and committee t
  by unfold_locales (simp_all add: valid_signers_subset verify_multisig_threshold)

section \<open>Signing\<close>

lemma sign_one_keeps: "s \<in> set sigs \<Longrightarrow> s \<in> set (sign_one C msg i sigs)"
  by (simp add: sign_one_def Let_def)

lemma fold_sign_one_keeps: "s \<in> set sigs \<Longrightarrow> s \<in> set (fold (sign_one C msg) ids sigs)"
  by (induction ids arbitrary: sigs) (auto intro: sign_one_keeps)

lemma fold_sign_one_signers:
  "signer ` set (fold (sign_one C msg) ids sigs) = signer ` set sigs \<union> identity_pubkey C ` set ids"
proof (induction ids arbitrary: sigs)
  case (Cons i ids)
  have "signer ` set (sign_one C msg i sigs) = insert (identity_pubkey C i) (signer ` set sigs)"
    by (auto simp: sign_one_def Let_def list_ex_iff intro: rev_image_eqI)
  with Cons show ?case by simp
qed simp

lemma fold_sign_one_valid:
  assumes "signing_ok C" "\<forall>s \<in> set sigs. verify C (signer s) msg (signature_bytes s)"
  shows "\<forall>s \<in> set (fold (sign_one C msg) ids sigs). verify C (signer s) msg (signature_bytes s)"
  using assms(2)
proof (induction ids arbitrary: sigs)
  case (Cons i ids)
  have "\<forall>s \<in> set (sign_one C msg i sigs). verify C (signer s) msg (signature_bytes s)"
    using Cons.prems verify_sign [OF assms(1)] by (auto simp: sign_one_def Let_def)
  from Cons.IH [OF this] show ?case by simp
qed simp

lemma fold_sign_one_distinct:
  "distinct (map signer sigs) \<Longrightarrow> distinct (map signer (fold (sign_one C msg) ids sigs))"
proof (induction ids arbitrary: sigs)
  case (Cons i ids)
  then have "distinct (map signer (sign_one C msg i sigs))"
    by (auto simp: sign_one_def Let_def list_ex_iff)
  from Cons.IH [OF this] show ?case by simp
qed simp

lemma valid_signers_sign_with_new:
  assumes "signing_ok C"
  shows "valid_signers C committee (sign_with C ids (new_configuration b)) =
    identity_pubkey C ` set ids \<inter> set committee"
proof -
  let ?cfg = "sign_with C ids (new_configuration b)"
  have "body ?cfg = b" "signatures ?cfg = fold (sign_one C (approve_bytes C b)) ids []"
    by (simp_all add: sign_with_def Let_def new_configuration_def)
  then show ?thesis
    using fold_sign_one_signers [of C "approve_bytes C b" ids "[]"]
      fold_sign_one_valid [OF assms, of "[]" "approve_bytes C b" ids]
    by (auto simp: valid_signers_def image_iff)
       (metis imageE imageI)
qed

lemma verify_multisig_Inr:
  assumes "0 < t" "t \<le> length committee" "length committee \<le> U32_MAX"
    and "t \<le> card (valid_signers C committee cfg)"
  shows "verify_multisig C cfg committee t = Inr ()"
proof -
  have "as_u32 (card (valid_signers C committee cfg)) = card (valid_signers C committee cfg)"
    using assms card_valid_signers_le [of C committee cfg] by simp
  then show ?thesis
    using assms by (simp add: verify_multisig_def Let_def length_multisig_seen)
qed

lemma length_ascii [simp]: "length (ascii s) = length s"
  by (simp add: ascii_def)

lemma tag_separated:
  "length s = length t \<Longrightarrow> ascii s \<noteq> ascii t \<Longrightarrow> ascii s @ x \<noteq> ascii t @ y"
  by simp

lemma propose_neq_approve: "propose_bytes C b \<noteq> approve_bytes C b'"
  unfolding propose_bytes_def approve_bytes_def tagged_bytes_def
  by (rule tag_separated) (simp, code_simp)

lemma approve_bytes_inj:
  assumes "\<And>b. body_of_bytes C (body_bytes C b) = Some b"
  shows "approve_bytes C b = approve_bytes C b' \<longleftrightarrow> b = b'"
proof -
  have "body_bytes C b = body_bytes C b' \<longleftrightarrow> b = b'"
    using assms by (metis option.inject)
  then show ?thesis
    unfolding approve_bytes_def tagged_bytes_def canonical_bytes_def by (simp only: same_append_eq)
qed

section \<open>Main results\<close>

text \<open>
  An instance of the external functions. Its body encoding keeps the round only, which is
  enough for the concrete runs below.
\<close>

definition demo_codecs :: codecs where
  "demo_codecs = crypto.extend demo_crypto
     \<lparr>body_bytes = (\<lambda>b. be_bytes 8 (body_round b)),
      body_of_bytes = (\<lambda>_. None),
      config_bytes = (\<lambda>_. []),
      config_of_bytes = (\<lambda>_. None),
      image_azure = id, image_dcap = id\<rparr>"

lemma demo_codecs_signing_ok: "signing_ok demo_codecs"
  by (simp add: signing_ok_def demo_codecs_def demo_crypto_def crypto.defs)

definition demo_identity :: "byte \<Rightarrow> identity" where
  "demo_identity n = \<lparr>keypair = replicate 32 n, exchange = replicate 32 n\<rparr>"

definition demo_committee :: "pubkey list" where
  "demo_committee = map (\<lambda>n. identity_pubkey demo_codecs (demo_identity n)) [1, 2, 3]"

definition demo_body :: "round \<Rightarrow> config_body" where
  "demo_body r = body (singleton_subnet 0 r (Noop default_noop_config) demo_committee [] [])"

definition demo_config :: "round \<Rightarrow> byte list \<Rightarrow> configuration" where
  "demo_config r ns = sign_with demo_codecs (map demo_identity ns) (new_configuration (demo_body r))"

text \<open>
  C23. The verdict of the multi-signature check is decided by the set of distinct committee
  members whose signature over the approval bytes verifies: duplicates, strangers and bad
  signatures neither help nor hurt, an unusable threshold is reported first, and too few
  signers are reported with the exact count.
\<close>

theorem verify_multisig_counts_signers:
  assumes "length committee \<le> U32_MAX"
  shows "verify_multisig C cfg committee t =
    (if t = 0 \<or> length committee < t then Inl (BadThreshold t (length committee))
     else if card (valid_signers C committee cfg) < t
          then Inl (InsufficientSignatures (card (valid_signers C committee cfg)) t)
     else Inr ())"
proof -
  have "as_u32 (card (valid_signers C committee cfg)) = card (valid_signers C committee cfg)"
    using assms card_valid_signers_le [of C committee cfg] by simp
  with assms show ?thesis
    by (simp add: verify_multisig_def Let_def length_multisig_seen)
qed

theorem verify_multisig_counts_signers_witness:
  "card (valid_signers demo_codecs demo_committee (demo_config 7 [3, 1])) = 2"
proof -
  have "length demo_committee \<le> U32_MAX" by code_simp
  moreover have "verify_multisig demo_codecs (demo_config 7 [3, 1]) demo_committee 3 =
      Inl (InsufficientSignatures 2 3)" by code_simp
  moreover have "length demo_committee = 3" by code_simp
  ultimately show ?thesis
    using verify_multisig_counts_signers [of demo_committee demo_codecs "demo_config 7 [3, 1]" 3]
    by (simp split: if_splits)
qed

text \<open>
  Quorums overlap outside any minority of faulty members: two configurations that both
  verify under the committee carry valid approvals from at least \<open>2 t - n\<close> common members,
  and when \<open>n + f < 2 t\<close> one of them is not among the \<open>f\<close> faulty ones.
\<close>

theorem multisig_quorums_overlap:
  assumes "verify_multisig C cfg committee t = Inr ()"
    and "verify_multisig C cfg' committee t = Inr ()"
    and "F \<subseteq> set committee" "card (set committee) + card F < 2 * t"
  shows "2 * t - card (set committee) \<le>
      card (valid_signers C committee cfg \<inter> valid_signers C committee cfg') \<and>
    (\<exists>pk \<in> set committee - F. pk \<in> valid_signers C committee cfg \<and>
      pk \<in> valid_signers C committee cfg')"
  using multisig.overlap [OF assms(1,2)] multisig.common_honest_certifier [OF assms]
  by auto

theorem multisig_quorums_overlap_witness:
  "\<exists>pk. pk \<in> set demo_committee - {} \<and>
     pk \<in> valid_signers demo_codecs demo_committee (demo_config 7 [1, 2]) \<and>
     pk \<in> valid_signers demo_codecs demo_committee (demo_config 8 [2, 3])"
proof (rule conjunct2 [OF multisig_quorums_overlap [of _ _ _ 2], unfolded Bex_def])
  show "verify_multisig demo_codecs (demo_config 7 [1, 2]) demo_committee 2 = Inr ()" by code_simp
  show "verify_multisig demo_codecs (demo_config 8 [2, 3]) demo_committee 2 = Inr ()" by code_simp
  have "card (set demo_committee) \<le> length demo_committee" by (rule card_length)
  also have "length demo_committee = 3" by code_simp
  finally show "card (set demo_committee) + card {} < 2 * 2" by simp
qed simp

text \<open>
  Signing then verifying: a fresh configuration signed by a list of identities
  verifies exactly when the threshold is usable and enough distinct committee members are
  among the signers; no signer appears twice in it.
\<close>

theorem sign_with_verifies:
  assumes "signing_ok C" "length committee \<le> U32_MAX"
  shows "(verify_multisig C (sign_with C ids (new_configuration b)) committee t = Inr () \<longleftrightarrow>
      0 < t \<and> t \<le> length committee \<and> t \<le> card (identity_pubkey C ` set ids \<inter> set committee)) \<and>
    distinct (map signer (signatures (sign_with C ids (new_configuration b))))"
proof (rule conjI)
  show "verify_multisig C (sign_with C ids (new_configuration b)) committee t = Inr () \<longleftrightarrow>
      0 < t \<and> t \<le> length committee \<and> t \<le> card (identity_pubkey C ` set ids \<inter> set committee)"
    using verify_multisig_Inr [of t committee C "sign_with C ids (new_configuration b)"]
      verify_multisig_threshold [of C "sign_with C ids (new_configuration b)" committee t]
      assms(2)
    by (auto simp: valid_signers_sign_with_new [OF assms(1)])
  show "distinct (map signer (signatures (sign_with C ids (new_configuration b))))"
    using fold_sign_one_distinct [of "[]"]
    by (simp add: sign_with_def Let_def new_configuration_def)
qed

theorem sign_with_verifies_witness:
  "\<not> verify_multisig demo_codecs (demo_config 7 [2, 2]) demo_committee 2 = Inr ()"
proof -
  have "identity_pubkey demo_codecs ` set (map demo_identity [2, 2]) \<inter> set demo_committee \<subseteq>
      {identity_pubkey demo_codecs (demo_identity 2)}" by auto
  then have "card (identity_pubkey demo_codecs ` set (map demo_identity [2, 2]) \<inter> set demo_committee) \<le> 1"
    by (metis card.empty card_insert_disjoint card_mono empty_iff finite.emptyI finite_insert One_nat_def)
  moreover have "length demo_committee \<le> U32_MAX" by code_simp
  ultimately show ?thesis
    using sign_with_verifies [OF demo_codecs_signing_ok, of demo_committee
        "map demo_identity [2, 2]" "demo_body 7" 2]
    by (simp add: demo_config_def)
qed

end
