(* ===== verification/Registration.thy ===== *)
theory Registration
  imports Config
begin

text \<open>
  Registrations of relays, services and watchers (\<open>anymone-core/src/scheduling.rs\<close>): the
  bytes each kind signs, the constructors, and the check every ingestion point runs. The
  encodings of the optional addresses and of a whole registration are the \<open>bincode\<close> crate's
  and are fields of the record \<open>reg_codecs\<close>.
\<close>

datatype registration =
    Relay pubkey xk_wire "string option" "string option" bytes
  | Service service_tag pubkey xk_wire "string option" bytes
  | Watcher pubkey bytes

record reg_codecs = codecs +
  relay_endpoint_bytes :: "string option \<Rightarrow> string option \<Rightarrow> bytes"
  service_endpoint_bytes :: "string option \<Rightarrow> bytes"
  registration_bytes :: "registration \<Rightarrow> bytes"
  registration_of_bytes :: "bytes \<Rightarrow> registration option"

section \<open>Signed messages\<close>

definition relay_sign_msg ::
    "'z reg_codecs_scheme \<Rightarrow> pubkey \<Rightarrow> xk_wire \<Rightarrow> string option \<Rightarrow> string option \<Rightarrow> bytes" where
  "relay_sign_msg C pk xk client_addr rpc_url =
     ascii ''anymone-relay'' @ pubkey_bytes pk @ ecdh xk @ kem xk @ set_sig xk @
     relay_endpoint_bytes C client_addr rpc_url"

definition watcher_sign_msg :: "pubkey \<Rightarrow> bytes" where
  "watcher_sign_msg pk = ascii ''anymone-watcher'' @ pubkey_bytes pk"

definition service_sign_msg ::
    "'z reg_codecs_scheme \<Rightarrow> service_tag \<Rightarrow> pubkey \<Rightarrow> xk_wire \<Rightarrow> string option \<Rightarrow> bytes" where
  "service_sign_msg C tag pk xk descriptor_url =
     ascii ''anymone-service'' @ service_tag_bytes tag @ pubkey_bytes pk @
     ecdh xk @ kem xk @ set_sig xk @ service_endpoint_bytes C descriptor_url"

section \<open>Constructors\<close>

definition relay_endpoints ::
    "'z reg_codecs_scheme \<Rightarrow> identity \<Rightarrow> xk_wire \<Rightarrow> string option \<Rightarrow> string option \<Rightarrow> registration" where
  "relay_endpoints C i xk client_addr rpc_url =
     (let pk = identity_pubkey C i
      in Relay pk xk client_addr rpc_url (sign C i (relay_sign_msg C pk xk client_addr rpc_url)))"

definition relay_at ::
    "'z reg_codecs_scheme \<Rightarrow> identity \<Rightarrow> xk_wire \<Rightarrow> string option \<Rightarrow> registration" where
  "relay_at C i xk client_addr = relay_endpoints C i xk client_addr None"

definition relay :: "'z reg_codecs_scheme \<Rightarrow> identity \<Rightarrow> xk_wire \<Rightarrow> registration" where
  "relay C i xk = relay_at C i xk None"

definition watcher :: "'z reg_codecs_scheme \<Rightarrow> identity \<Rightarrow> registration" where
  "watcher C i =
     (let pk = identity_pubkey C i in Watcher pk (sign C i (watcher_sign_msg pk)))"

definition service_at ::
    "'z reg_codecs_scheme \<Rightarrow> identity \<Rightarrow> service_tag \<Rightarrow> xk_wire \<Rightarrow> string option \<Rightarrow> registration" where
  "service_at C i tag xk descriptor_url =
     (let pk = identity_pubkey C i
      in Service tag pk xk descriptor_url (sign C i (service_sign_msg C tag pk xk descriptor_url)))"

definition service :: "'z reg_codecs_scheme \<Rightarrow> identity \<Rightarrow> service_tag \<Rightarrow> xk_wire \<Rightarrow> registration" where
  "service C i tag xk = service_at C i tag xk None"

definition encode_registration :: "'z reg_codecs_scheme \<Rightarrow> registration \<Rightarrow> bytes" where
  "encode_registration C r = registration_bytes C r"

section \<open>Verification\<close>

text \<open>\<open>valid_endpoint\<close> of \<open>discovery.rs\<close>: absent, or a short enough http(s) address.\<close>

definition starts_with :: "'a list \<Rightarrow> 'a list \<Rightarrow> bool" where
  "starts_with s p \<longleftrightarrow> take (length p) s = p"

definition valid_endpoint :: "string option \<Rightarrow> bool" where
  "valid_endpoint endpoint =
     is_none_or (\<lambda>url. length url \<le> 2048 \<and>
       (starts_with url ''https://'' \<or> starts_with url ''http://'')) endpoint"

fun verify_registration :: "'z reg_codecs_scheme \<Rightarrow> registration \<Rightarrow> bool" where
  "verify_registration C (Relay pk xk client_addr rpc_url sig) \<longleftrightarrow>
     valid_endpoint rpc_url \<and> verify C pk (relay_sign_msg C pk xk client_addr rpc_url) sig"
| "verify_registration C (Service tag pk xk descriptor_url sig) \<longleftrightarrow>
     valid_endpoint descriptor_url \<and> verify C pk (service_sign_msg C tag pk xk descriptor_url) sig"
| "verify_registration C (Watcher pk sig) \<longleftrightarrow> verify C pk (watcher_sign_msg pk) sig"

fun registrant :: "registration \<Rightarrow> pubkey" where
  "registrant (Relay pk _ _ _ _) = pk"
| "registrant (Service _ pk _ _ _) = pk"
| "registrant (Watcher pk _) = pk"

text \<open>The message a registration's signature covers.\<close>

fun signed_msg :: "'z reg_codecs_scheme \<Rightarrow> registration \<Rightarrow> bytes" where
  "signed_msg C (Relay pk xk client_addr rpc_url _) = relay_sign_msg C pk xk client_addr rpc_url"
| "signed_msg C (Service tag pk xk descriptor_url _) = service_sign_msg C tag pk xk descriptor_url"
| "signed_msg C (Watcher pk _) = watcher_sign_msg pk"

fun unsigned_fields :: "registration \<Rightarrow> registration" where
  "unsigned_fields (Relay pk xk client_addr rpc_url _) = Relay pk xk client_addr rpc_url []"
| "unsigned_fields (Service tag pk xk descriptor_url _) = Service tag pk xk descriptor_url []"
| "unsigned_fields (Watcher pk _) = Watcher pk []"

section \<open>Lemmas\<close>

lemma ascii_append [simp]: "ascii (s @ t) = ascii s @ ascii t"
  by (simp add: ascii_def)

lemma tags_differ:
  "ascii ''anymone-relay'' @ x \<noteq> ascii ''anymone-watcher'' @ y"
  "ascii ''anymone-relay'' @ x \<noteq> ascii ''anymone-service'' @ z"
  "ascii ''anymone-watcher'' @ y \<noteq> ascii ''anymone-service'' @ z"
proof -
  have eighth: "(ascii s @ u) ! 8 = word_of_nat (of_char (s ! 8))" if "8 < length s" for s and u :: bytes
    using that by (simp add: nth_append ascii_def)
  have "(word_of_nat (of_char CHR ''r'') :: byte) \<noteq> word_of_nat (of_char CHR ''w'')"
    "(word_of_nat (of_char CHR ''r'') :: byte) \<noteq> word_of_nat (of_char CHR ''s'')"
    "(word_of_nat (of_char CHR ''w'') :: byte) \<noteq> word_of_nat (of_char CHR ''s'')"
    by code_simp+
  then show "ascii ''anymone-relay'' @ x \<noteq> ascii ''anymone-watcher'' @ y"
    "ascii ''anymone-relay'' @ x \<noteq> ascii ''anymone-service'' @ z"
    "ascii ''anymone-watcher'' @ y \<noteq> ascii ''anymone-service'' @ z"
    using eighth [of "''anymone-relay''" x] eighth [of "''anymone-watcher''" y]
      eighth [of "''anymone-service''" x] eighth [of "''anymone-service''" z] by auto
qed

text \<open>Keys of the sizes their schemes fix; two key bundles of the same sizes split alike.\<close>

definition same_key_sizes :: "xk_wire \<Rightarrow> xk_wire \<Rightarrow> bool" where
  "same_key_sizes xk xk' \<longleftrightarrow>
     length (ecdh xk) = length (ecdh xk') \<and> length (kem xk) = length (kem xk') \<and>
     length (set_sig xk) = length (set_sig xk')"

fun sized_registration :: "nat \<Rightarrow> nat \<Rightarrow> nat \<Rightarrow> registration \<Rightarrow> bool" where
  "sized_registration a b c (Relay pk xk _ _ _) \<longleftrightarrow> length (pubkey_bytes pk) = 32 \<and>
     length (ecdh xk) = a \<and> length (kem xk) = b \<and> length (set_sig xk) = c"
| "sized_registration a b c (Service tag pk xk _ _) \<longleftrightarrow> length (pubkey_bytes pk) = 32 \<and>
     length (service_tag_bytes tag) = SERVICE_TAG_LEN \<and>
     length (ecdh xk) = a \<and> length (kem xk) = b \<and> length (set_sig xk) = c"
| "sized_registration a b c (Watcher pk _) \<longleftrightarrow> length (pubkey_bytes pk) = 32"

text \<open>What is relied on of the address encodings: distinct addresses encode differently.\<close>

definition endpoint_codecs_ok :: "'z reg_codecs_scheme \<Rightarrow> bool" where
  "endpoint_codecs_ok C \<longleftrightarrow>
     (\<forall>a b a' b'. relay_endpoint_bytes C a b = relay_endpoint_bytes C a' b' \<longrightarrow> a = a' \<and> b = b') \<and>
     (\<forall>a a'. service_endpoint_bytes C a = service_endpoint_bytes C a' \<longrightarrow> a = a')"

lemma relay_sign_msg_bind:
  assumes "endpoint_codecs_ok C" "length (pubkey_bytes pk) = 32" "length (pubkey_bytes pk') = 32"
    and "same_key_sizes xk xk'"
    and "relay_sign_msg C pk xk a b = relay_sign_msg C pk' xk' a' b'"
  shows "pk = pk' \<and> xk = xk' \<and> a = a' \<and> b = b'"
  using assms
  by (auto simp: relay_sign_msg_def same_key_sizes_def endpoint_codecs_ok_def intro: pubkey.expand
      xk_wire.equality)

lemma service_sign_msg_bind:
  assumes "endpoint_codecs_ok C" "length (pubkey_bytes pk) = 32" "length (pubkey_bytes pk') = 32"
    and "length (service_tag_bytes t) = SERVICE_TAG_LEN" "length (service_tag_bytes t') = SERVICE_TAG_LEN"
    and "same_key_sizes xk xk'"
    and "service_sign_msg C t pk xk a = service_sign_msg C t' pk' xk' a'"
  shows "t = t' \<and> pk = pk' \<and> xk = xk' \<and> a = a'"
  using assms
  by (auto simp: service_sign_msg_def same_key_sizes_def endpoint_codecs_ok_def intro: pubkey.expand
      service_tag.expand xk_wire.equality)

section \<open>Main results\<close>

text \<open>An instance of the address encodings: each string is preceded by its length in unary.\<close>

fun demo_str :: "string option \<Rightarrow> bytes" where
  "demo_str None = [0]"
| "demo_str (Some s) = replicate (Suc (length s)) 1 @ [0] @ ascii s"

definition demo_reg_codecs :: reg_codecs where
  "demo_reg_codecs = codecs.extend demo_codecs
     \<lparr>relay_endpoint_bytes = (\<lambda>a b. demo_str a @ demo_str b),
      service_endpoint_bytes = demo_str,
      registration_bytes = (\<lambda>_. []),
      registration_of_bytes = (\<lambda>_. None)\<rparr>"

lemma ascii_inj: "ascii s = ascii t \<longleftrightarrow> s = t"
proof -
  have "inj (\<lambda>c :: char. (word_of_nat (of_char c) :: byte))"
  proof (rule injI)
    fix c d :: char
    assume "(word_of_nat (of_char c) :: byte) = word_of_nat (of_char d)"
    then have "unat (word_of_nat (of_char c) :: byte) = unat (word_of_nat (of_char d) :: byte)"
      by simp
    then show "c = d" by (simp add: unat_of_nat)
  qed
  then show ?thesis by (simp add: ascii_def inj_map_eq_map)
qed

lemma demo_str_prefix: "demo_str a @ x = demo_str b @ y \<Longrightarrow> a = b \<and> x = y"
proof (cases a; cases b)
  fix s t
  assume ab: "a = Some s" "b = Some t" and eq: "demo_str a @ x = demo_str b @ y"
  have run: "takeWhile ((=) 1) (replicate n 1 @ 0 # zs) = replicate n (1 :: byte)" for n zs
    by (induction n) auto
  have "replicate (Suc (length s)) (1 :: byte) = replicate (Suc (length t)) 1"
    using arg_cong [OF eq, of "takeWhile ((=) 1)"] ab
      run [of "Suc (length s)" "ascii s @ x"] run [of "Suc (length t)" "ascii t @ y"] by simp
  then have "length s = length t" by (metis length_replicate Suc_inject)
  with eq ab show ?thesis by (auto simp: ascii_inj)
qed auto

lemma demo_reg_codecs_ok: "signing_ok demo_reg_codecs \<and> endpoint_codecs_ok demo_reg_codecs"
proof
  show "signing_ok demo_reg_codecs"
    by (simp add: signing_ok_def demo_reg_codecs_def demo_codecs_def demo_crypto_def
        codecs.defs crypto.defs)
  show "endpoint_codecs_ok demo_reg_codecs"
    using demo_str_prefix [where x = "[]" and y = "[]"] demo_str_prefix
    by (auto simp: endpoint_codecs_ok_def demo_reg_codecs_def codecs.defs) blast+
qed

definition demo_keys :: "byte \<Rightarrow> xk_wire" where
  "demo_keys n = \<lparr>ecdh = replicate 33 n, kem = replicate 4 n, set_sig = replicate 33 n\<rparr>"

text \<open>
  What a node announces about itself is accepted: a relay, service or watcher
  registration built by the constructors names the builder's key and passes verification,
  with any client address and any acceptable URL.
\<close>

theorem own_registrations_verify:
  assumes "signing_ok C" "valid_endpoint url"
  shows "verify_registration C (relay_endpoints C i xk addr url) \<and>
    verify_registration C (service_at C i tag xk url) \<and>
    verify_registration C (watcher C i) \<and>
    registrant (relay_endpoints C i xk addr url) = identity_pubkey C i \<and>
    registrant (service_at C i tag xk url) = identity_pubkey C i \<and>
    registrant (watcher C i) = identity_pubkey C i"
  using assms
  by (simp add: relay_endpoints_def service_at_def watcher_def Let_def verify_sign)

theorem own_registrations_verify_witness:
  "verify_registration demo_reg_codecs
     (relay_endpoints demo_reg_codecs (demo_identity 3) (demo_keys 5) None (Some ''https://a.example''))"
proof -
  have "valid_endpoint (Some ''https://a.example'')" by code_simp
  from own_registrations_verify [OF conjunct1 [OF demo_reg_codecs_ok] this] show ?thesis by blast
qed

text \<open>
  C36. A registration signature cannot be moved between registrations whose exchange keys have
  the lengths their schemes fix: if the signed bytes of two such registrations agree, they are
  of the same kind and agree in every field, so a signature over one never validates another
  relay, service or watcher entry, other keys, another tag or another address. The lengths are
  a condition on the registrations: \<open>verify_registration\<close> does not check them.
\<close>

theorem registration_signature_binds:
  assumes "endpoint_codecs_ok C" "sized_registration a b c r" "sized_registration a b c r'"
  shows "signed_msg C r = signed_msg C r' \<longleftrightarrow> unsigned_fields r = unsigned_fields r'"
proof
  assume "signed_msg C r = signed_msg C r'"
  then show "unsigned_fields r = unsigned_fields r'"
  proof (cases r; cases r')
    fix pk xk ad url s pk' xk' ad' url' s'
    assume "r = Relay pk xk ad url s" "r' = Relay pk' xk' ad' url' s'"
      "signed_msg C r = signed_msg C r'"
    with assms show ?thesis
      using relay_sign_msg_bind [OF assms(1), of pk pk' xk xk'] by (auto simp: same_key_sizes_def)
  next
    fix t pk xk url s t' pk' xk' url' s'
    assume "r = Service t pk xk url s" "r' = Service t' pk' xk' url' s'"
      "signed_msg C r = signed_msg C r'"
    with assms show ?thesis
      using service_sign_msg_bind [OF assms(1), of pk pk' t t' xk xk'] by (auto simp: same_key_sizes_def)
  qed (use tags_differ tags_differ [symmetric] in
        \<open>auto simp: relay_sign_msg_def service_sign_msg_def watcher_sign_msg_def intro: pubkey.expand\<close>)
qed (cases r; cases r'; auto)

theorem registration_signature_binds_witness:
  "signed_msg demo_reg_codecs (Relay (Pubkey (replicate 32 1)) (demo_keys 5) None None []) \<noteq>
   signed_msg demo_reg_codecs (Relay (Pubkey (replicate 32 1)) (demo_keys 6) None None [])"
proof -
  have "sized_registration 33 4 33 (Relay (Pubkey (replicate 32 1)) (demo_keys 5) None None [])"
    "sized_registration 33 4 33 (Relay (Pubkey (replicate 32 1)) (demo_keys 6) None None [])"
    by code_simp+
  from registration_signature_binds [OF conjunct2 [OF demo_reg_codecs_ok] this]
  show ?thesis by (simp add: demo_keys_def)
qed

text \<open>
  C37. The key sizes matter: the signed bytes carry the three exchange keys back to back
  with no length between them, so moving the boundary between two keys keeps the signature
  valid. A registration whose first key is merged into the second verifies exactly when the
  original does.
\<close>

theorem relay_key_boundary_unsigned:
  "verify_registration C (Relay pk xk addr url s) \<longleftrightarrow>
   verify_registration C
     (Relay pk \<lparr>ecdh = [], kem = ecdh xk @ kem xk, set_sig = set_sig xk\<rparr> addr url s)"
  by (simp add: relay_sign_msg_def)

end
