(* ===== verification/Governance.thy ===== *)
theory Governance
  imports Registration
begin

text \<open>
  Governance: the genesis and the acceptance of configurations
  (\<open>anymone-core/src/discovery.rs\<close>, \<open>governance.rs\<close>, the refresh loop of
  \<open>anymone-rpc-client/src/discovery.rs\<close>), the network view a configuration induces, and the
  in-memory transport that enforces it (\<open>anymone-core/src/transport.rs\<close>).
\<close>

section \<open>Governance and genesis\<close>

record committee_member =
  member_pubkey :: pubkey
  member_exchange_pubkey :: xk_wire

record governance_config =
  gov_committee :: "committee_member list"
  gov_threshold :: u32

definition gov_roster :: "governance_config \<Rightarrow> (pubkey \<times> xk_wire) list" where
  "gov_roster g = map (\<lambda>m. (member_pubkey m, member_exchange_pubkey m)) (gov_committee g)"

record genesis =
  genesis_version :: u16
  governance :: governance_config

datatype discovery_error = Invalid string | ConfigErr config_error

definition new_genesis :: "governance_config \<Rightarrow> genesis" where
  "new_genesis g =
     \<lparr>genesis_version = 1,
      governance = g\<lparr>gov_committee := sort_key member_pubkey (gov_committee g)\<rparr>\<rparr>"

text \<open>\<open>windows(2).any(|w| w[0] >= w[1])\<close>.\<close>

fun some_descent :: "pubkey list \<Rightarrow> bool" where
  "some_descent (a # b # rest) \<longleftrightarrow> b \<le> a \<or> some_descent (b # rest)"
| "some_descent _ \<longleftrightarrow> False"

definition validate_genesis :: "genesis \<Rightarrow> discovery_error + unit" where
  "validate_genesis g =
     (let committee = gov_committee (governance g) in
      if genesis_version g \<noteq> 1 \<or> committee = [] \<or> 256 < length committee \<or>
         gov_threshold (governance g) = 0 \<or>
         length committee < gov_threshold (governance g) \<or>
         some_descent (map member_pubkey committee)
      then Inl (Invalid ''invalid genesis'') else Inr ())"

definition genesis_committee :: "genesis \<Rightarrow> pubkey list" where
  "genesis_committee g = map member_pubkey (gov_committee (governance g))"

definition verify_config ::
    "'z codecs_scheme \<Rightarrow> genesis \<Rightarrow> configuration \<Rightarrow> discovery_error + unit" where
  "verify_config C g cfg =
     (case validate_genesis g of
        Inl e \<Rightarrow> Inl e
      | Inr _ \<Rightarrow>
          (case verify_multisig C cfg (genesis_committee g) (gov_threshold (governance g)) of
             Inl e \<Rightarrow> Inl (ConfigErr e)
           | Inr _ \<Rightarrow> Inr ()))"

definition check_config ::
    "'z codecs_scheme \<Rightarrow> genesis \<Rightarrow> configuration \<Rightarrow> configuration option \<Rightarrow>
     discovery_error + unit" where
  "check_config C g cfg previous =
     (case verify_config C g cfg of
        Inl e \<Rightarrow> Inl e
      | Inr _ \<Rightarrow>
          if is_some_and (\<lambda>p. body_round (body cfg) < body_round (body p) \<or>
               (body_round (body cfg) = body_round (body p) \<and> \<not> body_eq C (body cfg) (body p)))
             previous
          then Inl (Invalid ''configuration rollback or equivocation'')
          else Inr ())"

section \<open>Following the network\<close>

text \<open>
  \<open>Discovery\<close> of the RPC client: the pinned genesis, the configuration it holds, and the
  endpoint it started from. A fetch answers with a genesis and a configuration, or not at
  all; \<open>genesis_hash\<close> and the URL parser belong to other crates.
\<close>

record discovery =
  disc_genesis :: genesis
  disc_config :: "configuration option"
  disc_endpoint :: string

definition refresh_endpoints :: "discovery \<Rightarrow> string list" where
  "refresh_endpoints d =
     take 8 (disc_endpoint d #
       map_or [] (\<lambda>cfg. map snd (node_urls (body_endpoints (body cfg)))) (disc_config d))"

fun refresh_loop ::
    "'z codecs_scheme \<Rightarrow> (genesis \<Rightarrow> bytes) \<Rightarrow> (string \<Rightarrow> bool) \<Rightarrow>
     (string \<Rightarrow> (genesis \<times> configuration) option) \<Rightarrow> discovery \<Rightarrow> string list \<Rightarrow>
     discovery \<times> bool" where
  "refresh_loop C hash url_ok fetch d [] = (d, False)"
| "refresh_loop C hash url_ok fetch d (e # es) =
     (if \<not> url_ok e then refresh_loop C hash url_ok fetch d es
      else
        (case fetch e of
           None \<Rightarrow> refresh_loop C hash url_ok fetch d es
         | Some (g, cfg) \<Rightarrow>
             if hash g \<noteq> hash (disc_genesis d) \<or>
                check_config C (disc_genesis d) cfg (disc_config d) \<noteq> Inr ()
             then refresh_loop C hash url_ok fetch d es
             else (d\<lparr>disc_config := Some cfg\<rparr>, True)))"

text \<open>
  The refresh up to the acceptance of a configuration; fetching the network file and the
  bootstrappers afterwards changes nothing of the accepted configuration.
\<close>

definition refresh ::
    "'z codecs_scheme \<Rightarrow> (genesis \<Rightarrow> bytes) \<Rightarrow> (string \<Rightarrow> bool) \<Rightarrow>
     (string \<Rightarrow> (genesis \<times> configuration) option) \<Rightarrow> discovery \<Rightarrow> discovery \<times> bool" where
  "refresh C hash url_ok fetch d = refresh_loop C hash url_ok fetch d (refresh_endpoints d)"

section \<open>Topics and the network view\<close>

datatype topic =
    TopicConfig
  | TopicRegistration
  | TopicFaults
  | CommitteeBody
  | CommitteeSigs
  | Broadcast subnet_id
  | Shares subnet_id

datatype dest = ToTopic topic | ToPeer subnet_id pubkey | ToEach subnet_id "pubkey list"

record netview =
  view_index :: u64
  view_senders :: "(topic, pubkey fset) fmap"
  primary :: "pubkey list"
  secondary :: "pubkey list"
  registration_recipients :: "pubkey list"
  view_client_addrs :: "(pubkey \<times> string) list"
  view_subnets :: "subnet_id list"

text \<open>\<open>subnet_aggregation\<close> of \<open>runtime.rs\<close>.\<close>

definition subnet_aggregation :: "subnet \<Rightarrow> aggregation option" where
  "subnet_aggregation s = (case protocol s of Adcnet c \<Rightarrow> ac_aggregation c | _ \<Rightarrow> None)"

definition subnet_aggregators :: "subnet \<Rightarrow> pubkey list" where
  "subnet_aggregators s = map_or [] (\<lambda>a. map aggregator (groups a)) (subnet_aggregation s)"

definition is_noop :: "protocol_config \<Rightarrow> bool" where
  "is_noop p = (case p of Noop _ \<Rightarrow> True | _ \<Rightarrow> False)"

definition bind_subnet ::
    "subnet \<Rightarrow> (topic, pubkey fset) fmap \<times> pubkey fset \<Rightarrow> (topic, pubkey fset) fmap \<times> pubkey fset" where
  "bind_subnet s acc =
     (case acc of (senders, all_relays) \<Rightarrow>
      let shares = fset_of_list (relays s) |\<union>| fset_of_list (subnet_aggregators s);
          senders1 = fmupd (Shares (subnet_id s)) shares senders;
          senders2 = (if is_noop (protocol s) then senders1
                      else fmupd (Broadcast (subnet_id s)) (fset_of_list (relays s)) senders1)
      in (senders2, all_relays |\<union>| fset_of_list (relays s)))"

definition net_view :: "config_body \<Rightarrow> pubkey list \<Rightarrow> netview" where
  "net_view b committee =
     (let (senders, all_relays) = fold bind_subnet (subnets b) (fmempty, {||});
          senders' = fmupd TopicConfig (fset_of_list committee) (fmupd TopicFaults all_relays senders);
          prim = sort_dedup
            (committee @ concat (map (\<lambda>s. relays s @ subnet_aggregators s) (subnets b)));
          sec = sort_dedup (filter (\<lambda>pk. pk \<notin> set prim) (watchers b))
      in \<lparr>view_index = body_round b, view_senders = senders', primary = prim, secondary = sec,
          registration_recipients = sort_dedup (committee @ watchers b),
          view_client_addrs = relay_client_addrs b,
          view_subnets = map subnet_id (subnets b)\<rparr>)"

section \<open>The in-memory network\<close>

text \<open>
  A channel is the list of messages sent on it, oldest first. \<open>fetch_config\<close> takes the
  first answer in key order among the nodes that serve one.
\<close>

record inbound =
  inbound_from :: pubkey
  inbound_payload :: bytes

record network =
  topic_log :: "(topic, inbound list) fmap"
  inbox_log :: "(pubkey \<times> subnet_id, inbound list) fmap"
  served :: "(pubkey, bytes) fmap"
  senders :: "(topic, pubkey fset) fmap"

definition new_network :: network where
  "new_network = \<lparr>topic_log = fmempty, inbox_log = fmempty, served = fmempty, senders = fmempty\<rparr>"

definition channel :: "('k, inbound list) fmap \<Rightarrow> 'k \<Rightarrow> inbound list" where
  "channel m k = map_or [] id (fmlookup m k)"

text \<open>
  Delivery on a topic. The channels of the code hold 1024 entries and skip a reader that lags
  behind; here a log keeps every message, so it shows what is delivered to readers that keep up.
\<close>

definition publish :: "pubkey \<Rightarrow> topic \<Rightarrow> bytes \<Rightarrow> network \<Rightarrow> network" where
  "publish me t bs net =
     (if \<not> is_none_or (\<lambda>r. me |\<in>| r) (fmlookup (senders net) t) then net
      else net\<lparr>topic_log := fmupd t (channel (topic_log net) t @ [\<lparr>inbound_from = me, inbound_payload = bs\<rparr>])
                 (topic_log net)\<rparr>)"

definition send :: "pubkey \<Rightarrow> pubkey \<Rightarrow> subnet_id \<Rightarrow> bytes \<Rightarrow> network \<Rightarrow> network" where
  "send me to sn bs net =
     net\<lparr>inbox_log := fmupd (to, sn)
           (channel (inbox_log net) (to, sn) @ [\<lparr>inbound_from = me, inbound_payload = bs\<rparr>]) (inbox_log net)\<rparr>"

definition apply_view :: "netview \<Rightarrow> network \<Rightarrow> network" where
  "apply_view v net = net\<lparr>senders := view_senders v\<rparr>"

definition serve_config :: "pubkey \<Rightarrow> bytes \<Rightarrow> network \<Rightarrow> network" where
  "serve_config me bs net = net\<lparr>served := fmupd me bs (served net)\<rparr>"

definition fetch_config :: "pubkey \<Rightarrow> network \<Rightarrow> bytes option" where
  "fetch_config me net =
     (case find (\<lambda>(pk, _). pk \<noteq> me) (fm_items (served net)) of
        Some (_, bs) \<Rightarrow> Some bs
      | None \<Rightarrow> (case fm_items (served net) of [] \<Rightarrow> None | (_, bs) # _ \<Rightarrow> Some bs))"

definition cached_config :: "pubkey \<Rightarrow> network \<Rightarrow> bytes option" where
  "cached_config me net = fmlookup (served net) me"

text \<open>
  \<open>Subscription::recv\<close> over the messages already delivered: the owner's own messages are
  skipped. \<open>None\<close> with nothing left is where \<open>recv\<close> waits.
\<close>

fun try_recv :: "pubkey option \<Rightarrow> inbound list \<Rightarrow> inbound option \<times> inbound list" where
  "try_recv own [] = (None, [])"
| "try_recv own (m # ms) = (if Some (inbound_from m) = own then try_recv own ms else (Some m, ms))"

section \<open>Accepting configurations\<close>

lemma some_descent_iff: "\<not> some_descent xs \<longleftrightarrow> sorted xs \<and> distinct xs"
  by (induction xs rule: some_descent.induct) force+

lemma validate_genesis_Inr:
  "validate_genesis g = Inr u \<longleftrightarrow>
     genesis_version g = 1 \<and> genesis_committee g \<noteq> [] \<and> length (genesis_committee g) \<le> 256 \<and>
     0 < gov_threshold (governance g) \<and>
     gov_threshold (governance g) \<le> length (genesis_committee g) \<and>
     sorted (genesis_committee g) \<and> distinct (genesis_committee g)"
  using some_descent_iff [of "genesis_committee g"]
  by (auto simp: validate_genesis_def genesis_committee_def Let_def)

lemma verify_config_Inr:
  "verify_config C g cfg = Inr u \<longleftrightarrow>
     validate_genesis g = Inr () \<and>
     gov_threshold (governance g) \<le> card (valid_signers C (genesis_committee g) cfg)"
proof -
  have "validate_genesis g = Inr () \<Longrightarrow>
      verify_multisig C cfg (genesis_committee g) (gov_threshold (governance g)) = Inr () \<longleftrightarrow>
      gov_threshold (governance g) \<le> card (valid_signers C (genesis_committee g) cfg)"
    using verify_multisig_Inr [of "gov_threshold (governance g)" "genesis_committee g" C cfg]
      verify_multisig_threshold [of C cfg "genesis_committee g" "gov_threshold (governance g)"]
    by (auto simp: validate_genesis_Inr U32_MAX_def)
  then show ?thesis
    by (auto simp: verify_config_def split: sum.splits)
qed

text \<open>The order in which a follower may move from one configuration to the next.\<close>

definition succeeds :: "'z codecs_scheme \<Rightarrow> configuration \<Rightarrow> configuration \<Rightarrow> bool" where
  "succeeds C cfg p \<longleftrightarrow> body_round (body p) < body_round (body cfg) \<or>
     (body_round (body cfg) = body_round (body p) \<and> body_eq C (body cfg) (body p))"

lemma f32_eq_trans: "f32_eq x y \<Longrightarrow> f32_eq y z \<Longrightarrow> f32_eq x z"
  by (auto simp: f32_eq_def)

lemma subnet_eq_trans: "subnet_eq x y \<Longrightarrow> subnet_eq y z \<Longrightarrow> subnet_eq x z"
  using f32_eq_trans by (auto simp: subnet_eq_def)

lemma attestation_eq_trans: "attestation_eq C x y \<Longrightarrow> attestation_eq C y z \<Longrightarrow> attestation_eq C x z"
  by (simp add: attestation_eq_def Let_def)

lemma body_eq_trans: "body_eq C x y \<Longrightarrow> body_eq C y z \<Longrightarrow> body_eq C x z"
  using list_all2_trans [of subnet_eq subnet_eq subnet_eq "subnets x" "subnets y" "subnets z"]
    subnet_eq_trans attestation_eq_trans [of C "attestation x" "attestation y" "attestation z"]
  by (auto simp: body_eq_def)

lemma succeeds_trans: "succeeds C x y \<Longrightarrow> succeeds C y z \<Longrightarrow> succeeds C x z"
  using body_eq_trans by (auto simp: succeeds_def)

lemma check_config_Inr:
  "check_config C g cfg previous = Inr () \<longleftrightarrow>
     verify_config C g cfg = Inr () \<and> is_none_or (succeeds C cfg) previous"
  by (auto simp: check_config_def succeeds_def split: sum.splits option.splits)

lemma refresh_loop_spec:
  assumes "refresh_loop C hash url_ok fetch d es = (d', found)"
  shows "disc_genesis d' = disc_genesis d \<and> disc_endpoint d' = disc_endpoint d \<and>
    (if found then \<exists>cfg. disc_config d' = Some cfg \<and>
        check_config C (disc_genesis d) cfg (disc_config d) = Inr ()
     else d' = d)"
  using assms
  by (induction C hash url_ok fetch d es rule: refresh_loop.induct)
     (auto split: if_splits option.splits)

text \<open>
  The contract of a follower: what it holds only ever moves forward in a transitive order
  and always has the property acceptance checks. The client of the contract is the history
  of any number of updates.
\<close>

locale follower =
  fixes held :: "'s \<Rightarrow> 'c option"
    and update :: "'i \<Rightarrow> 's \<Rightarrow> 's"
    and later :: "'c \<Rightarrow> 'c \<Rightarrow> bool"
    and valid :: "'s \<Rightarrow> 'c \<Rightarrow> bool"
  assumes later_trans: "later x y \<Longrightarrow> later y z \<Longrightarrow> later x z"
    and update_moves: "held s = Some c \<Longrightarrow>
      held (update i s) = Some c \<or> (\<exists>c'. held (update i s) = Some c' \<and> later c' c)"
    and update_valid: "(\<And>c. held s = Some c \<Longrightarrow> valid s c) \<Longrightarrow>
      held (update i s) = Some c' \<Longrightarrow> valid (update i s) c'"
begin

lemma history_moves:
  "held s = Some c \<Longrightarrow>
     held (fold update is s) = Some c \<or> (\<exists>c'. held (fold update is s) = Some c' \<and> later c' c)"
proof (induction "is" arbitrary: s c)
  case (Cons i "is")
  from update_moves [OF Cons.prems, of i] obtain c1 where
    c1: "held (update i s) = Some c1" "c1 = c \<or> later c1 c" by auto
  from Cons.IH [OF c1(1)] c1(2) show ?case using later_trans by auto
qed simp

lemma history_valid:
  "(\<And>c. held s = Some c \<Longrightarrow> valid s c) \<Longrightarrow> held (fold update is s) = Some c' \<Longrightarrow>
     valid (fold update is s) c'"
proof (induction "is" arbitrary: s)
  case (Cons i "is")
  have "\<And>c. held (update i s) = Some c \<Longrightarrow> valid (update i s) c"
    using update_valid [OF Cons.prems(1)] .
  with Cons show ?case by simp
qed simp

end

interpretation rpc_client: follower disc_config "\<lambda>fetch d. fst (refresh C hash url_ok fetch d)"
  "succeeds C" "\<lambda>d cfg. verify_config C (disc_genesis d) cfg = Inr ()"
  for C hash url_ok
proof
  fix d c fetch
  obtain d' found where r: "refresh_loop C hash url_ok fetch d (refresh_endpoints d) = (d', found)"
    by (cases "refresh_loop C hash url_ok fetch d (refresh_endpoints d)")
  note spec = refresh_loop_spec [OF r]
  show "disc_config d = Some c \<Longrightarrow>
      disc_config (fst (refresh C hash url_ok fetch d)) = Some c \<or>
      (\<exists>c'. disc_config (fst (refresh C hash url_ok fetch d)) = Some c' \<and> succeeds C c' c)"
    using spec by (auto simp: refresh_def r check_config_Inr split: if_splits)
  fix c'
  show "verify_config C (disc_genesis (fst (refresh C hash url_ok fetch d))) c' = Inr ()"
    if "\<And>c. disc_config d = Some c \<Longrightarrow> verify_config C (disc_genesis d) c = Inr ()"
      "disc_config (fst (refresh C hash url_ok fetch d)) = Some c'"
    using spec that by (auto simp: refresh_def r check_config_Inr split: if_splits)
qed (rule succeeds_trans)

lemma refresh_genesis [simp]:
  "disc_genesis (fold (\<lambda>fetch d. fst (refresh C hash url_ok fetch d)) fs d) = disc_genesis d"
proof (induction fs arbitrary: d)
  case (Cons f fs)
  have "disc_genesis (fst (refresh C hash url_ok f d)) = disc_genesis d"
    using refresh_loop_spec [of C hash url_ok f d "refresh_endpoints d"]
    by (cases "refresh_loop C hash url_ok f d (refresh_endpoints d)") (auto simp: refresh_def)
  with Cons show ?case by simp
qed simp

section \<open>Who may publish\<close>

text \<open>The admission policy a configuration states, topic by topic.\<close>

fun may_publish :: "config_body \<Rightarrow> pubkey list \<Rightarrow> pubkey \<Rightarrow> topic \<Rightarrow> bool" where
  "may_publish b committee pk TopicConfig \<longleftrightarrow> pk \<in> set committee"
| "may_publish b committee pk TopicFaults \<longleftrightarrow> (\<exists>s \<in> set (subnets b). pk \<in> set (relays s))"
| "may_publish b committee pk (Broadcast i) \<longleftrightarrow>
     (\<forall>s \<in> set (subnets b). subnet_id s = i \<and> \<not> is_noop (protocol s) \<longrightarrow> pk \<in> set (relays s))"
| "may_publish b committee pk (Shares i) \<longleftrightarrow>
     (\<forall>s \<in> set (subnets b). subnet_id s = i \<longrightarrow>
        pk \<in> set (relays s) \<or> pk \<in> set (subnet_aggregators s))"
| "may_publish b committee pk _ \<longleftrightarrow> True"

lemma bind_subnets_relays:
  "fset (snd (fold bind_subnet ss acc)) = fset (snd acc) \<union> (\<Union>s \<in> set ss. set (relays s))"
proof (induction ss arbitrary: acc)
  case (Cons s ss)
  then show ?case
    by (auto simp: bind_subnet_def Let_def fset_of_list.rep_eq split: prod.splits)
qed simp

lemma bind_subnet_lookup:
  "fmlookup (fst (bind_subnet s acc)) t =
     (if t = Broadcast (subnet_id s) \<and> \<not> is_noop (protocol s) then Some (fset_of_list (relays s))
      else if t = Shares (subnet_id s)
           then Some (fset_of_list (relays s) |\<union>| fset_of_list (subnet_aggregators s))
      else fmlookup (fst acc) t)"
  by (auto simp: bind_subnet_def Let_def split: prod.splits)

lemma bind_subnets_other:
  "\<forall>s \<in> set ss. t \<noteq> Broadcast (subnet_id s) \<and> t \<noteq> Shares (subnet_id s) \<Longrightarrow>
     fmlookup (fst (fold bind_subnet ss acc)) t = fmlookup (fst acc) t"
  by (induction ss arbitrary: acc) (auto simp: bind_subnet_lookup)

lemma bind_subnets_shares:
  assumes "distinct (map subnet_id ss)"
  shows "fmlookup (fst (fold bind_subnet ss acc)) (Shares i) =
    (case find (\<lambda>s. subnet_id s = i) ss of
       Some s \<Rightarrow> Some (fset_of_list (relays s) |\<union>| fset_of_list (subnet_aggregators s))
     | None \<Rightarrow> fmlookup (fst acc) (Shares i))"
  using assms
proof (induction ss arbitrary: acc)
  case (Cons s ss)
  show ?case
  proof (cases "subnet_id s = i")
    case True
    with Cons.prems have "\<forall>s' \<in> set ss. subnet_id s' \<noteq> i" by (auto simp: image_iff)
    then have "fmlookup (fst (fold bind_subnet ss (bind_subnet s acc))) (Shares i) =
        fmlookup (fst (bind_subnet s acc)) (Shares i)" by (intro bind_subnets_other) auto
    with True show ?thesis by (simp add: bind_subnet_lookup)
  qed (use Cons in \<open>simp add: bind_subnet_lookup split: option.splits\<close>)
qed simp

lemma bind_subnets_broadcast:
  assumes "distinct (map subnet_id ss)"
  shows "fmlookup (fst (fold bind_subnet ss acc)) (Broadcast i) =
    (case find (\<lambda>s. subnet_id s = i \<and> \<not> is_noop (protocol s)) ss of
       Some s \<Rightarrow> Some (fset_of_list (relays s))
     | None \<Rightarrow> fmlookup (fst acc) (Broadcast i))"
  using assms
proof (induction ss arbitrary: acc)
  case (Cons s ss)
  show ?case
  proof (cases "subnet_id s = i \<and> \<not> is_noop (protocol s)")
    case True
    with Cons.prems have "\<forall>s' \<in> set ss. subnet_id s' \<noteq> i" by (auto simp: image_iff)
    then have "fmlookup (fst (fold bind_subnet ss (bind_subnet s acc))) (Broadcast i) =
        fmlookup (fst (bind_subnet s acc)) (Broadcast i)" by (intro bind_subnets_other) auto
    with True show ?thesis by (simp add: bind_subnet_lookup)
  qed (use Cons in \<open>auto simp: bind_subnet_lookup split: option.splits\<close>)
qed simp

lemma find_unique:
  assumes "distinct (map f xs)" "find (\<lambda>x. f x = k \<and> P x) xs = Some y" "x \<in> set xs" "f x = k"
  shows "x = y"
proof -
  from assms(2) have "y \<in> set xs" "f y = k" by (auto simp: find_Some_iff)
  with assms(1,3,4) show ?thesis by (metis distinct_map inj_onD)
qed

lemma net_view_senders:
  "view_senders (net_view b committee) =
     fmupd TopicConfig (fset_of_list committee)
       (fmupd TopicFaults (snd (fold bind_subnet (subnets b) (fmempty, {||})))
          (fst (fold bind_subnet (subnets b) (fmempty, {||}))))"
  by (simp add: net_view_def Let_def split: prod.splits)

lemma admission:
  assumes d: "distinct (map subnet_id (subnets b))"
  shows "is_none_or (\<lambda>r. pk |\<in>| r) (fmlookup (view_senders (net_view b committee)) t) \<longleftrightarrow>
    may_publish b committee pk t"
proof (cases t)
  case (Shares i)
  show ?thesis
  proof (cases "find (\<lambda>s. subnet_id s = i) (subnets b)")
    case None
    then have "\<forall>s \<in> set (subnets b). subnet_id s \<noteq> i" by (auto simp: find_None_iff)
    with None show ?thesis
      by (simp add: Shares net_view_senders bind_subnets_shares [OF d])
  next
    case (Some s)
    then have "s \<in> set (subnets b)" "subnet_id s = i" by (auto simp: find_Some_iff)
    moreover have "\<forall>s' \<in> set (subnets b). subnet_id s' = i \<longrightarrow> s' = s"
      using find_unique [OF d, of i "\<lambda>_. True"] Some by auto
    ultimately have "may_publish b committee pk t \<longleftrightarrow>
        pk \<in> set (relays s) \<or> pk \<in> set (subnet_aggregators s)"
      unfolding Shares may_publish.simps by blast
    then show ?thesis
      by (simp add: Shares net_view_senders bind_subnets_shares [OF d] Some fset_of_list.rep_eq)
  qed
next
  case (Broadcast i)
  show ?thesis
  proof (cases "find (\<lambda>s. subnet_id s = i \<and> \<not> is_noop (protocol s)) (subnets b)")
    case None
    then have "\<forall>s \<in> set (subnets b). \<not> (subnet_id s = i \<and> \<not> is_noop (protocol s))"
      by (auto simp: find_None_iff)
    with None show ?thesis
      by (auto simp: Broadcast net_view_senders bind_subnets_broadcast [OF d])
  next
    case (Some s)
    then have "s \<in> set (subnets b)" "subnet_id s = i" "\<not> is_noop (protocol s)"
      by (auto simp: find_Some_iff)
    moreover have "\<forall>s' \<in> set (subnets b). subnet_id s' = i \<longrightarrow> s' = s"
      using find_unique [OF d Some] by auto
    ultimately have "may_publish b committee pk t \<longleftrightarrow> pk \<in> set (relays s)"
      unfolding Broadcast may_publish.simps by blast
    then show ?thesis
      by (simp add: Broadcast net_view_senders bind_subnets_broadcast [OF d] Some fset_of_list.rep_eq)
  qed
qed (auto simp: net_view_senders bind_subnets_other bind_subnets_relays fset_of_list.rep_eq)

section \<open>Main results\<close>

text \<open>
  C34. A follower never rolls back: whatever the endpoints answer over any number of
  refreshes, a configuration it holds is replaced only by one with a later round, or by one
  with an equal body in the same round; and everything it ever holds carries a quorum of
  valid approvals under the pinned genesis, if what it started from did.
\<close>

theorem refresh_never_rolls_back:
  assumes "disc_config d = Some cfg" "verify_config C (disc_genesis d) cfg = Inr ()"
    and "d' = fold (\<lambda>fetch d. fst (refresh C hash url_ok fetch d)) fetches d"
  shows "\<exists>cfg'. disc_config d' = Some cfg' \<and> (cfg' = cfg \<or> succeeds C cfg' cfg) \<and>
    gov_threshold (governance (disc_genesis d)) \<le>
      card (valid_signers C (genesis_committee (disc_genesis d)) cfg')"
proof -
  have "\<And>c. disc_config d = Some c \<Longrightarrow> verify_config C (disc_genesis d) c = Inr ()"
    using assms(1,2) by simp
  note v = rpc_client.history_valid [of d C hash url_ok, OF this]
  from rpc_client.history_moves [of d cfg C hash url_ok fetches, OF assms(1)] obtain cfg' where
    cfg': "disc_config d' = Some cfg'" "cfg' = cfg \<or> succeeds C cfg' cfg"
    unfolding assms(3) by auto
  moreover have "verify_config C (disc_genesis d) cfg' = Inr ()"
    using v cfg'(1) unfolding assms(3) by simp
  ultimately show ?thesis by (simp add: verify_config_Inr)
qed

definition demo_genesis :: genesis where
  "demo_genesis = new_genesis
     \<lparr>gov_committee = map (\<lambda>pk. \<lparr>member_pubkey = pk, member_exchange_pubkey = demo_keys 1\<rparr>) demo_committee,
      gov_threshold = 2\<rparr>"

definition demo_follower :: discovery where
  "demo_follower =
     \<lparr>disc_genesis = demo_genesis, disc_config = Some (demo_config 7 [1, 2]), disc_endpoint = ''a''\<rparr>"

theorem refresh_never_rolls_back_witness:
  "\<exists>cfg'. disc_config (fst (refresh demo_codecs (\<lambda>_. []) (\<lambda>_. True)
       (\<lambda>_. Some (demo_genesis, demo_config 6 [1, 2])) demo_follower)) = Some cfg' \<and>
     (cfg' = demo_config 7 [1, 2] \<or> succeeds demo_codecs cfg' (demo_config 7 [1, 2]))"
proof -
  have "verify_config demo_codecs (disc_genesis demo_follower) (demo_config 7 [1, 2]) = Inr ()"
    by code_simp
  moreover have "disc_config demo_follower = Some (demo_config 7 [1, 2])"
    by (simp add: demo_follower_def)
  ultimately show ?thesis
    using refresh_never_rolls_back [OF _ _ refl, of demo_follower "demo_config 7 [1, 2]" demo_codecs
        "\<lambda>_. []" "\<lambda>_. True" "[\<lambda>_. Some (demo_genesis, demo_config 6 [1, 2])]"] by auto
qed

text \<open>
  The check of one configuration is exactly: a well-formed genesis (version, between one
  and 256 members in strictly increasing key order, a threshold between one and their
  number), a threshold of distinct valid approvals, and no step back from the configuration
  held before.
\<close>

theorem check_config_iff:
  "check_config C g cfg previous = Inr () \<longleftrightarrow>
     genesis_version g = 1 \<and> length (genesis_committee g) \<in> {1..256} \<and>
     sorted (genesis_committee g) \<and> distinct (genesis_committee g) \<and>
     gov_threshold (governance g) \<in> {1..card (valid_signers C (genesis_committee g) cfg)} \<and>
     (previous = None \<or> succeeds C cfg (the previous))"
proof -
  have "card (valid_signers C (genesis_committee g) cfg) \<le> length (genesis_committee g)"
    by (rule card_valid_signers_le)
  then show ?thesis
    by (auto simp: check_config_Inr verify_config_Inr validate_genesis_Inr Suc_le_eq
        split: option.splits)
qed

text \<open>
  C35. The network view implements the admission policy of the configuration: after its view
  is applied, a message published on a topic is appended to that topic's channel exactly
  when the policy lets the sender publish there, and no other channel changes.
\<close>

theorem publish_enforces_admission:
  assumes "distinct (map subnet_id (subnets b))"
    and "net' = publish me t bs (apply_view (net_view b committee) net)"
  shows "channel (topic_log net') t' =
    channel (topic_log net) t' @
      (if t' = t \<and> may_publish b committee me t then [\<lparr>inbound_from = me, inbound_payload = bs\<rparr>] else []) \<and>
    inbox_log net' = inbox_log net"
  using admission [OF assms(1), of me committee t]
  by (simp add: assms(2) publish_def apply_view_def channel_def split: option.splits)

theorem publish_enforces_admission_witness:
  "channel (topic_log (publish (Pubkey [9]) TopicConfig [1]
      (apply_view (net_view (demo_body 7) demo_committee) new_network))) TopicConfig = []"
proof -
  have d: "distinct (map subnet_id (subnets (demo_body 7)))" by code_simp
  have "Pubkey [9] \<notin> set demo_committee" by code_simp
  then have "\<not> may_publish (demo_body 7) demo_committee (Pubkey [9]) TopicConfig" by simp
  with publish_enforces_admission [OF d refl, of "Pubkey [9]" TopicConfig "[1]" demo_committee
      new_network TopicConfig]
  show ?thesis by (simp add: new_network_def channel_def)
qed

text \<open>
  The peer sets of the view: the primary peers are, in strictly increasing order, the
  committee, every relay and every aggregator; the secondary peers are the other watchers;
  no peer is in both, and registrations go to exactly the committee and the watchers.
\<close>

theorem net_view_peer_sets:
  "set (primary (net_view b committee)) =
     set committee \<union> (\<Union>s \<in> set (subnets b). set (relays s) \<union> set (subnet_aggregators s)) \<and>
   set (secondary (net_view b committee)) = set (watchers b) - set (primary (net_view b committee)) \<and>
   set (registration_recipients (net_view b committee)) = set committee \<union> set (watchers b) \<and>
   sorted_wrt (<) (primary (net_view b committee)) \<and>
   sorted_wrt (<) (secondary (net_view b committee)) \<and>
   sorted_wrt (<) (registration_recipients (net_view b committee))"
  by (auto simp: net_view_def Let_def strict_sorted_iff split: prod.splits)

end
