(* ===== verification/Faults.thy ===== *)
theory Faults
  imports Keys
begin

text \<open>
  Fault values and the liveness tracker every protocol observer feeds
  (\<open>anymone-core/src/faults.rs\<close>). The state of \<open>OutputFaultTracker\<close> is the record
  \<open>tracker\<close>; its methods are the definitions of the same name, and \<open>evaluate_rounds\<close> is the
  loop of \<open>evaluate\<close> over the rounds it judges.
\<close>

section \<open>Faults\<close>

datatype fault_kind = Decryption | Integrity | Liveness | Censorship

datatype attribution = Unattributed | Peers "peer_id list"

record fault =
  kind :: fault_kind
  fault_attribution :: attribution
  evidence :: bytes

section \<open>The tracker\<close>

record tracker =
  roster :: "peer_id list"
  fail_threshold :: u64
  stall_margin :: u64
  shares :: "(u64, usize fset) fmap"
  outputs :: "u64 fset"
  max_share_round :: "u64 option"
  max_output_round :: "u64 option"
  share_at_last_output :: "u64 option"
  evaluated_through :: "u64 option"
  fail_run :: "usize fset list"
  reported :: bool

definition DEFAULT_STALL_MARGIN :: u64 where
  "DEFAULT_STALL_MARGIN = 4"

definition MAX_EVALUATE_SPAN :: u64 where
  "MAX_EVALUATE_SPAN = 4096"

definition new_tracker :: "peer_id list \<Rightarrow> u64 \<Rightarrow> tracker" where
  "new_tracker peers threshold =
     \<lparr>roster = peers, fail_threshold = max threshold 1, stall_margin = DEFAULT_STALL_MARGIN,
      shares = fmempty, outputs = {||}, max_share_round = None, max_output_round = None,
      share_at_last_output = None, evaluated_through = None, fail_run = [], reported = False\<rparr>"

definition shares_of :: "tracker \<Rightarrow> u64 \<Rightarrow> usize fset" where
  "shares_of t r = map_or {||} id (fmlookup (shares t) r)"

definition observe_share :: "u64 \<Rightarrow> usize \<Rightarrow> tracker \<Rightarrow> tracker" where
  "observe_share r idx t =
     (if idx < length (roster t) then
        t\<lparr>shares := fmupd r (finsert idx (shares_of t r)) (shares t),
          max_share_round := raise_to (max_share_round t) r,
          share_at_last_output :=
            (case share_at_last_output t of None \<Rightarrow> Some r | Some b \<Rightarrow> Some b)\<rparr>
      else t)"

definition observe_output :: "u64 \<Rightarrow> tracker \<Rightarrow> tracker" where
  "observe_output r t =
     (let t' = t\<lparr>outputs := finsert r (outputs t)\<rparr> in
      if is_none_or (\<lambda>m. m < r) (max_output_round t) then
        t'\<lparr>max_output_round := raise_to (max_output_round t) r,
           share_at_last_output :=
             (case max_share_round t of None \<Rightarrow> Some r | Some s \<Rightarrow> Some s)\<rparr>
      else t')"

definition fast_forward :: "u64 \<Rightarrow> tracker \<Rightarrow> tracker" where
  "fast_forward r t =
     t\<lparr>evaluated_through := raise_to (evaluated_through t) (r - 1), fail_run := [],
       reported := False, share_at_last_output := None\<rparr>"

definition output_frozen :: "tracker \<Rightarrow> bool" where
  "output_frozen t =
     (case (max_share_round t, share_at_last_output t) of
        (Some s, Some base) \<Rightarrow> stall_margin t < s - base
      | _ \<Rightarrow> False)"

definition missing_in :: "tracker \<Rightarrow> usize fset \<Rightarrow> usize fset" where
  "missing_in t shared = fset_of_list (filter (\<lambda>i. i |\<notin>| shared) [0 ..< length (roster t)])"

definition culprits_of :: "usize fset list \<Rightarrow> usize fset" where
  "culprits_of run = fold (\<lambda>s c. c |\<inter>| s) (tl run) (hd run)"

definition liveness_fault :: "tracker \<Rightarrow> fault" where
  "liveness_fault t =
     (let culprits = culprits_of (fail_run t) in
      \<lparr>kind = Liveness,
       fault_attribution =
         (if culprits \<noteq> {||} \<and> fcard culprits < length (roster t)
          then Peers (sort (map (\<lambda>i. roster t ! i) (sorted_list_of_fset culprits)))
          else Unattributed),
       evidence = []\<rparr>)"

text \<open>
  One pass of the loop body: \<open>None\<close> is its \<open>break\<close>, otherwise the new state and the faults
  it pushed.
\<close>

definition evaluate_round :: "u64 \<Rightarrow> tracker \<Rightarrow> (tracker \<times> fault list) option" where
  "evaluate_round r t =
     (if r |\<in>| outputs t then
        Some (t\<lparr>evaluated_through := Some r, fail_run := [], reported := False\<rparr>, [])
      else
        (let shared = shares_of t r in
         if shared = {||} then Some (t\<lparr>evaluated_through := Some r\<rparr>, [])
         else
           (let skipped = is_some_and (\<lambda>m. r < m) (max_output_round t) in
            if \<not> (skipped \<or> output_frozen t) then None
            else
              (let t1 = t\<lparr>evaluated_through := Some r\<rparr> in
               if reported t1 then Some (t1, [])
               else
                 (let t2 = t1\<lparr>fail_run := fail_run t1 @ [missing_in t1 shared]\<rparr> in
                  if fail_threshold t2 \<le> length (fail_run t2)
                  then Some (t2\<lparr>reported := True\<rparr>, [liveness_fault t2])
                  else Some (t2, []))))))"

fun evaluate_rounds :: "u64 list \<Rightarrow> tracker \<Rightarrow> fault list \<Rightarrow> tracker \<times> fault list" where
  "evaluate_rounds [] t faults = (t, faults)"
| "evaluate_rounds (r # rs) t faults =
     (case evaluate_round r t of
        None \<Rightarrow> (t, faults)
      | Some (t', fs) \<Rightarrow> evaluate_rounds rs t' (faults @ fs))"

text \<open>The rounds \<open>evaluate\<close> walks: from the first not yet judged up to the share frontier.\<close>

definition first_share_round :: "tracker \<Rightarrow> u64 option" where
  "first_share_round t = (if fm_keys (shares t) = [] then None else Some (hd (fm_keys (shares t))))"

definition evaluate_start :: "tracker \<Rightarrow> u64 \<Rightarrow> u64" where
  "evaluate_start t frontier =
     (case evaluated_through t of
        None \<Rightarrow> map_or frontier id (first_share_round t)
      | Some r \<Rightarrow> r + 1)"

definition evaluate_span :: "tracker \<Rightarrow> u64 list" where
  "evaluate_span t =
     (case max_share_round t of
        None \<Rightarrow> []
      | Some frontier \<Rightarrow>
          (let start = evaluate_start t frontier
           in [start ..< min frontier (saturating_add start MAX_EVALUATE_SPAN)]))"

definition evaluate :: "tracker \<Rightarrow> tracker \<times> fault list" where
  "evaluate t = evaluate_rounds (evaluate_span t) t []"

definition share_frontier :: "tracker \<Rightarrow> u64 option" where
  "share_frontier t = max_share_round t"

definition output_frontier :: "tracker \<Rightarrow> u64 option" where
  "output_frontier t = max_output_round t"

definition relays_shared_recent :: "u64 \<Rightarrow> tracker \<Rightarrow> usize list" where
  "relays_shared_recent window t =
     (case max_share_round t of
        None \<Rightarrow> []
      | Some frontier \<Rightarrow>
          sorted_list_of_fset
            (ffUnion (fset_of_list
               (map snd (filter (\<lambda>(r, _). frontier - window \<le> r) (fm_items (shares t)))))))"

section \<open>Runs\<close>

datatype tracker_op = Share u64 usize | Output u64 | FastForward u64 | Evaluate

fun tracker_step :: "tracker_op \<Rightarrow> tracker \<Rightarrow> tracker \<times> fault list" where
  "tracker_step (Share r i) t = (observe_share r i t, [])"
| "tracker_step (Output r) t = (observe_output r t, [])"
| "tracker_step (FastForward r) t = (fast_forward r t, [])"
| "tracker_step Evaluate t = evaluate t"

definition tracker_run :: "tracker_op list \<Rightarrow> tracker \<Rightarrow> tracker \<times> fault list" where
  "tracker_run = run_ops tracker_step"

section \<open>The invariant\<close>

text \<open>
  Only roster indices are recorded; the frontiers are the largest rounds recorded; the run
  of failures is shorter than the threshold until the fault is reported, and exactly as
  long afterwards.
\<close>

definition tracker_ok :: "tracker \<Rightarrow> bool" where
  "tracker_ok t \<longleftrightarrow>
     0 < fail_threshold t \<and>
     (\<forall>r s. fmlookup (shares t) r = Some s \<longrightarrow> s \<noteq> {||} \<and> fset s \<subseteq> {..<length (roster t)}) \<and>
     max_share_round t = last_key (shares t) \<and>
     max_output_round t = (if outputs t = {||} then None else Some (Max (fset (outputs t)))) \<and>
     (\<forall>s \<in> set (fail_run t). fset s \<subseteq> {..<length (roster t)}) \<and>
     (if reported t then length (fail_run t) = fail_threshold t
      else length (fail_run t) < fail_threshold t)"

lemma tracker_ok_new: "tracker_ok (new_tracker peers th)"
  by (simp add: tracker_ok_def new_tracker_def last_key_def)

lemma last_key_upd:
  "last_key (fmupd k v m) = Some (case last_key m of None \<Rightarrow> k | Some k' \<Rightarrow> max k' k)"
proof -
  have "last_key (fmupd k v m) \<noteq> None" by simp
  then obtain l where l: "last_key (fmupd k v m) = Some l" by blast
  note L = last_key_Some [OF l]
  show ?thesis
  proof (cases "last_key m")
    case None
    then have "fmdom' m = {}" by simp
    with L l None show ?thesis by (simp del: last_key_None)
  next
    case (Some k')
    with last_key_Some [OF Some] L l show ?thesis
      by (auto simp: max_def intro: antisym)
  qed
qed

lemma observe_share_ok: "tracker_ok t \<Longrightarrow> tracker_ok (observe_share r i t)"
  unfolding tracker_ok_def
  by (auto simp: observe_share_def shares_of_def last_key_upd raise_to_def
      split: option.splits if_splits)

lemma observe_output_ok: "tracker_ok t \<Longrightarrow> tracker_ok (observe_output r t)"
proof -
  assume ok: "tracker_ok t"
  have "max_output_round (observe_output r t) = Some (Max (insert r (fset (outputs t))))"
  proof (cases "outputs t = {||}")
    case True
    with ok show ?thesis by (simp add: tracker_ok_def observe_output_def raise_to_def)
  next
    case False
    then have "fset (outputs t) \<noteq> {}" by (metis bot_fset.rep_eq fset_inject)
    with ok False show ?thesis
      by (simp add: tracker_ok_def observe_output_def raise_to_def Let_def Max_insert max_def
          del: Max_less_iff Max_le_iff)
  qed
  with ok show ?thesis
    by (simp add: tracker_ok_def observe_output_def Let_def)
qed

lemma fast_forward_ok: "tracker_ok t \<Longrightarrow> tracker_ok (fast_forward r t)"
  by (simp add: tracker_ok_def fast_forward_def)

lemma missing_in_less: "fset (missing_in t s) \<subseteq> {..<length (roster t)}"
  by (auto simp: missing_in_def fset_of_list.rep_eq)

lemma in_missing_in [simp]: "i |\<in>| missing_in t s \<longleftrightarrow> i < length (roster t) \<and> i |\<notin>| s"
  by (auto simp: missing_in_def fset_of_list.rep_eq)

text \<open>What the loop leaves alone.\<close>

definition same_view :: "tracker \<Rightarrow> tracker \<Rightarrow> bool" where
  "same_view t u \<longleftrightarrow>
     roster u = roster t \<and> fail_threshold u = fail_threshold t \<and> stall_margin u = stall_margin t \<and>
     shares u = shares t \<and> outputs u = outputs t \<and> max_share_round u = max_share_round t \<and>
     max_output_round u = max_output_round t \<and> share_at_last_output u = share_at_last_output t"

lemma same_view_derived:
  "same_view t u \<Longrightarrow> output_frozen u = output_frozen t \<and> shares_of u = shares_of t"
  by (simp add: same_view_def output_frozen_def shares_of_def fun_eq_iff split: option.splits)

lemma same_view_refl: "same_view t t"
  by (simp add: same_view_def)

lemma same_view_trans: "same_view t u \<Longrightarrow> same_view u v \<Longrightarrow> same_view t v"
  by (simp add: same_view_def)

lemma evaluate_round_cases:
  assumes "evaluate_round r t = Some (t', fs)"
  obtains
    (success) "r |\<in>| outputs t" "fs = []"
      "t' = t\<lparr>evaluated_through := Some r, fail_run := [], reported := False\<rparr>"
  | (quiet) "r |\<notin>| outputs t" "fs = []" "t' = t\<lparr>evaluated_through := Some r\<rparr>"
      "shares_of t r = {||} \<or> reported t"
  | (failed) "r |\<notin>| outputs t" "shares_of t r \<noteq> {||}" "\<not> reported t" "fs = []"
      "length (fail_run t) + 1 < fail_threshold t"
      "is_some_and (\<lambda>m. r < m) (max_output_round t) \<or> output_frozen t"
      "t' = t\<lparr>evaluated_through := Some r,
               fail_run := fail_run t @ [missing_in t (shares_of t r)]\<rparr>"
  | (faulted) "r |\<notin>| outputs t" "shares_of t r \<noteq> {||}" "\<not> reported t"
      "fail_threshold t \<le> length (fail_run t) + 1"
      "is_some_and (\<lambda>m. r < m) (max_output_round t) \<or> output_frozen t"
      "fs = [liveness_fault (t\<lparr>fail_run := fail_run t @ [missing_in t (shares_of t r)]\<rparr>)]"
      "t' = t\<lparr>evaluated_through := Some r,
               fail_run := fail_run t @ [missing_in t (shares_of t r)], reported := True\<rparr>"
proof -
  have m: "missing_in (t\<lparr>evaluated_through := Some r\<rparr>) s = missing_in t s" for s
    by (simp add: missing_in_def)
  have l: "liveness_fault (t\<lparr>evaluated_through := Some r, fail_run := f\<rparr>) =
      liveness_fault (t\<lparr>fail_run := f\<rparr>)" for f
    by (simp add: liveness_fault_def Let_def)
  show thesis
    using assms
    by (auto simp: evaluate_round_def Let_def m l split: if_splits
        intro: success quiet failed faulted)
qed

lemma evaluate_round_view: "evaluate_round r t = Some (t', fs) \<Longrightarrow> same_view t t'"
  by (erule evaluate_round_cases) (simp_all add: same_view_def)

lemma evaluate_round_ok:
  assumes "tracker_ok t" "evaluate_round r t = Some (t', fs)"
  shows "tracker_ok t'"
  using assms(2)
proof (cases rule: evaluate_round_cases)
  case failed
  with assms(1) show ?thesis
    using missing_in_less [of t "shares_of t r"] by (simp add: tracker_ok_def)
next
  case faulted
  with assms(1) show ?thesis
    using missing_in_less [of t "shares_of t r"] by (simp add: tracker_ok_def)
qed (use assms(1) in \<open>simp_all add: tracker_ok_def\<close>)

lemma evaluate_rounds_induct:
  assumes "P t" "\<forall>f \<in> set acc. Q f"
    and "\<And>u u' fs r. P u \<Longrightarrow> r \<in> set rs \<Longrightarrow> evaluate_round r u = Some (u', fs) \<Longrightarrow>
      P u' \<and> (\<forall>f \<in> set fs. Q f)"
  shows "P (fst (evaluate_rounds rs t acc)) \<and> (\<forall>f \<in> set (snd (evaluate_rounds rs t acc)). Q f)"
  using assms
proof (induction rs t acc rule: evaluate_rounds.induct)
  case (2 r rs t acc)
  show ?case
  proof (cases "evaluate_round r t")
    case (Some x)
    obtain u' fs where x: "x = (u', fs)" by (cases x)
    have u': "P u' \<and> (\<forall>f \<in> set fs. Q f)" using 2(4) [of t r u' fs] 2(2) Some x by simp
    then have acc: "\<forall>f \<in> set (acc @ fs). Q f" using 2(3) by auto
    have "\<And>u u' fs r'. P u \<Longrightarrow> r' \<in> set rs \<Longrightarrow> evaluate_round r' u = Some (u', fs) \<Longrightarrow>
        P u' \<and> (\<forall>f \<in> set fs. Q f)" by (rule 2(4)) auto
    from 2(1) [OF Some x [symmetric] conjunct1 [OF u'] acc this] show ?thesis
      by (simp add: Some x)
  next
    case None
    with 2(2,3) show ?thesis by simp
  qed
qed simp

lemma evaluate_ok: "tracker_ok t \<Longrightarrow> tracker_ok (fst (evaluate t))"
  unfolding evaluate_def
  using evaluate_rounds_induct [of tracker_ok t "[]" "\<lambda>_. True"] evaluate_round_ok by auto

lemma tracker_step_ok: "tracker_ok t \<Longrightarrow> tracker_ok (fst (tracker_step op t))"
  by (cases op) (simp_all add: observe_share_ok observe_output_ok fast_forward_ok evaluate_ok)

lemma roster_step [simp]: "roster (fst (tracker_step op t)) = roster t"
proof (cases op)
  case Evaluate
  have "same_view t (fst (evaluate t))"
    unfolding evaluate_def
    using evaluate_rounds_induct [of "same_view t" t "[]" "\<lambda>_. True"]
      same_view_refl same_view_trans evaluate_round_view by blast
  with Evaluate show ?thesis by (simp add: same_view_def)
qed (auto simp: observe_share_def observe_output_def fast_forward_def Let_def)

section \<open>Who is blamed\<close>

lemma fold_finter: "fset (fold (\<lambda>s c. c |\<inter>| s) xs c) = fset c \<inter> (\<Inter>s \<in> set xs. fset s)"
  by (induction xs arbitrary: c) auto

lemma fset_culprits_of: "run \<noteq> [] \<Longrightarrow> fset (culprits_of run) = (\<Inter>s \<in> set run. fset s)"
  by (cases run) (simp_all add: culprits_of_def fold_finter)

text \<open>A report on a run of failures over roster indices.\<close>

definition fault_wf :: "peer_id list \<Rightarrow> fault \<Rightarrow> bool" where
  "fault_wf peers f \<longleftrightarrow>
     kind f = Liveness \<and> evidence f = [] \<and>
     (case fault_attribution f of
        Unattributed \<Rightarrow> True
      | Peers pks \<Rightarrow> pks \<noteq> [] \<and> sorted pks \<and> distinct pks \<and> set pks \<subset> set peers)"

lemma liveness_fault_peers:
  assumes "fail_run t \<noteq> []" "\<forall>s \<in> set (fail_run t). fset s \<subseteq> {..<length (roster t)}"
    and "fault_attribution (liveness_fault t) = Peers pks"
  shows "set pks = (!) (roster t) ` (\<Inter>s \<in> set (fail_run t). fset s)"
    and "(\<Inter>s \<in> set (fail_run t). fset s) \<subset> {..<length (roster t)}"
    and "(\<Inter>s \<in> set (fail_run t). fset s) \<noteq> {}" "sorted pks"
    and "length pks = card (\<Inter>s \<in> set (fail_run t). fset s)"
proof -
  let ?c = "culprits_of (fail_run t)"
  note c = fset_culprits_of [OF assms(1)]
  have pks: "pks = sort (map ((!) (roster t)) (sorted_list_of_fset ?c))"
    and ne: "?c \<noteq> {||}" and less: "fcard ?c < length (roster t)"
    using assms(3) by (auto simp: liveness_fault_def Let_def split: if_splits)
  show "set pks = (!) (roster t) ` (\<Inter>s \<in> set (fail_run t). fset s)"
    by (simp add: pks c)
  show "sorted pks" by (simp add: pks)
  show "(\<Inter>s \<in> set (fail_run t). fset s) \<noteq> {}"
    using ne c by (metis bot_fset.rep_eq fset_inject)
  have sub: "fset ?c \<subseteq> {..<length (roster t)}"
    unfolding c using assms(1,2) by (cases "fail_run t") auto
  moreover have "fset ?c \<noteq> {..<length (roster t)}"
    using less by (metis card_lessThan fcard.rep_eq less_irrefl)
  ultimately show "(\<Inter>s \<in> set (fail_run t). fset s) \<subset> {..<length (roster t)}"
    unfolding c by blast
  show "length pks = card (\<Inter>s \<in> set (fail_run t). fset s)"
    unfolding c [symmetric] by (simp add: pks sorted_list_of_fset.rep_eq)
qed

lemma liveness_fault_wf:
  assumes "fail_run t \<noteq> []" "\<forall>s \<in> set (fail_run t). fset s \<subseteq> {..<length (roster t)}"
    and d: "distinct (roster t)"
  shows "fault_wf (roster t) (liveness_fault t)"
proof (cases "fault_attribution (liveness_fault t)")
  case Unattributed
  then show ?thesis by (simp add: fault_wf_def liveness_fault_def Let_def)
next
  case (Peers pks)
  note P = liveness_fault_peers [OF assms(1,2) Peers]
  let ?C = "\<Inter>s \<in> set (fail_run t). fset s"
  have inj: "inj_on ((!) (roster t)) {..<length (roster t)}"
    using d by (simp add: inj_on_nth)
  have roster_image: "set (roster t) = (!) (roster t) ` {..<length (roster t)}"
    by (auto simp: set_conv_nth)
  have strict: "set pks \<subset> set (roster t)"
    unfolding P(1) roster_image using P(2) inj
    by (metis image_strict_mono)
  have "card (set pks) = length pks"
    unfolding P(1) P(5) using inj P(2)
    by (meson card_image inj_on_subset psubset_imp_subset)
  then have "distinct pks" by (simp add: card_distinct)
  moreover have "pks \<noteq> []" using P(1,3) by auto
  ultimately show ?thesis
    using Peers P(4) strict by (simp add: fault_wf_def liveness_fault_def Let_def)
qed

lemma liveness_fault_spares:
  assumes "fail_run t \<noteq> []" "\<forall>s \<in> set (fail_run t). fset s \<subseteq> {..<length (roster t)}"
    and "distinct (roster t)" "i < length (roster t)" "\<forall>s \<in> set (fail_run t). i |\<notin>| s"
    and "fault_attribution (liveness_fault t) = Peers pks"
  shows "roster t ! i \<notin> set pks"
proof
  assume "roster t ! i \<in> set pks"
  then obtain j where j: "j \<in> (\<Inter>s \<in> set (fail_run t). fset s)" "roster t ! j = roster t ! i"
    using liveness_fault_peers(1) [OF assms(1,2,6)] by auto
  then have "j < length (roster t)"
    using liveness_fault_peers(2) [OF assms(1,2,6)] by auto
  with j assms(3,4) have "j = i" by (simp add: nth_eq_iff_index_eq)
  with j(1) assms(1,5) show False by (cases "fail_run t") auto
qed

lemma evaluate_round_wf:
  assumes "tracker_ok t" "distinct (roster t)" "evaluate_round r t = Some (t', fs)" "f \<in> set fs"
  shows "fault_wf (roster t) f"
  using assms(3)
proof (cases rule: evaluate_round_cases)
  case faulted
  let ?u = "t\<lparr>fail_run := fail_run t @ [missing_in t (shares_of t r)]\<rparr>"
  have "\<forall>s \<in> set (fail_run ?u). fset s \<subseteq> {..<length (roster ?u)}"
    using assms(1) missing_in_less [of t "shares_of t r"] by (auto simp: tracker_ok_def)
  then have "fault_wf (roster ?u) (liveness_fault ?u)"
    by (intro liveness_fault_wf) (use assms(2) in simp_all)
  with faulted assms(4) show ?thesis by simp
qed (use assms(4) in simp_all)

lemma evaluate_wf:
  assumes "tracker_ok t" "distinct (roster t)" "f \<in> set (snd (evaluate t))"
  shows "fault_wf (roster t) f"
proof -
  let ?P = "\<lambda>u. tracker_ok u \<and> roster u = roster t"
  have step: "?P u' \<and> (\<forall>f \<in> set fs. fault_wf (roster t) f)"
    if "?P u" "evaluate_round r u = Some (u', fs)" for u u' fs r
    using that evaluate_round_ok [of u r u' fs] evaluate_round_view [of r u u' fs]
      evaluate_round_wf [of u r u' fs] assms(2)
    by (auto simp: same_view_def)
  have "?P (fst (evaluate t)) \<and> (\<forall>f \<in> set (snd (evaluate t)). fault_wf (roster t) f)"
    unfolding evaluate_def
    by (rule evaluate_rounds_induct) (simp add: assms(1), simp, rule step)
  then show ?thesis using assms(3) by blast
qed

interpretation tracker: component tracker_step "\<lambda>_ _. True"
  "\<lambda>t. tracker_ok t \<and> roster t = peers \<and> distinct peers" "fault_wf peers" for peers
proof
  fix t op f
  assume inv: "tracker_ok t \<and> roster t = peers \<and> distinct peers"
  then show "tracker_ok (fst (tracker_step op t)) \<and> roster (fst (tracker_step op t)) = peers \<and>
      distinct peers" by (simp add: tracker_step_ok)
  assume "f \<in> set (snd (tracker_step op t))"
  with inv show "fault_wf peers f" by (cases op) (auto dest: evaluate_wf)
qed

text \<open>
  Relay \<open>i\<close> is prompt at an evaluation when it has shared every round below the frontier
  that anyone shared.
\<close>

fun prompt :: "usize \<Rightarrow> tracker_op \<Rightarrow> tracker \<Rightarrow> bool" where
  "prompt i Evaluate t \<longleftrightarrow>
     list_all (\<lambda>(r, s). i |\<in>| s \<or> max_share_round t = Some r) (fm_items (shares t))"
| "prompt i _ t \<longleftrightarrow> True"

lemma prompt_shared:
  assumes "prompt i Evaluate t" "r \<in> set (evaluate_span t)" "shares_of t r \<noteq> {||}"
  shows "i |\<in>| shares_of t r"
proof -
  from assms(3) obtain s where s: "fmlookup (shares t) r = Some s" "shares_of t r = s"
    by (auto simp: shares_of_def split: option.splits)
  moreover have "max_share_round t \<noteq> Some r"
    using assms(2) by (auto simp: evaluate_span_def Let_def split: option.splits)
  ultimately show ?thesis using assms(1) by (auto simp: list_all_iff set_fm_items)
qed

definition spares :: "peer_id \<Rightarrow> fault \<Rightarrow> bool" where
  "spares pk f \<longleftrightarrow> (case fault_attribution f of Unattributed \<Rightarrow> True | Peers pks \<Rightarrow> pk \<notin> set pks)"

definition never_missed :: "usize \<Rightarrow> tracker \<Rightarrow> bool" where
  "never_missed i t \<longleftrightarrow> tracker_ok t \<and> distinct (roster t) \<and> i < length (roster t) \<and>
     (\<forall>s \<in> set (fail_run t). i |\<notin>| s)"

lemma evaluate_round_spares:
  assumes "never_missed i t" "shares_of t r \<noteq> {||} \<Longrightarrow> i |\<in>| shares_of t r"
    and "evaluate_round r t = Some (t', fs)"
  shows "never_missed i t' \<and> (\<forall>f \<in> set fs. spares (roster t ! i) f)"
proof -
  have "tracker_ok t'" using assms evaluate_round_ok by (auto simp: never_missed_def)
  from assms(3) show ?thesis
  proof (cases rule: evaluate_round_cases)
    case faulted
    let ?u = "t\<lparr>fail_run := fail_run t @ [missing_in t (shares_of t r)]\<rparr>"
    have "\<forall>s \<in> set (fail_run ?u). i |\<notin>| s" "\<forall>s \<in> set (fail_run ?u). fset s \<subseteq> {..<length (roster ?u)}"
      using assms(1,2) faulted missing_in_less [of t "shares_of t r"]
      by (auto simp: never_missed_def tracker_ok_def)
    then have "spares (roster ?u ! i) (liveness_fault ?u)"
      using liveness_fault_spares [of ?u i] assms(1)
      by (auto simp: spares_def never_missed_def split: attribution.splits)
    then show ?thesis using faulted assms(1,2) \<open>tracker_ok t'\<close> by (simp add: never_missed_def)
  qed (use assms \<open>tracker_ok t'\<close> in \<open>auto simp: never_missed_def\<close>)
qed

lemma evaluate_spares:
  assumes "never_missed i t" "prompt i Evaluate t"
  shows "never_missed i (fst (evaluate t)) \<and> (\<forall>f \<in> set (snd (evaluate t)). spares (roster t ! i) f)"
proof -
  let ?P = "\<lambda>u. never_missed i u \<and> same_view t u"
  have step: "?P u' \<and> (\<forall>f \<in> set fs. spares (roster t ! i) f)"
    if u: "?P u" and r: "r \<in> set (evaluate_span t)" and e: "evaluate_round r u = Some (u', fs)"
    for u u' fs r
  proof -
    have "shares_of u r = shares_of t r" using u same_view_derived by metis
    then have "shares_of u r \<noteq> {||} \<Longrightarrow> i |\<in>| shares_of u r"
      using prompt_shared [OF assms(2) r] by metis
    from evaluate_round_spares [OF conjunct1 [OF u] this e] show ?thesis
      using u e evaluate_round_view same_view_trans by (metis same_view_def)
  qed
  have "?P (fst (evaluate t)) \<and> (\<forall>f \<in> set (snd (evaluate t)). spares (roster t ! i) f)"
    unfolding evaluate_def
    by (rule evaluate_rounds_induct) (simp add: assms(1) same_view_refl, simp, rule step)
  then show ?thesis by blast
qed

interpretation prompt_tracker: component tracker_step "prompt i"
  "\<lambda>t. never_missed i t \<and> roster t = peers" "spares (peers ! i)" for peers i
proof
  fix t op f
  assume inv: "never_missed i t \<and> roster t = peers" and ok: "prompt i op t"
  show "never_missed i (fst (tracker_step op t)) \<and> roster (fst (tracker_step op t)) = peers"
  proof (cases op)
    case Evaluate
    then show ?thesis using inv ok evaluate_spares roster_step by (metis tracker_step.simps(4))
  qed (use inv tracker_step_ok [of t op] in
        \<open>auto simp: never_missed_def observe_share_def observe_output_def fast_forward_def Let_def\<close>)
  assume "f \<in> set (snd (tracker_step op t))"
  then show "spares (peers ! i) f"
    using inv ok evaluate_spares [of i t] by (cases op) auto
qed

section \<open>Healthy and failed runs\<close>

text \<open>
  Output keeps up at an evaluation when the share frontier is within the stall margin of
  its position at the last output, and no shared round below the output frontier was
  skipped.
\<close>

fun keeps_up :: "tracker_op \<Rightarrow> tracker \<Rightarrow> bool" where
  "keeps_up Evaluate t \<longleftrightarrow>
     \<not> output_frozen t \<and>
     list_all (\<lambda>r. r |\<in>| outputs t \<or> is_none_or (\<lambda>m. m \<le> r) (max_output_round t))
       (fm_keys (shares t))"
| "keeps_up _ t \<longleftrightarrow> True"

lemma keeps_up_round:
  assumes "keeps_up Evaluate t" "fail_run u = []" "same_view t u" "0 < fail_threshold t"
    and "evaluate_round r u = Some (u', fs)"
  shows "fail_run u' = [] \<and> fs = []"
  using assms(5)
proof (cases rule: evaluate_round_cases)
  case failed
  then have "r \<in> set (fm_keys (shares u))"
    by (auto simp: shares_of_def fmlookup_dom'_iff split: option.splits)
  with failed assms(1,3) same_view_derived [OF assms(3)] show ?thesis
    by (auto simp: list_all_iff same_view_def split: option.splits)
next
  case faulted
  then have "r \<in> set (fm_keys (shares u))"
    by (auto simp: shares_of_def fmlookup_dom'_iff split: option.splits)
  with faulted assms(1,3) same_view_derived [OF assms(3)] show ?thesis
    by (auto simp: list_all_iff same_view_def split: option.splits)
qed (use assms(2) in auto)

lemma evaluate_keeps_up:
  assumes "keeps_up Evaluate t" "fail_run t = []" "0 < fail_threshold t"
  shows "fail_run (fst (evaluate t)) = [] \<and> same_view t (fst (evaluate t)) \<and> snd (evaluate t) = []"
proof -
  let ?P = "\<lambda>u. fail_run u = [] \<and> same_view t u"
  have step: "?P u' \<and> (\<forall>f \<in> set fs. False)"
    if "?P u" "evaluate_round r u = Some (u', fs)" for u u' fs r
    using keeps_up_round [OF assms(1) _ _ assms(3) that(2)] that evaluate_round_view
      same_view_trans by (metis empty_iff list.set(1))
  have "?P (fst (evaluate t)) \<and> (\<forall>f \<in> set (snd (evaluate t)). False)"
    unfolding evaluate_def
    by (rule evaluate_rounds_induct) (simp add: assms(2) same_view_refl, simp, rule step)
  then show ?thesis by auto
qed

text \<open>
  A healthy run, described by its events alone: \<open>seen\<close> and \<open>done\<close> are the rounds shared by
  a relay of the roster and the rounds output so far, in order. A round is output only after
  somebody shared it and after every earlier shared round; a share comes at most four rounds
  after the last output, or after the first share while there is no output; no share comes
  for a round that output has passed over; and the clock does not jump.
\<close>

definition lag_base :: "u64 list \<Rightarrow> u64 list \<Rightarrow> u64 \<Rightarrow> u64" where
  "lag_base seen done r =
     (if done = [] then (if seen = [] then r else hd seen) else Max (set done))"

fun healthy :: "usize \<Rightarrow> u64 list \<Rightarrow> u64 list \<Rightarrow> tracker_op list \<Rightarrow> bool" where
  "healthy n seen done [] \<longleftrightarrow> True"
| "healthy n seen done (Share r i # ops) \<longleftrightarrow>
     (if i < n then
        r \<le> lag_base seen done r + 4 \<and> (r \<in> set done \<or> list_all (\<lambda>m. m < r) done) \<and>
        healthy n (seen @ [r]) done ops
      else healthy n seen done ops)"
| "healthy n seen done (Output r # ops) \<longleftrightarrow>
     r \<in> set seen \<and> list_all (\<lambda>s. r \<le> s \<or> s \<in> set done) seen \<and> healthy n seen (done @ [r]) ops"
| "healthy n seen done (FastForward r # ops) \<longleftrightarrow> False"
| "healthy n seen done (Evaluate # ops) \<longleftrightarrow> healthy n seen done ops"

text \<open>What the tracker knows of such a run.\<close>

definition tracks :: "usize \<Rightarrow> u64 list \<Rightarrow> u64 list \<Rightarrow> tracker \<Rightarrow> bool" where
  "tracks n seen done t \<longleftrightarrow>
     tracker_ok t \<and> length (roster t) = n \<and> stall_margin t = 4 \<and> fail_run t = [] \<and>
     fmdom' (shares t) = set seen \<and> fset (outputs t) = set done \<and> set done \<subseteq> set seen \<and>
     (\<forall>s \<in> set seen. s \<in> set done \<or> (\<forall>m \<in> set done. m < s)) \<and>
     (if seen = [] then share_at_last_output t = None
      else \<exists>b. share_at_last_output t = Some b \<and> lag_base seen done 0 \<le> b \<and>
        (\<forall>s \<in> set seen. s \<le> b + 4))"

lemma tracker_ok_frontiers:
  assumes "tracker_ok t"
  shows "max_share_round t = None \<longleftrightarrow> fmdom' (shares t) = {}"
    and "max_share_round t = Some s \<Longrightarrow> s \<in> fmdom' (shares t) \<and> (\<forall>r \<in> fmdom' (shares t). r \<le> s)"
    and "max_output_round t = None \<longleftrightarrow> fset (outputs t) = {}"
    and "max_output_round t = Some m \<Longrightarrow> m |\<in>| outputs t \<and> (\<forall>r. r |\<in>| outputs t \<longrightarrow> r \<le> m)"
proof -
  have share: "max_share_round t = last_key (shares t)"
    and out: "max_output_round t = (if fset (outputs t) = {} then None else Some (Max (fset (outputs t))))"
    using assms by (simp_all add: tracker_ok_def fset_inject [symmetric, of "outputs t"])
  show "max_share_round t = None \<longleftrightarrow> fmdom' (shares t) = {}" by (simp add: share)
  show "max_share_round t = Some s \<Longrightarrow> s \<in> fmdom' (shares t) \<and> (\<forall>r \<in> fmdom' (shares t). r \<le> s)"
    unfolding share by (rule last_key_Some)
  show "max_output_round t = None \<longleftrightarrow> fset (outputs t) = {}" unfolding out by simp
  show "max_output_round t = Some m \<Longrightarrow> m |\<in>| outputs t \<and> (\<forall>r. r |\<in>| outputs t \<longrightarrow> r \<le> m)"
    unfolding out using Max_in [OF finite_fset, of "outputs t"] Max_ge [OF finite_fset, of _ "outputs t"]
    by (metis option.distinct(1) option.sel)
qed

lemma tracks_keeps_up:
  assumes "tracks n seen done t"
  shows "keeps_up Evaluate t"
proof -
  have ok: "tracker_ok t" and margin: "stall_margin t = 4" using assms by (simp_all add: tracks_def)
  note fr = tracker_ok_frontiers [OF ok]
  have dom: "set (fm_keys (shares t)) = set seen" using assms by (simp add: tracks_def)
  have "\<not> output_frozen t"
  proof
    assume "output_frozen t"
    then obtain s b where sb: "max_share_round t = Some s" "share_at_last_output t = Some b" "4 < s - b"
      using margin by (auto simp: output_frozen_def split: option.splits)
    with fr(2) [OF sb(1)] have "s \<in> set seen" using assms by (simp add: tracks_def)
    with assms sb show False by (auto simp: tracks_def split: if_splits)
  qed
  moreover have "r |\<in>| outputs t \<or> is_none_or (\<lambda>m. m \<le> r) (max_output_round t)" if "r \<in> set seen" for r
    using assms fr(4) that by (fastforce simp: tracks_def split: option.splits)
  ultimately show ?thesis using dom by (simp add: list_all_iff)
qed

lemma tracks_share:
  assumes "tracks n seen done t" "i < n" "r \<le> lag_base seen done r + 4"
    and "r \<in> set done \<or> list_all (\<lambda>m. m < r) done"
  shows "tracks n (seen @ [r]) done (observe_share r i t)"
proof -
  have ok: "tracker_ok (observe_share r i t)"
    using assms(1) observe_share_ok by (simp add: tracks_def)
  show ?thesis
  proof (cases "seen = []")
    case True
    then have "done = []" using assms(1) by (simp add: tracks_def)
    with True assms ok show ?thesis by (auto simp: tracks_def observe_share_def lag_base_def)
  next
    case False
    then have base: "lag_base (seen @ [r]) done 0 = lag_base seen done r"
      "lag_base seen done 0 = lag_base seen done r" by (simp_all add: lag_base_def)
    with False assms ok show ?thesis
      by (auto simp: tracks_def observe_share_def list_all_iff split: option.splits)
  qed
qed

lemma tracks_output:
  assumes "tracks n seen done t" "r \<in> set seen" "list_all (\<lambda>s. r \<le> s \<or> s \<in> set done) seen"
  shows "tracks n seen (done @ [r]) (observe_output r t)"
proof -
  have ok: "tracker_ok t" and ok': "tracker_ok (observe_output r t)"
    using assms(1) observe_output_ok by (simp_all add: tracks_def)
  note fr = tracker_ok_frontiers [OF ok]
  have seen: "seen \<noteq> []" using assms(2) by auto
  obtain s where s: "max_share_round t = Some s" "\<forall>x \<in> set seen. x \<le> s"
    using fr(1,2) assms(1,2) by (cases "max_share_round t") (auto simp: tracks_def)
  have keep: "\<forall>x \<in> set seen. x \<in> set (done @ [r]) \<or> (\<forall>m \<in> set (done @ [r]). m < x)"
    using assms by (auto simp: tracks_def list_all_iff)
  show ?thesis
  proof (cases "is_none_or (\<lambda>m. m < r) (max_output_round t)")
    case True
    then have "Max (insert r (set done)) = r"
      using fr(3,4) assms(1) by (intro Max_eqI) (auto simp: tracks_def split: option.splits)
    with True s assms(1,2) ok' keep seen show ?thesis
      by (auto simp: tracks_def observe_output_def Let_def lag_base_def)
  next
    case False
    then obtain m where m: "max_output_round t = Some m" "r \<le> m" by (auto split: option.splits)
    with fr(4) [OF m(1)] assms(1) have "m \<in> set done" "\<forall>x \<in> set done. x \<le> m"
      by (auto simp: tracks_def)
    then have "Max (set done) = m" "Max (insert r (set done)) = m" "done \<noteq> []"
      using m(2) by (auto intro!: Max_eqI)
    with False m s assms(1,2) ok' keep seen show ?thesis
      by (auto simp: tracks_def observe_output_def Let_def lag_base_def)
  qed
qed

lemma tracks_evaluate:
  assumes "tracks n seen done t"
  shows "tracks n seen done (fst (evaluate t)) \<and> snd (evaluate t) = []"
proof -
  have "0 < fail_threshold t" "fail_run t = []"
    using assms by (simp_all add: tracks_def tracker_ok_def)
  from evaluate_keeps_up [OF tracks_keeps_up [OF assms] this(2,1)] show ?thesis
    using assms evaluate_ok [of t] by (auto simp: tracks_def same_view_def)
qed

lemma healthy_silent:
  "tracks n seen done t \<Longrightarrow> healthy n seen done ops \<Longrightarrow> snd (tracker_run ops t) = []"
proof (induction ops arbitrary: seen "done" t)
  case (Cons op ops)
  have "\<exists>seen' done'. tracks n seen' done' (fst (tracker_step op t)) \<and> healthy n seen' done' ops
      \<and> snd (tracker_step op t) = []"
  proof (cases op)
    case (Share r i)
    show ?thesis
    proof (cases "i < n")
      case True
      with Share Cons.prems tracks_share [of n seen "done" t i r] show ?thesis by auto
    next
      case False
      with Share Cons.prems have "observe_share r i t = t" "healthy n seen done ops"
        by (simp_all add: observe_share_def tracks_def)
      with Share Cons.prems(1) show ?thesis by auto
    qed
  next
    case (Output r)
    with Cons.prems tracks_output [of n seen "done" t r] show ?thesis by auto
  next
    case Evaluate
    with Cons.prems tracks_evaluate [of n seen "done" t] show ?thesis by auto
  qed (use Cons.prems in simp)
  with Cons.IH show ?case by (fastforce simp: tracker_run_def split: prod.splits)
qed (simp add: tracker_run_def)

text \<open>Once a run of failures is reported, later failures of the same run stay silent.\<close>

lemma evaluate_rounds_reported:
  assumes "reported t" "\<forall>r \<in> set rs. r |\<notin>| outputs t"
  shows "snd (evaluate_rounds rs t acc) = acc"
  using assms
proof (induction rs arbitrary: t)
  case (Cons r rs)
  show ?case
  proof (cases "evaluate_round r t")
    case (Some x)
    obtain u fs where x: "x = (u, fs)" by (cases x)
    have "fs = [] \<and> reported u"
      using Some Cons.prems unfolding x
      by (auto elim!: evaluate_round_cases)
    moreover have "outputs u = outputs t"
      using evaluate_round_view Some x by (auto simp: same_view_def)
    ultimately show ?thesis using Cons x Some by simp
  qed simp
qed simp

lemma evaluate_rounds_outage:
  assumes "output_frozen t" "\<not> reported t" "\<forall>r \<in> set rs. r |\<notin>| outputs t"
    and "length (fail_run t) < fail_threshold t"
    and "fail_threshold t \<le> length (fail_run t) + length (filter (\<lambda>r. shares_of t r \<noteq> {||}) rs)"
  shows "snd (evaluate_rounds rs t acc) = acc @ [liveness_fault (t\<lparr>fail_run :=
    take (fail_threshold t)
      (fail_run t @ map (\<lambda>r. missing_in t (shares_of t r)) (filter (\<lambda>r. shares_of t r \<noteq> {||}) rs))\<rparr>)]"
  using assms
proof (induction rs arbitrary: t)
  case (Cons r rs)
  note prems = Cons.prems
  let ?m = "missing_in t (shares_of t r)"
  have lf: "liveness_fault (t\<lparr>evaluated_through := e, fail_run := f\<rparr>) = liveness_fault (t\<lparr>fail_run := f\<rparr>)"
    for e f by (simp add: liveness_fault_def Let_def)
  show ?case
  proof (cases "shares_of t r = {||}")
    case True
    let ?u = "t\<lparr>evaluated_through := Some r\<rparr>"
    have "same_view t ?u" by (simp add: same_view_def)
    note v = same_view_derived [OF this]
    have "evaluate_round r t = Some (?u, [])"
      using prems True by (simp add: evaluate_round_def)
    moreover have "snd (evaluate_rounds rs ?u acc) = acc @ [liveness_fault (?u\<lparr>fail_run :=
        take (fail_threshold ?u) (fail_run ?u @ map (\<lambda>r. missing_in ?u (shares_of ?u r))
          (filter (\<lambda>r. shares_of ?u r \<noteq> {||}) rs))\<rparr>)]"
      using prems v True by (intro Cons.IH) simp_all
    ultimately show ?thesis using v True by (simp add: lf missing_in_def)
  next
    case False
    let ?u = "t\<lparr>evaluated_through := Some r, fail_run := fail_run t @ [?m]\<rparr>"
    have "same_view t ?u" by (simp add: same_view_def)
    note v = same_view_derived [OF this]
    show ?thesis
    proof (cases "fail_threshold t \<le> length (fail_run t) + 1")
      case True
      have "evaluate_round r t = Some (?u\<lparr>reported := True\<rparr>, [liveness_fault ?u])"
        using prems True False by (simp add: evaluate_round_def Let_def missing_in_def)
      moreover have "snd (evaluate_rounds rs (?u\<lparr>reported := True\<rparr>) fs) = fs" for fs
        using prems by (intro evaluate_rounds_reported) simp_all
      moreover have "fail_threshold t = Suc (length (fail_run t))" using True prems(4) by simp
      then have "take (fail_threshold t) (fail_run t @ ?m # xs) = fail_run t @ [?m]" for xs
        by simp
      ultimately show ?thesis using False by (simp add: lf)
    next
      case less: False
      have "evaluate_round r t = Some (?u, [])"
        using prems less False by (simp add: evaluate_round_def Let_def missing_in_def)
      moreover have "snd (evaluate_rounds rs ?u acc) = acc @ [liveness_fault (?u\<lparr>fail_run :=
          take (fail_threshold ?u) (fail_run ?u @ map (\<lambda>r. missing_in ?u (shares_of ?u r))
            (filter (\<lambda>r. shares_of ?u r \<noteq> {||}) rs))\<rparr>)]"
        using prems v False less by (intro Cons.IH) simp_all
      ultimately show ?thesis using v False by (simp add: lf missing_in_def)
    qed
  qed
qed simp

text \<open>Where the loop stops: at the end of its range, or at a round it defers.\<close>

lemma evaluate_rounds_stops:
  assumes "(t', fs) = evaluate_rounds [a ..< b] t acc" "a < b"
  shows "(evaluated_through t' = Some (b - 1)) \<or>
    (\<exists>r. a \<le> r \<and> r < b \<and> evaluate_round r t' = None \<and>
       (if r = a then t' = t else evaluated_through t' = Some (r - 1)))"
  using assms
proof (induction "b - a" arbitrary: a t acc)
  case (Suc n)
  have upt: "[a ..< b] = a # [Suc a ..< b]" using Suc.prems(2) by (simp add: upt_conv_Cons)
  show ?case
  proof (cases "evaluate_round a t")
    case None
    with Suc.prems upt show ?thesis by auto
  next
    case (Some x)
    obtain u gs where x: "x = (u, gs)" by (cases x)
    then have u: "evaluated_through u = Some a"
      using Some by (auto elim!: evaluate_round_cases)
    from Suc.prems Some x upt have e: "(t', fs) = evaluate_rounds [Suc a ..< b] u (acc @ gs)" by simp
    show ?thesis
    proof (cases "Suc a < b")
      case True
      from Suc.hyps(1) [OF _ e True] Suc.hyps(2) have
        "(evaluated_through t' = Some (b - 1)) \<or>
         (\<exists>r. Suc a \<le> r \<and> r < b \<and> evaluate_round r t' = None \<and>
           (if r = Suc a then t' = u else evaluated_through t' = Some (r - 1)))" by simp
      then show ?thesis
      proof
        assume "\<exists>r. Suc a \<le> r \<and> r < b \<and> evaluate_round r t' = None \<and>
           (if r = Suc a then t' = u else evaluated_through t' = Some (r - 1))"
        then obtain r where r: "Suc a \<le> r" "r < b" "evaluate_round r t' = None"
          "if r = Suc a then t' = u else evaluated_through t' = Some (r - 1)" by blast
        with u show ?thesis by (intro disjI2 exI [of _ r]) (auto split: if_splits)
      qed simp
    next
      case False
      with Suc.prems(2) have "b = Suc a" by simp
      with e u show ?thesis by simp
    qed
  qed
qed simp

lemma evaluate_view: "same_view t (fst (evaluate t))"
proof -
  have "same_view t (fst (evaluate t)) \<and> (\<forall>f \<in> set (snd (evaluate t)). True)"
    unfolding evaluate_def
    by (rule evaluate_rounds_induct)
       (auto intro: same_view_refl same_view_trans evaluate_round_view)
  then show ?thesis by blast
qed

lemma evaluate_rounds_deferred:
  "evaluate_round r t = None \<Longrightarrow> evaluate_rounds [r ..< b] t acc = (t, acc)"
  by (cases "r < b") (simp_all add: upt_conv_Cons)

text \<open>The walk reaches the share frontier within one call.\<close>

definition span_complete :: "tracker \<Rightarrow> bool" where
  "span_complete t \<longleftrightarrow>
     is_none_or (\<lambda>m. m \<le> saturating_add (evaluate_start t m) MAX_EVALUATE_SPAN) (max_share_round t)"

lemma evaluate_settles:
  assumes "span_complete t"
  shows "evaluate (fst (evaluate t)) = (fst (evaluate t), [])"
proof (cases "max_share_round t")
  case None
  then show ?thesis by (simp add: evaluate_def evaluate_span_def)
next
  case (Some m)
  let ?a = "evaluate_start t m" and ?t' = "fst (evaluate t)"
  have span: "evaluate_span t = [?a ..< m]"
    using assms Some by (simp add: span_complete_def evaluate_span_def Let_def)
  have m': "max_share_round ?t' = Some m" "shares ?t' = shares t"
    using evaluate_view [of t] Some by (simp_all add: same_view_def)
  let ?b = "\<lambda>s. min m (saturating_add s MAX_EVALUATE_SPAN)"
  have again: "evaluate ?t' = evaluate_rounds [s ..< ?b s] ?t' []" if "evaluate_start ?t' m = s" for s
    using that by (simp add: evaluate_def [of ?t'] evaluate_span_def m' Let_def)
  show ?thesis
  proof (cases "?a < m")
    case False
    then have "?t' = t" by (simp add: evaluate_def span)
    with False show ?thesis using again [of ?a] by simp
  next
    case True
    have "(?t', snd (evaluate t)) = evaluate_rounds [?a ..< m] t []"
      by (simp add: evaluate_def span)
    from evaluate_rounds_stops [OF this True] show ?thesis
    proof
      assume "evaluated_through ?t' = Some (m - 1)"
      then have "evaluate_start ?t' m = m" using True by (simp add: evaluate_start_def)
      from again [OF this] show ?thesis by simp
    next
      assume "\<exists>r. ?a \<le> r \<and> r < m \<and> evaluate_round r ?t' = None \<and>
        (if r = ?a then ?t' = t else evaluated_through ?t' = Some (r - 1))"
      then obtain r where r: "?a \<le> r" "evaluate_round r ?t' = None"
        "if r = ?a then ?t' = t else evaluated_through ?t' = Some (r - 1)" by blast
      then have "evaluate_start ?t' m = r"
        by (cases "r = ?a") (auto simp: evaluate_start_def)
      from again [OF this] show ?thesis using evaluate_rounds_deferred [OF r(2)] by simp
    qed
  qed
qed

section \<open>Main results\<close>

definition demo_peers :: "peer_id list" where
  "demo_peers = [Pubkey [1], Pubkey [2], Pubkey [3]]"

text \<open>Relays 0 and 1 share rounds 0 to 7, relay 2 never does, and no output appears.\<close>

definition demo_outage :: "tracker_op list" where
  "demo_outage = concat (map (\<lambda>r. [Share r 0, Share r 1]) [0 ..< 8])"

lemma tracker_run_ok: "distinct peers \<Longrightarrow> tracker_ok (fst (tracker_run ops (new_tracker peers th)))"
  using tracker.run_inv [of "new_tracker peers th" peers ops] tracker_ok_new
  by (simp add: tracker_run_def new_tracker_def)

lemma tracker_ok_share:
  assumes "tracker_ok t" "shares_of t r \<noteq> {||}"
  shows "\<exists>i < length (roster t). i |\<in>| shares_of t r"
proof -
  from assms(2) obtain i where i: "i |\<in>| shares_of t r" by blast
  then obtain s where s: "fmlookup (shares t) r = Some s" "shares_of t r = s"
    by (auto simp: shares_of_def split: option.splits)
  then have "fset s \<subseteq> {..<length (roster t)}" using assms(1) unfolding tracker_ok_def by blast
  with i s show ?thesis by blast
qed

text \<open>
  Every fault the tracker ever emits, on any sequence of observations and evaluations,
  is a liveness fault that blames nobody or a non-empty sorted list of distinct relays that
  is not the whole roster.
\<close>

theorem tracker_blames_proper_subset:
  assumes "distinct peers"
  shows "\<forall>f \<in> set (snd (tracker_run ops (new_tracker peers th))). fault_wf peers f"
proof
  fix f
  assume "f \<in> set (snd (tracker_run ops (new_tracker peers th)))"
  moreover have "tracker_ok (new_tracker peers th) \<and> roster (new_tracker peers th) = peers \<and> distinct peers"
    using assms tracker_ok_new by (simp add: new_tracker_def)
  ultimately show "fault_wf peers f"
    unfolding tracker_run_def by (intro tracker.run_good) auto
qed

theorem tracker_blames_proper_subset_witness:
  "fault_wf demo_peers \<lparr>kind = Liveness, fault_attribution = Peers [Pubkey [3]], evidence = []\<rparr>"
proof -
  have "distinct demo_peers" by code_simp
  moreover have "snd (tracker_run (demo_outage @ [Evaluate]) (new_tracker demo_peers 3)) =
      [\<lparr>kind = Liveness, fault_attribution = Peers [Pubkey [3]], evidence = []\<rparr>]" by code_simp
  ultimately show ?thesis
    using tracker_blames_proper_subset [of demo_peers "demo_outage @ [Evaluate]" 3] by simp
qed

text \<open>
  A relay is never blamed for rounds it served: if at every evaluation it has shared
  each round below the frontier that anybody shared, no fault of the whole run names it,
  whatever the other relays, the outputs and the clock jumps do.
\<close>

theorem prompt_relay_never_blamed:
  assumes "distinct peers" "i < length peers"
    and "run_allowed tracker_step (prompt i) ops (new_tracker peers th)"
  shows "\<forall>f \<in> set (snd (tracker_run ops (new_tracker peers th))). spares (peers ! i) f"
proof
  fix f
  assume "f \<in> set (snd (tracker_run ops (new_tracker peers th)))"
  moreover have "never_missed i (new_tracker peers th) \<and> roster (new_tracker peers th) = peers"
    using assms(1,2) tracker_ok_new by (simp add: never_missed_def new_tracker_def)
  ultimately show "spares (peers ! i) f"
    unfolding tracker_run_def by (intro prompt_tracker.run_good [OF _ assms(3)]) auto
qed

theorem prompt_relay_never_blamed_witness:
  "list_all (spares (Pubkey [2]))
     (snd (tracker_run (demo_outage @ [Evaluate]) (new_tracker demo_peers 3)))"
proof -
  have "run_allowed tracker_step (prompt 1) (demo_outage @ [Evaluate]) (new_tracker demo_peers 3)"
    by code_simp
  moreover have "distinct demo_peers" "1 < length demo_peers" "demo_peers ! 1 = Pubkey [2]"
    by code_simp+
  ultimately show ?thesis
    using prompt_relay_never_blamed [of demo_peers 1 "demo_outage @ [Evaluate]" 3]
    by (simp add: list_all_iff)
qed

text \<open>
  C24. A healthy subnet is never reported. The run is described by its events alone: rounds
  are output after they were shared and in the order of the rounds, shares come at most four
  rounds after the last output (or, before any output, after the first share), no share comes
  for a round that output has passed over, and the clock does not jump. Then no evaluation of
  the run, wherever it falls, emits a fault, whatever the threshold and however many relays
  stay silent.
\<close>

theorem healthy_run_has_no_faults:
  assumes "healthy (length peers) [] [] ops"
  shows "snd (tracker_run ops (new_tracker peers th)) = []"
proof (rule healthy_silent [OF _ assms])
  show "tracks (length peers) [] [] (new_tracker peers th)"
    using tracker_ok_new [of peers th]
    by (simp add: tracks_def new_tracker_def DEFAULT_STALL_MARGIN_def fmdom'_alt_def)
qed

theorem healthy_run_has_no_faults_witness:
  "snd (tracker_run [Share 0 0, Evaluate, Share 4 0, Evaluate, Output 0, Share 3 1, Share 4 1,
      Evaluate, Output 3, Share 7 2, Evaluate, Output 4, Share 8 0, Evaluate]
     (new_tracker demo_peers 1)) = []"
  by (rule healthy_run_has_no_faults) code_simp

text \<open>
  An outage is detected, once, with the right culprits: when output is frozen, no round
  of the span has output and at least as many rounds as the threshold had shares, an
  evaluation from a clean state emits exactly one fault; it names the relays missing from
  each of the first rounds up to the threshold, or nobody when no relay missed them all.
\<close>

theorem outage_reported_once:
  assumes "tracker_ok t" "output_frozen t" "fail_run t = []" "\<not> reported t"
    and "\<forall>r \<in> set (evaluate_span t). r |\<notin>| outputs t"
    and "rs = filter (\<lambda>r. shares_of t r \<noteq> {||}) (evaluate_span t)" "fail_threshold t \<le> length rs"
    and "culprits = {i. i < length (roster t) \<and>
      (\<forall>r \<in> set (take (fail_threshold t) rs). i |\<notin>| shares_of t r)}"
  shows "snd (evaluate t) =
    [\<lparr>kind = Liveness,
      fault_attribution =
        (if culprits = {} then Unattributed
         else Peers (sort (map ((!) (roster t)) (sorted_list_of_set culprits)))),
      evidence = []\<rparr>]"
proof -
  let ?u = "t\<lparr>fail_run := take (fail_threshold t) (map (\<lambda>r. missing_in t (shares_of t r)) rs)\<rparr>"
  let ?run = "map (\<lambda>r. missing_in t (shares_of t r)) (take (fail_threshold t) rs)"
  have one: "snd (evaluate t) = [liveness_fault ?u]"
    unfolding evaluate_def
    using evaluate_rounds_outage [of t "evaluate_span t" "[]"] assms by (simp add: tracker_ok_def)
  have ne: "take (fail_threshold t) rs \<noteq> []"
    using assms(1,7) by (cases rs) (auto simp: tracker_ok_def)
  have "fset (culprits_of ?run) = (\<Inter>s \<in> set ?run. fset s)"
    by (rule fset_culprits_of) (use ne in simp)
  also have "\<dots> = culprits" unfolding assms(8) using ne by (cases "take (fail_threshold t) rs") auto
  finally have c: "fset (culprits_of ?run) = culprits" .
  obtain r where r: "r \<in> set (take (fail_threshold t) rs)" using ne by (meson last_in_set)
  then have "shares_of t r \<noteq> {||}" using assms(6) by (auto dest: in_set_takeD)
  from tracker_ok_share [OF assms(1) this] r have "\<exists>i < length (roster t). i \<notin> culprits"
    using assms(8) by blast
  then have "culprits \<subset> {..<length (roster t)}" using assms(8) by auto
  then have "fcard (culprits_of ?run) < length (roster t)"
    by (metis c card_lessThan fcard.rep_eq finite_lessThan psubset_card_mono)
  moreover have "culprits_of ?run = {||} \<longleftrightarrow> culprits = {}"
    by (metis c bot_fset.rep_eq fset_inject)
  moreover have "sorted_list_of_fset (culprits_of ?run) = sorted_list_of_set culprits"
    by (simp add: c sorted_list_of_fset.rep_eq)
  ultimately show ?thesis
    unfolding one by (simp add: liveness_fault_def Let_def take_map)
qed

theorem outage_reported_once_witness:
  "snd (evaluate (fst (tracker_run demo_outage (new_tracker demo_peers 3)))) =
     [\<lparr>kind = Liveness, fault_attribution = Peers [Pubkey [3]], evidence = []\<rparr>]"
proof -
  let ?t = "fst (tracker_run demo_outage (new_tracker demo_peers 3))"
  let ?rs = "[0 ..< 7]"
  have ros: "roster ?t = demo_peers" by code_simp
  have 1: "tracker_ok ?t" by (rule tracker_run_ok) code_simp
  have 2: "output_frozen ?t" by code_simp
  have 3: "fail_run ?t = []" by code_simp
  have 4: "\<not> reported ?t" by code_simp
  have 5: "\<forall>r \<in> set (evaluate_span ?t). r |\<notin>| outputs ?t" by code_simp
  have 6: "?rs = filter (\<lambda>r. shares_of ?t r \<noteq> {||}) (evaluate_span ?t)" by code_simp
  have 7: "fail_threshold ?t \<le> length ?rs" by code_simp
  have "{i \<in> set [0 ..< length (roster ?t)].
      \<forall>r \<in> set (take (fail_threshold ?t) ?rs). i |\<notin>| shares_of ?t r} = {2}" by code_simp
  then have 8: "{2} = {i. i < length (roster ?t) \<and>
      (\<forall>r \<in> set (take (fail_threshold ?t) ?rs). i |\<notin>| shares_of ?t r)}"
    by (simp only: set_upt atLeastLessThan_iff le0 simp_thms)
  from outage_reported_once [OF 1 2 3 4 5 6 7 8] show ?thesis
    unfolding ros by (simp add: demo_peers_def)
qed

text \<open>
  Evaluation settles: when the rounds up to the share frontier fit in one walk,
  evaluating again without new observations changes nothing and reports nothing.
\<close>

theorem evaluate_idempotent:
  assumes "span_complete t"
  shows "evaluate (fst (evaluate t)) = (fst (evaluate t), [])"
  using assms by (rule evaluate_settles)

theorem evaluate_idempotent_witness:
  "evaluate (fst (evaluate (fst (tracker_run demo_outage (new_tracker demo_peers 3))))) =
     (fst (evaluate (fst (tracker_run demo_outage (new_tracker demo_peers 3)))), [])"
  by (rule evaluate_idempotent) code_simp

end
