(* ===== verification/Session.thy ===== *)
theory Session
  imports Config Faults
begin

text \<open>
  The session interface of a subnet protocol and its simplest implementation
  (\<open>anymone-core/src/session.rs\<close>, \<open>noop.rs\<close>). A session is driven by events: a round
  begins or ends, a message arrives, a payload is staged. It answers with messages to
  send, messages decoded and faults.
\<close>

section \<open>The interface\<close>

record round_outcome =
  outbound :: "bytes list"
  decoded :: "bytes list"
  faults :: "fault list"

definition default_outcome :: round_outcome where
  "default_outcome = \<lparr>outbound = [], decoded = [], faults = []\<rparr>"

datatype misbehavior = Withhold | CorruptShare

text \<open>The leader's view of its aggregators: which key may sign each group's aggregate.\<close>

definition leader_aggregation :: "aggregation \<Rightarrow> (u32, pubkey) fmap" where
  "leader_aggregation a =
     fm_collect (map (\<lambda>(i, g). (as_u32 i, aggregator g)) (enumerate 0 (groups a)))"

datatype session_event =
    BeginRound round
  | Arrive peer_id bytes
  | EndRound round
  | Stage bytes

datatype session_output = Send bytes | Deliver bytes | Report fault

definition outcome_outputs :: "round_outcome \<Rightarrow> session_output list" where
  "outcome_outputs r = map Send (outbound r) @ map Deliver (decoded r) @ map Report (faults r)"

section \<open>Noop sessions\<close>

definition max_wire_estimate :: "usize \<Rightarrow> u32 \<Rightarrow> u32 \<Rightarrow> usize \<Rightarrow> usize" where
  "max_wire_estimate msg_size estimated_messages clients n_relays =
     wrapping_add (wrapping_mul clients msg_size) 64"

record noop_client =
  client_cfg :: noop_config
  pending :: "bytes option"

definition new_noop_client :: "noop_config \<Rightarrow> noop_client" where
  "new_noop_client c = \<lparr>client_cfg = c, pending = None\<rparr>"

definition noop_client_stage :: "bytes \<Rightarrow> noop_client \<Rightarrow> noop_client" where
  "noop_client_stage p s = s\<lparr>pending := Some p\<rparr>"

definition noop_client_begin :: "noop_client \<Rightarrow> noop_client \<times> bytes list" where
  "noop_client_begin s =
     (s\<lparr>pending := None\<rparr>,
      case pending s of
        Some p \<Rightarrow> if length p \<le> nc_message_size (client_cfg s) then [p] else []
      | None \<Rightarrow> [])"

record noop_server =
  server_cfg :: noop_config
  inbox :: "bytes list"

definition new_noop_server :: "noop_config \<Rightarrow> noop_server" where
  "new_noop_server c = \<lparr>server_cfg = c, inbox = []\<rparr>"

definition noop_server_inbound :: "bytes \<Rightarrow> noop_server \<Rightarrow> noop_server" where
  "noop_server_inbound p s =
     (if length p \<le> nc_message_size (server_cfg s) then s\<lparr>inbox := inbox s @ [p]\<rparr> else s)"

definition noop_server_end :: "noop_server \<Rightarrow> noop_server \<times> round_outcome" where
  "noop_server_end s =
     (s\<lparr>inbox := []\<rparr>,
      \<lparr>outbound = [], decoded = inbox s,
       faults =
         (if as_u32 (length (inbox s)) < nc_client_set_min (server_cfg s)
          then [\<lparr>kind = Liveness, fault_attribution = Unattributed, evidence = []\<rparr>] else [])\<rparr>)"

text \<open>The two sessions as event handlers; what a session ignores leaves it as it is.\<close>

fun noop_client_step :: "session_event \<Rightarrow> noop_client \<Rightarrow> noop_client \<times> session_output list" where
  "noop_client_step (BeginRound _) s = (fst (noop_client_begin s), map Send (snd (noop_client_begin s)))"
| "noop_client_step (Arrive _ _) s = (s, [])"
| "noop_client_step (EndRound _) s = (s, outcome_outputs default_outcome)"
| "noop_client_step (Stage p) s = (noop_client_stage p s, [])"

fun noop_server_step :: "session_event \<Rightarrow> noop_server \<Rightarrow> noop_server \<times> session_output list" where
  "noop_server_step (BeginRound _) s = (s, [])"
| "noop_server_step (Arrive _ p) s = (noop_server_inbound p s, [])"
| "noop_server_step (EndRound _) s =
     (fst (noop_server_end s), outcome_outputs (snd (noop_server_end s)))"
| "noop_server_step (Stage _) s = (s, [])"

section \<open>Contract\<close>

text \<open>
  What the runtime relies on of every session: nothing it sends or delivers is larger than
  the message size the subnet is configured with, whatever arrives.
\<close>

fun fits :: "usize \<Rightarrow> session_output \<Rightarrow> bool" where
  "fits n (Send p) \<longleftrightarrow> length p \<le> n"
| "fits n (Deliver p) \<longleftrightarrow> length p \<le> n"
| "fits n (Report _) \<longleftrightarrow> True"

locale bounded_session = component step "\<lambda>_ _. True" inv "fits n"
  for step :: "session_event \<Rightarrow> 's \<Rightarrow> 's \<times> session_output list" and inv and n
begin

lemma run_fits: "inv s \<Longrightarrow> list_all (fits n) (snd (run_ops step es s))"
  using run_good by (auto simp: list_all_iff)

end

interpretation noop_client: bounded_session noop_client_step "\<lambda>s. client_cfg s = c" "nc_message_size c"
  for c
proof
  fix s :: noop_client and op x
  assume "client_cfg s = c"
  then show "client_cfg (fst (noop_client_step op s)) = c"
    by (cases op) (auto simp: noop_client_begin_def noop_client_stage_def)
  show "x \<in> set (snd (noop_client_step op s)) \<Longrightarrow> fits (nc_message_size c) x"
    using \<open>client_cfg s = c\<close>
    by (cases op) (auto simp: noop_client_begin_def outcome_outputs_def default_outcome_def
        split: option.splits if_splits)
qed

interpretation noop_server: bounded_session noop_server_step
  "\<lambda>s. server_cfg s = c \<and> (\<forall>p \<in> set (inbox s). length p \<le> nc_message_size c)" "nc_message_size c"
  for c
proof
  fix s :: noop_server and op x
  assume inv: "server_cfg s = c \<and> (\<forall>p \<in> set (inbox s). length p \<le> nc_message_size c)"
  then show "server_cfg (fst (noop_server_step op s)) = c \<and>
      (\<forall>p \<in> set (inbox (fst (noop_server_step op s))). length p \<le> nc_message_size c)"
    by (cases op) (auto simp: noop_server_inbound_def noop_server_end_def)
  show "x \<in> set (snd (noop_server_step op s)) \<Longrightarrow> fits (nc_message_size c) x"
    using inv by (cases op) (auto simp: noop_server_end_def outcome_outputs_def)
qed

section \<open>Main results\<close>

text \<open>One round: every client begins with what it staged, the server receives it all and closes.\<close>

definition client_sends :: "noop_config \<Rightarrow> bytes option \<Rightarrow> bytes list" where
  "client_sends c p = snd (noop_client_begin \<lparr>client_cfg = c, pending = p\<rparr>)"

definition noop_round :: "noop_server \<Rightarrow> bytes option list \<Rightarrow> noop_server \<times> round_outcome" where
  "noop_round s staged =
     noop_server_end (fold noop_server_inbound (concat (map (client_sends (server_cfg s)) staged)) s)"

lemma fold_noop_inbound:
  "fold noop_server_inbound ps s =
     s\<lparr>inbox := inbox s @ filter (\<lambda>p. length p \<le> nc_message_size (server_cfg s)) ps\<rparr>"
  by (induction ps arbitrary: s) (auto simp: noop_server_inbound_def)

lemma client_sends_eq:
  "concat (map (client_sends c) staged) =
     filter (\<lambda>p. length p \<le> nc_message_size c) (List.map_filter id staged)"
  by (induction staged)
     (auto simp: client_sends_def noop_client_begin_def List.map_filter_def split: option.splits)

text \<open>
  A Noop round delivers exactly the staged payloads that fit, each once and in order;
  the server starts the next round empty, and it reports a liveness fault exactly when
  fewer messages arrived than the configured minimum.
\<close>

theorem noop_round_delivers:
  assumes "inbox s = []" "length staged \<le> U32_MAX"
    and "ps = filter (\<lambda>p. length p \<le> nc_message_size (server_cfg s)) (List.map_filter id staged)"
  shows "noop_round s staged =
    (s, \<lparr>outbound = [], decoded = ps,
         faults = (if length ps < nc_client_set_min (server_cfg s)
           then [\<lparr>kind = Liveness, fault_attribution = Unattributed, evidence = []\<rparr>] else [])\<rparr>)"
proof -
  have "length (List.map_filter id staged) \<le> length staged"
    by (simp add: List.map_filter_def)
  then have "length ps \<le> U32_MAX"
    using assms(2,3) by (metis length_filter_le le_trans)
  moreover have "filter (\<lambda>p. length p \<le> nc_message_size (server_cfg s)) ps = ps"
    by (simp add: assms(3))
  ultimately show ?thesis
    using assms(1)
    by (simp add: noop_round_def client_sends_eq fold_noop_inbound noop_server_end_def
        assms(3) [symmetric])
qed

theorem noop_round_delivers_witness:
  "noop_round (new_noop_server (default_noop_config\<lparr>nc_message_size := 2\<rparr>))
     [Some [1, 2], None, Some [1, 2, 3], Some [4]] =
   (new_noop_server (default_noop_config\<lparr>nc_message_size := 2\<rparr>),
    \<lparr>outbound = [], decoded = [[1, 2], [4]], faults = []\<rparr>)"
proof -
  let ?s = "new_noop_server (default_noop_config\<lparr>nc_message_size := 2\<rparr>)"
  let ?staged = "[Some [1, 2], None, Some [1, 2, 3], Some [4]] :: bytes option list"
  have "inbox ?s = []" by code_simp
  moreover have "length ?staged \<le> U32_MAX" by code_simp
  moreover have "[[1, 2], [4]] = filter (\<lambda>p. length p \<le> nc_message_size (server_cfg ?s))
      (List.map_filter id ?staged)" by code_simp
  ultimately show ?thesis
    using noop_round_delivers [of ?s ?staged "[[1, 2], [4]]"]
    by (simp add: new_noop_server_def default_noop_config_def)
qed

end
