(* ===== verification/Observers.thy ===== *)
theory Observers
  imports Governance Session
begin

text \<open>
  The observers the committee and the relays run on a subnet without taking part in it
  (\<open>anymone-core/src/panetiere.rs\<close>, \<open>adcnet.rs\<close>): what they accept from the wire, whom they
  credit with a share, and the faults they raise. The wire formats are serialised by
  \<open>bincode\<close>, and signed ADCNet messages and packed openings belong to the protocol crates:
  their decoders are fields of the record \<open>wire_codecs\<close>.
\<close>

section \<open>Panetiere messages\<close>

datatype panetiere_wire =
    ClientPublic u64 u32 bytes pubkey bytes
  | ClientSlice u64 u32 u32 bytes bytes pubkey bytes
  | Opening u64 u32 u32 bytes pubkey bytes
  | ServerPublic u64 u32 "u32 list" bytes bytes bytes bytes bytes
  | Decoded u64 "bytes list"
  | ClientSet u64 "u32 list" u32
  | Reservations u64 "(u16 \<times> u16) list" bytes
  | Bundle u64 u32 u32 bytes pubkey bytes
  | SetBatch u64 bytes
  | SetFragment u64 u32 u32 bytes pubkey bytes
  | SetRelay u64 bytes

fun wire_round :: "panetiere_wire \<Rightarrow> u64" where
  "wire_round (ClientPublic r _ _ _ _) = r"
| "wire_round (ClientSlice r _ _ _ _ _ _) = r"
| "wire_round (Opening r _ _ _ _ _) = r"
| "wire_round (ServerPublic r _ _ _ _ _ _ _) = r"
| "wire_round (Decoded r _) = r"
| "wire_round (ClientSet r _ _) = r"
| "wire_round (Reservations r _ _) = r"
| "wire_round (Bundle r _ _ _ _ _) = r"
| "wire_round (SetBatch r _) = r"
| "wire_round (SetFragment r _ _ _ _ _) = r"
| "wire_round (SetRelay r _) = r"

section \<open>ADCNet messages\<close>

text \<open>Signed parts are kept as bytes; \<open>recover\<close> of the protocol crate checks and opens them.\<close>

datatype adcnet_wire =
    AdcClient bytes bytes
  | AdcServer bytes
  | AdcClientSet u32 "bytes list"
  | AdcDecoded u32 "bytes list"
  | AdcGroupAggregate u32 u32 "u64 list" "bytes list" pubkey bytes

datatype sched_adcnet_wire =
    SchedClient bytes
  | SchedClientSet bytes
  | SchedPartial bytes
  | SchedBroadcast bytes

record wire_codecs = reg_codecs +
  pan_wire_of_bytes :: "bytes \<Rightarrow> panetiere_wire option"
  server_public_tuple ::
    "u64 \<Rightarrow> u32 \<Rightarrow> u32 list \<Rightarrow> bytes \<Rightarrow> bytes \<Rightarrow> bytes \<Rightarrow> bytes \<Rightarrow> bytes"
  packed_mu_cs :: "bytes \<Rightarrow> nat option"
  opening_shares :: "bytes \<Rightarrow> bytes list option"
  unpack_cs_shares :: "bytes \<Rightarrow> nat \<Rightarrow> bytes list option"
  adcnet_wire_of_bytes :: "bytes \<Rightarrow> adcnet_wire option"
  recover_share :: "bytes \<Rightarrow> (u32 \<times> bytes) option"
  sched_wire_of_bytes :: "bytes \<Rightarrow> sched_adcnet_wire option"
  recover_partial :: "bytes \<Rightarrow> (int \<times> bytes) option"
  recover_set :: "bytes \<Rightarrow> (int \<times> nat \<times> bytes) option"
  recover_result :: "bytes \<Rightarrow> (bool \<times> int \<times> bytes) option"

section \<open>Rounds, signatures and destinations\<close>

definition PANETIERE_ROUND_WINDOW :: u64 where
  "PANETIERE_ROUND_WINDOW = 4"

definition round_in_window :: "u64 \<Rightarrow> u64 option \<Rightarrow> bool" where
  "round_in_window r cur =
     (case cur of
        Some c \<Rightarrow> r \<le> saturating_add c PANETIERE_ROUND_WINDOW \<and>
                  c \<le> saturating_add r PANETIERE_ROUND_WINDOW
      | None \<Rightarrow> True)"

definition wire_round_past :: "'z wire_codecs_scheme \<Rightarrow> bytes \<Rightarrow> round \<Rightarrow> bool" where
  "wire_round_past C payload cap = is_some_and (\<lambda>m. cap < wire_round m) (pan_wire_of_bytes C payload)"

definition server_public_signing_bytes ::
    "'z wire_codecs_scheme \<Rightarrow> u64 \<Rightarrow> u32 \<Rightarrow> u32 list \<Rightarrow> bytes \<Rightarrow> bytes \<Rightarrow> bytes \<Rightarrow> bytes \<Rightarrow> bytes" where
  "server_public_signing_bytes C r server_id clients agg_open agg_share share_sum lane_open =
     ascii ''anymone/panetiere/server-public'' @
     server_public_tuple C r server_id clients agg_open agg_share share_sum lane_open"

definition to_lane :: "subnet_id \<Rightarrow> pubkey list \<Rightarrow> u32 \<Rightarrow> dest" where
  "to_lane sn sorted_roster lane =
     (case slice_get sorted_roster lane of Some pk \<Rightarrow> ToPeer sn pk | None \<Rightarrow> ToEach sn [])"

definition egress :: "'z wire_codecs_scheme \<Rightarrow> subnet_id \<Rightarrow> pubkey list \<Rightarrow> bytes \<Rightarrow> dest" where
  "egress C sn sorted_roster bs =
     (case pan_wire_of_bytes C bs of
        Some (ServerPublic _ _ _ _ _ _ _ _) \<Rightarrow> ToTopic (Shares sn)
      | Some (ClientSet _ _ _) \<Rightarrow> ToTopic (Shares sn)
      | Some (SetRelay _ _) \<Rightarrow> ToTopic (Shares sn)
      | Some (ClientPublic _ _ _ _ _) \<Rightarrow> ToEach sn sorted_roster
      | Some (ClientSlice _ _ lane _ _ _ _) \<Rightarrow> to_lane sn sorted_roster lane
      | Some (Bundle _ _ lane _ _ _) \<Rightarrow> to_lane sn sorted_roster lane
      | Some (Opening _ _ target _ _ _) \<Rightarrow> to_lane sn sorted_roster target
      | Some (SetFragment _ _ target _ _ _) \<Rightarrow> to_lane sn sorted_roster target
      | _ \<Rightarrow> ToTopic (Broadcast sn))"

section \<open>Integrity evidence\<close>

definition server_public_consistent :: "'z wire_codecs_scheme \<Rightarrow> bytes \<Rightarrow> bytes \<Rightarrow> bool" where
  "server_public_consistent C agg_open agg_share =
     (case packed_mu_cs C agg_open of
        None \<Rightarrow> True
      | Some n_shares \<Rightarrow>
          (case opening_shares C agg_open of
             None \<Rightarrow> True
           | Some s \<Rightarrow>
               (case unpack_cs_shares C agg_share n_shares of
                  Some share \<Rightarrow> share = s
                | None \<Rightarrow> True)))"

definition evidence_round :: "'z wire_codecs_scheme \<Rightarrow> bytes \<Rightarrow> round option" where
  "evidence_round C ev = map_option wire_round (pan_wire_of_bytes C ev)"

definition integrity_culprit_from_evidence ::
    "'z wire_codecs_scheme \<Rightarrow> bytes \<Rightarrow> pubkey list \<Rightarrow> pubkey option" where
  "integrity_culprit_from_evidence C ev peers =
     (case pan_wire_of_bytes C ev of
        Some (ServerPublic r server_id clients agg_open agg_share share_sum lane_open sig) \<Rightarrow>
          (case slice_get peers server_id of
             None \<Rightarrow> None
           | Some culprit \<Rightarrow>
               if \<not> verify C culprit
                    (server_public_signing_bytes C r server_id clients agg_open agg_share share_sum lane_open) sig
               then None
               else if \<not> server_public_consistent C agg_open agg_share then Some culprit else None)
      | _ \<Rightarrow> None)"

section \<open>The Panetiere observer\<close>

definition ANON_SET_HISTORY :: nat where
  "ANON_SET_HISTORY = 16"

record pan_observer =
  po_tracker :: tracker
  po_roster :: "peer_id list"
  po_leader :: "peer_id option"
  max_round :: "u64 option"
  cur_round :: "u64 option"
  anon_set_by_round :: "(u64, usize) fmap"
  demand_by_round :: "(u64, u32) fmap"
  clients_by_round :: "(u64, u32 list) fmap"
  decoded_bytes_by_round :: "(u64, usize) fmap"
  integrity_pending :: "fault list"
  integrity_seen :: "(u64 \<times> u32) fset"

definition new_pan_observer :: "peer_id list \<Rightarrow> peer_id option \<Rightarrow> u64 \<Rightarrow> pan_observer" where
  "new_pan_observer peers leader fault_threshold =
     \<lparr>po_tracker = new_tracker peers fault_threshold, po_roster = peers, po_leader = leader,
      max_round = None, cur_round = None, anon_set_by_round = fmempty, demand_by_round = fmempty,
      clients_by_round = fmempty, decoded_bytes_by_round = fmempty, integrity_pending = [],
      integrity_seen = {||}\<rparr>"

text \<open>First announcement per round wins; the oldest rounds beyond the history are dropped.\<close>

definition record_first :: "u64 \<Rightarrow> 'v \<Rightarrow> (u64, 'v) fmap \<Rightarrow> (u64, 'v) fmap" where
  "record_first r v m =
     fm_trim ANON_SET_HISTORY (case fmlookup m r of None \<Rightarrow> fmupd r v m | Some _ \<Rightarrow> m)"

definition record_anon :: "u64 \<Rightarrow> usize \<Rightarrow> pan_observer \<Rightarrow> pan_observer" where
  "record_anon r n ob = ob\<lparr>anon_set_by_round := record_first r n (anon_set_by_round ob)\<rparr>"

definition record_clients :: "u64 \<Rightarrow> u32 list \<Rightarrow> pan_observer \<Rightarrow> pan_observer" where
  "record_clients r clients ob = ob\<lparr>clients_by_round := record_first r clients (clients_by_round ob)\<rparr>"

definition record_demand :: "u64 \<Rightarrow> u32 \<Rightarrow> pan_observer \<Rightarrow> pan_observer" where
  "record_demand r demand ob = ob\<lparr>demand_by_round := record_first r demand (demand_by_round ob)\<rparr>"

definition record_decoded_bytes :: "u64 \<Rightarrow> usize \<Rightarrow> pan_observer \<Rightarrow> pan_observer" where
  "record_decoded_bytes r n ob =
     ob\<lparr>decoded_bytes_by_round := fm_trim ANON_SET_HISTORY (fmupd r n (decoded_bytes_by_round ob))\<rparr>"

definition pan_anonymity_set :: "pan_observer \<Rightarrow> usize option" where
  "pan_anonymity_set ob = last_value (anon_set_by_round ob)"

definition pan_anon_set_round :: "pan_observer \<Rightarrow> u64 option" where
  "pan_anon_set_round ob = last_key (anon_set_by_round ob)"

definition pan_demand :: "pan_observer \<Rightarrow> u32 option" where
  "pan_demand ob = last_value (demand_by_round ob)"

definition latest_clients :: "pan_observer \<Rightarrow> (u64 \<times> u32 list) option" where
  "latest_clients ob =
     (case last_key (clients_by_round ob) of
        None \<Rightarrow> None
      | Some r \<Rightarrow> map_option (Pair r) (fmlookup (clients_by_round ob) r))"

definition RESERVATION_TO_MSG_GAP :: u64 where
  "RESERVATION_TO_MSG_GAP = 2"

text \<open>Clients in at least two of the last sets; a client listed twice in one set counts twice.\<close>

definition returning_set :: "pan_observer \<Rightarrow> usize option" where
  "returning_set ob =
     (let recent = take (RESERVATION_TO_MSG_GAP + 1) (rev (fm_values (clients_by_round ob))) in
      if length recent < 2 then None
      else Some (length (filter (\<lambda>c. 2 \<le> count_list (concat recent) c) (remdups (concat recent)))))"

definition pan_anonymity_set_for :: "u64 \<Rightarrow> pan_observer \<Rightarrow> usize option" where
  "pan_anonymity_set_for r ob = last_value (fmfilter (\<lambda>k. k \<le> r) (anon_set_by_round ob))"

definition pan_share_frontier :: "pan_observer \<Rightarrow> u64 option" where
  "pan_share_frontier ob = share_frontier (po_tracker ob)"

definition option_max :: "nat option \<Rightarrow> nat option \<Rightarrow> nat option" where
  "option_max a b = (case a of None \<Rightarrow> b | Some x \<Rightarrow> (case b of None \<Rightarrow> a | Some y \<Rightarrow> Some (max x y)))"

definition decoded_bytes_recent :: "u64 \<Rightarrow> pan_observer \<Rightarrow> usize" where
  "decoded_bytes_recent window ob =
     (case option_max (share_frontier (po_tracker ob)) (last_key (decoded_bytes_by_round ob)) of
        None \<Rightarrow> 0
      | Some frontier \<Rightarrow>
          (let cutoff = frontier - (window - 1);
               total = sum_list (fm_values
                 (fmfilter (\<lambda>k. cutoff \<le> k \<and> k \<le> frontier) (decoded_bytes_by_round ob)))
           in total div max (frontier - cutoff + 1) 1))"

definition pan_begin_round :: "round \<Rightarrow> pan_observer \<Rightarrow> pan_observer" where
  "pan_begin_round r ob =
     (let ob1 = (if is_some_and (\<lambda>c. saturating_add c PANETIERE_ROUND_WINDOW < r) (cur_round ob)
                 then ob\<lparr>po_tracker := fast_forward r (po_tracker ob)\<rparr> else ob)
      in ob1\<lparr>cur_round := Some r\<rparr>)"

text \<open>The arm for a relay's share, once the slot owner is known.\<close>

definition on_server_public ::
    "'z wire_codecs_scheme \<Rightarrow> peer_id \<Rightarrow> bytes \<Rightarrow> u64 \<Rightarrow> u32 \<Rightarrow> u32 list \<Rightarrow> bytes \<Rightarrow> bytes \<Rightarrow>
     pan_observer \<Rightarrow> pan_observer" where
  "on_server_public C expected payload r server_id clients agg_open agg_share ob =
     (let ob1 = ob\<lparr>po_tracker := observe_share r server_id (po_tracker ob)\<rparr>;
          ob2 = (if po_leader ob1 = None
                 then record_demand r (as_u32 (length clients))
                        (record_clients r clients (record_anon r (length clients) ob1))
                 else ob1);
          ob3 = ob2\<lparr>integrity_seen :=
                  ffilter (\<lambda>(r', _). r \<le> wrapping_add r' ANON_SET_HISTORY) (integrity_seen ob2)\<rparr>
      in if \<not> server_public_consistent C agg_open agg_share \<and> (r, server_id) |\<notin>| integrity_seen ob3
         then ob3\<lparr>integrity_seen := finsert (r, server_id) (integrity_seen ob3),
                  integrity_pending := integrity_pending ob3 @
                    [\<lparr>kind = Integrity, fault_attribution = Peers [expected], evidence = payload\<rparr>]\<rparr>
         else ob3)"

definition pan_on_inbound ::
    "'z wire_codecs_scheme \<Rightarrow> peer_id \<Rightarrow> bytes \<Rightarrow> pan_observer \<Rightarrow> pan_observer" where
  "pan_on_inbound C from payload ob =
     (case pan_wire_of_bytes C payload of
        None \<Rightarrow> ob
      | Some msg \<Rightarrow>
          if \<not> round_in_window (wire_round msg) (cur_round ob) then ob
          else
            (let ob' = ob\<lparr>max_round := raise_to (max_round ob) (wire_round msg)\<rparr> in
             case msg of
               ServerPublic r server_id clients agg_open agg_share share_sum lane_open sig \<Rightarrow>
                 (case slice_get (po_roster ob') server_id of
                    None \<Rightarrow> ob'
                  | Some expected \<Rightarrow>
                      if from \<noteq> expected \<or>
                         \<not> verify C expected
                           (server_public_signing_bytes C r server_id clients agg_open agg_share
                              share_sum lane_open) sig
                      then ob'
                      else on_server_public C expected payload r server_id clients agg_open agg_share ob')
             | ClientSet r clients demand \<Rightarrow>
                 if po_leader ob' = Some from
                 then record_demand r demand
                        (record_clients r clients (record_anon r (length clients) ob'))
                 else ob'
             | Decoded r payloads \<Rightarrow>
                 if is_none_or (\<lambda>l. from = l) (po_leader ob')
                 then record_decoded_bytes r (sum_list (map length payloads))
                        (ob'\<lparr>po_tracker := observe_output r (po_tracker ob')\<rparr>)
                 else ob'
             | Reservations r _ _ \<Rightarrow>
                 if po_leader ob' = Some from
                 then ob'\<lparr>po_tracker := observe_output r (po_tracker ob')\<rparr>
                 else ob'
             | _ \<Rightarrow> ob'))"

definition pan_end_round :: "pan_observer \<Rightarrow> pan_observer \<times> fault list" where
  "pan_end_round ob =
     (let (t, fs) = evaluate (po_tracker ob)
      in (ob\<lparr>po_tracker := t, integrity_pending := []\<rparr>, integrity_pending ob @ fs))"

section \<open>The ADCNet observer\<close>

datatype adcnet_observed =
    ObsShare u64 bytes
  | ObsOutput u64
  | ObsClientSet usize u64
  | ObsOther

definition observe_adcnet :: "'z wire_codecs_scheme \<Rightarrow> bytes \<Rightarrow> adcnet_observed" where
  "observe_adcnet C bs =
     (case adcnet_wire_of_bytes C bs of
        Some (AdcServer sgn_msg) \<Rightarrow>
          (case recover_share C sgn_msg of
             Some (r, who) \<Rightarrow> ObsShare r who
           | None \<Rightarrow> ObsOther)
      | Some (AdcDecoded r _) \<Rightarrow> ObsOutput r
      | Some (AdcClientSet r clients) \<Rightarrow> ObsClientSet (length clients) r
      | _ \<Rightarrow> ObsOther)"

text \<open>A scheduled wire round is one above the round it belongs to.\<close>

definition sched_wire_round :: "int \<Rightarrow> u64 option" where
  "sched_wire_round r = (if 0 < r then Some (nat (r - 1)) else None)"

definition observe_scheduled_adcnet ::
    "'z wire_codecs_scheme \<Rightarrow> bytes \<Rightarrow> pubkey \<Rightarrow> adcnet_observed" where
  "observe_scheduled_adcnet C bs leader =
     (case sched_wire_of_bytes C bs of
        Some (SchedPartial sgn_msg) \<Rightarrow>
          (case recover_partial C sgn_msg of
             Some (wr, who) \<Rightarrow>
               (case sched_wire_round wr of Some r \<Rightarrow> ObsShare r who | None \<Rightarrow> ObsOther)
           | None \<Rightarrow> ObsOther)
      | Some (SchedClientSet sgn_msg) \<Rightarrow>
          (case recover_set C sgn_msg of
             Some (wr, n, who) \<Rightarrow>
               if who = pubkey_bytes leader
               then (case sched_wire_round wr of Some r \<Rightarrow> ObsClientSet n r | None \<Rightarrow> ObsOther)
               else ObsOther
           | None \<Rightarrow> ObsOther)
      | Some (SchedBroadcast sgn_msg) \<Rightarrow>
          (case recover_result C sgn_msg of
             Some (completed, wr, who) \<Rightarrow>
               if completed \<and> who = pubkey_bytes leader
               then (case sched_wire_round wr of Some r \<Rightarrow> ObsOutput r | None \<Rightarrow> ObsOther)
               else ObsOther
           | None \<Rightarrow> ObsOther)
      | _ \<Rightarrow> ObsOther)"

definition ROUND_WINDOW :: u32 where
  "ROUND_WINDOW = 3"

definition FUTURE_ROUND_SLACK :: u32 where
  "FUTURE_ROUND_SLACK = 64"

record adc_observer =
  ao_scheduled :: bool
  ao_tracker :: tracker
  ao_roster :: "peer_id list"
  ao_anon_set_by_round :: "(u64, usize) fmap"
  ao_leader :: peer_id
  ao_cur_round :: "u32 option"

definition new_adc_observer :: "bool \<Rightarrow> peer_id list \<Rightarrow> peer_id \<Rightarrow> u64 \<Rightarrow> adc_observer" where
  "new_adc_observer scheduled peers leader fault_threshold =
     \<lparr>ao_scheduled = scheduled, ao_tracker = new_tracker peers fault_threshold, ao_roster = peers,
      ao_anon_set_by_round = fmempty, ao_leader = leader, ao_cur_round = None\<rparr>"

definition adc_anonymity_set :: "adc_observer \<Rightarrow> usize option" where
  "adc_anonymity_set ob = last_value (ao_anon_set_by_round ob)"

definition adc_anonymity_set_for :: "u64 \<Rightarrow> adc_observer \<Rightarrow> usize option" where
  "adc_anonymity_set_for r ob = last_value (fmfilter (\<lambda>k. k \<le> r) (ao_anon_set_by_round ob))"

definition adc_anon_set_round :: "adc_observer \<Rightarrow> u64 option" where
  "adc_anon_set_round ob = last_key (ao_anon_set_by_round ob)"

definition adc_observed_round :: "adc_observer \<Rightarrow> u64 option" where
  "adc_observed_round ob =
     option_max (share_frontier (ao_tracker ob))
       (option_max (output_frontier (ao_tracker ob)) (adc_anon_set_round ob))"

definition advance_cur_round :: "u64 \<Rightarrow> adc_observer \<Rightarrow> adc_observer" where
  "advance_cur_round r ob = ob\<lparr>ao_cur_round := raise_to (ao_cur_round ob) (as_u32 r)\<rparr>"

definition adc_future :: "adc_observer \<Rightarrow> u64 \<Rightarrow> bool" where
  "adc_future ob r =
     is_some_and (\<lambda>cur. saturating_add32 cur FUTURE_ROUND_SLACK < as_u32 r) (ao_cur_round ob)"

definition adc_begin_round :: "round \<Rightarrow> adc_observer \<Rightarrow> adc_observer" where
  "adc_begin_round r ob =
     advance_cur_round r
       (if adc_future ob r then ob\<lparr>ao_tracker := fast_forward r (ao_tracker ob)\<rparr> else ob)"

definition adc_on_inbound ::
    "'z wire_codecs_scheme \<Rightarrow> peer_id \<Rightarrow> bytes \<Rightarrow> adc_observer \<Rightarrow> adc_observer" where
  "adc_on_inbound C from bs ob =
     (case (if ao_scheduled ob then observe_scheduled_adcnet C bs (ao_leader ob) else observe_adcnet C bs) of
        ObsShare r who \<Rightarrow>
          if adc_future ob r \<or>
             is_some_and (\<lambda>cur. saturating_add32 (as_u32 r) ROUND_WINDOW < cur) (ao_cur_round ob)
          then ob
          else
            (let ob' = advance_cur_round r ob in
             case position (\<lambda>p. pubkey_bytes p = who) (ao_roster ob') of
               Some idx \<Rightarrow> ob'\<lparr>ao_tracker := observe_share r idx (ao_tracker ob')\<rparr>
             | None \<Rightarrow> ob')
      | ObsOutput r \<Rightarrow>
          if from \<noteq> ao_leader ob \<or> adc_future ob r then ob
          else (let ob' = advance_cur_round r ob
                in ob'\<lparr>ao_tracker := observe_output r (ao_tracker ob')\<rparr>)
      | ObsClientSet n r \<Rightarrow>
          if from \<noteq> ao_leader ob \<or> adc_future ob r then ob
          else (let ob' = advance_cur_round r ob
                in ob'\<lparr>ao_anon_set_by_round :=
                     fm_trim ANON_SET_HISTORY (fmupd r n (ao_anon_set_by_round ob'))\<rparr>)
      | ObsOther \<Rightarrow> ob)"

definition adc_end_round :: "adc_observer \<Rightarrow> adc_observer \<times> fault list" where
  "adc_end_round ob = (let (t, fs) = evaluate (ao_tracker ob) in (ob\<lparr>ao_tracker := t\<rparr>, fs))"

section \<open>The observer of a public subnet\<close>

text \<open>\<open>PublicObserver\<close> and \<open>NoopWireCount\<close> of \<open>scheduler_core.rs\<close>.\<close>

record noop_wire_count =
  nw_current :: "pubkey fset"
  nw_last :: "(round \<times> usize) option"

definition new_noop_wire_count :: noop_wire_count where
  "new_noop_wire_count = \<lparr>nw_current = {||}, nw_last = None\<rparr>"

datatype public_observer =
    PubAdcnet adc_observer
  | PubPanetiere pan_observer
  | PubNoop noop_wire_count

fun po_on_inbound ::
    "'z wire_codecs_scheme \<Rightarrow> pubkey \<Rightarrow> bytes \<Rightarrow> public_observer \<Rightarrow> public_observer" where
  "po_on_inbound C from bs (PubAdcnet ob) = PubAdcnet (adc_on_inbound C from bs ob)"
| "po_on_inbound C from bs (PubPanetiere ob) = PubPanetiere (pan_on_inbound C from bs ob)"
| "po_on_inbound C from bs (PubNoop ob) = PubNoop (ob\<lparr>nw_current := finsert from (nw_current ob)\<rparr>)"

fun end_round_faults :: "round \<Rightarrow> public_observer \<Rightarrow> public_observer \<times> fault list" where
  "end_round_faults r (PubAdcnet ob) = (let (ob', fs) = adc_end_round ob in (PubAdcnet ob', fs))"
| "end_round_faults r (PubPanetiere ob) = (let (ob', fs) = pan_end_round ob in (PubPanetiere ob', fs))"
| "end_round_faults r (PubNoop ob) =
     (PubNoop (if nw_current ob \<noteq> {||}
               then ob\<lparr>nw_last := Some (r, fcard (nw_current ob)), nw_current := {||}\<rparr> else ob), [])"

fun refresh_clock :: "round option \<Rightarrow> public_observer \<Rightarrow> public_observer" where
  "refresh_clock wall (PubAdcnet ob) =
     (case option_max (adc_observed_round ob) wall of
        Some r \<Rightarrow> PubAdcnet (adc_begin_round r ob) | None \<Rightarrow> PubAdcnet ob)"
| "refresh_clock wall (PubPanetiere ob) =
     (case option_max (max_round ob) wall of
        Some r \<Rightarrow> PubPanetiere (pan_begin_round r ob) | None \<Rightarrow> PubPanetiere ob)"
| "refresh_clock wall (PubNoop ob) = PubNoop ob"

fun po_anonymity_set :: "public_observer \<Rightarrow> usize option" where
  "po_anonymity_set (PubAdcnet ob) = adc_anonymity_set ob"
| "po_anonymity_set (PubPanetiere ob) = pan_anonymity_set ob"
| "po_anonymity_set (PubNoop ob) = map_option snd (nw_last ob)"

fun po_anon_set_round :: "public_observer \<Rightarrow> round option" where
  "po_anon_set_round (PubAdcnet ob) = adc_anon_set_round ob"
| "po_anon_set_round (PubPanetiere ob) = pan_anon_set_round ob"
| "po_anon_set_round (PubNoop ob) = map_option fst (nw_last ob)"

fun po_demand :: "public_observer \<Rightarrow> u32 option" where
  "po_demand (PubPanetiere ob) = pan_demand ob"
| "po_demand _ = None"

fun po_latest_clients :: "public_observer \<Rightarrow> u32 list option" where
  "po_latest_clients (PubPanetiere ob) = map_option snd (latest_clients ob)"
| "po_latest_clients _ = None"

fun po_share_frontier :: "public_observer \<Rightarrow> u64 option" where
  "po_share_frontier (PubAdcnet ob) = share_frontier (ao_tracker ob)"
| "po_share_frontier (PubPanetiere ob) = pan_share_frontier ob"
| "po_share_frontier (PubNoop ob) = map_option fst (nw_last ob)"

fun po_decoded_bytes_recent :: "u64 \<Rightarrow> public_observer \<Rightarrow> usize option" where
  "po_decoded_bytes_recent w (PubPanetiere ob) = Some (decoded_bytes_recent w ob)"
| "po_decoded_bytes_recent w _ = None"

section \<open>What an observer accepts\<close>

text \<open>Every way a message can change a Panetiere observer.\<close>

lemma pan_on_inbound_cases:
  obtains
    (ignored) m where "pan_on_inbound C from bs ob = ob\<lparr>max_round := m\<rparr>"
  | (share) m r server_id clients agg_open agg_share share_sum lane_open sig where
      "pan_wire_of_bytes C bs =
         Some (ServerPublic r server_id clients agg_open agg_share share_sum lane_open sig)"
      "slice_get (po_roster ob) server_id = Some from"
      "verify C from
         (server_public_signing_bytes C r server_id clients agg_open agg_share share_sum lane_open) sig"
      "pan_on_inbound C from bs ob =
         on_server_public C from bs r server_id clients agg_open agg_share (ob\<lparr>max_round := m\<rparr>)"
  | (set) m r clients demand where "po_leader ob = Some from"
      "pan_on_inbound C from bs ob =
         record_demand r demand (record_clients r clients
           (record_anon r (length clients) (ob\<lparr>max_round := m\<rparr>)))"
  | (decoded) m r n where "is_none_or (\<lambda>l. from = l) (po_leader ob)"
      "pan_on_inbound C from bs ob =
         record_decoded_bytes r n (ob\<lparr>max_round := m, po_tracker := observe_output r (po_tracker ob)\<rparr>)"
  | (reserved) m r where "po_leader ob = Some from"
      "pan_on_inbound C from bs ob = ob\<lparr>max_round := m, po_tracker := observe_output r (po_tracker ob)\<rparr>"
proof (cases "pan_wire_of_bytes C bs")
  case None
  then have "pan_on_inbound C from bs ob = ob\<lparr>max_round := max_round ob\<rparr>"
    by (simp add: pan_on_inbound_def)
  then show thesis by (rule ignored)
next
  case (Some msg)
  let ?m = "raise_to (max_round ob) (wire_round msg)"
  show thesis
  proof (cases "round_in_window (wire_round msg) (cur_round ob)")
    case False
    then have "pan_on_inbound C from bs ob = ob\<lparr>max_round := max_round ob\<rparr>"
      using Some by (simp add: pan_on_inbound_def)
    then show thesis by (rule ignored)
  next
    case in_window: True
    note res = pan_on_inbound_def [of C "from" bs ob] Some in_window
    show thesis
    proof (cases msg)
      case (ServerPublic r server_id clients agg_open agg_share share_sum lane_open sig)
      show thesis
      proof (cases "slice_get (po_roster ob) server_id = Some from \<and>
          verify C from (server_public_signing_bytes C r server_id clients agg_open agg_share
            share_sum lane_open) sig")
        case True
        with ServerPublic Some res show thesis
          by (intro share [where m = ?m and r = r and server_id = server_id and clients = clients
                and agg_open = agg_open and agg_share = agg_share and share_sum = share_sum
                and lane_open = lane_open and sig = sig])
             (simp_all add: Let_def)
      next
        case False
        then have "pan_on_inbound C from bs ob = ob\<lparr>max_round := ?m\<rparr>"
          using ServerPublic res by (auto simp: Let_def split: option.splits)
        then show thesis by (rule ignored)
      qed
    next
      case (ClientSet r clients demand)
      with res show thesis
        by (cases "po_leader ob = Some from")
           (auto simp: Let_def intro: set [where m = ?m] ignored [where m = ?m])
    next
      case (Decoded r payloads)
      with res show thesis
        by (cases "is_none_or (\<lambda>l. from = l) (po_leader ob)")
           (auto simp: Let_def intro: decoded [where m = ?m] ignored [where m = ?m])
    next
      case (Reservations r x y)
      with res show thesis
        by (cases "po_leader ob = Some from")
           (auto simp: Let_def intro: reserved [where m = ?m] ignored [where m = ?m])
    qed (use res in \<open>auto simp: Let_def intro: ignored [where m = ?m]\<close>)
  qed
qed

text \<open>A run of an observer: the clock, messages, and the close of a round.\<close>

datatype observer_op = ObsBegin round | ObsArrive peer_id bytes | ObsEnd

fun pan_step :: "'z wire_codecs_scheme \<Rightarrow> observer_op \<Rightarrow> pan_observer \<Rightarrow> pan_observer \<times> fault list" where
  "pan_step C (ObsBegin r) ob = (pan_begin_round r ob, [])"
| "pan_step C (ObsArrive from bs) ob = (pan_on_inbound C from bs ob, [])"
| "pan_step C ObsEnd ob = pan_end_round ob"

definition pan_run :: "'z wire_codecs_scheme \<Rightarrow> observer_op list \<Rightarrow> pan_observer \<Rightarrow> pan_observer \<times> fault list" where
  "pan_run C = run_ops (pan_step C)"

section \<open>Invariants of the Panetiere observer\<close>

lemma evaluate_kinds: "f \<in> set (snd (evaluate t)) \<Longrightarrow> kind f = Liveness"
proof -
  have "True \<and> (\<forall>f \<in> set (snd (evaluate t)). kind f = Liveness)"
    unfolding evaluate_def
    by (rule evaluate_rounds_induct [where P = "\<lambda>_. True"])
       (auto elim!: evaluate_round_cases simp: liveness_fault_def Let_def)
  then show "f \<in> set (snd (evaluate t)) \<Longrightarrow> kind f = Liveness" by blast
qed

text \<open>A fault whose blame the evidence alone proves, to anybody who has the roster.\<close>

definition provable_fault :: "'z wire_codecs_scheme \<Rightarrow> peer_id list \<Rightarrow> fault \<Rightarrow> bool" where
  "provable_fault C peers f \<longleftrightarrow>
     (\<exists>pk. kind f = Integrity \<and> fault_attribution f = Peers [pk] \<and>
        integrity_culprit_from_evidence C (evidence f) peers = Some pk)"

definition histories_bounded :: "pan_observer \<Rightarrow> bool" where
  "histories_bounded ob \<longleftrightarrow>
     fm_size (anon_set_by_round ob) \<le> ANON_SET_HISTORY \<and>
     fm_size (demand_by_round ob) \<le> ANON_SET_HISTORY \<and>
     fm_size (clients_by_round ob) \<le> ANON_SET_HISTORY \<and>
     fm_size (decoded_bytes_by_round ob) \<le> ANON_SET_HISTORY"

definition pan_ok :: "'z wire_codecs_scheme \<Rightarrow> peer_id list \<Rightarrow> pan_observer \<Rightarrow> bool" where
  "pan_ok C peers ob \<longleftrightarrow>
     po_roster ob = peers \<and> roster (po_tracker ob) = peers \<and> tracker_ok (po_tracker ob) \<and>
     histories_bounded ob \<and> (\<forall>f \<in> set (integrity_pending ob). provable_fault C peers f)"

lemma record_first_size: "fm_size (record_first r v m) \<le> ANON_SET_HISTORY"
  by (simp add: record_first_def fm_size_trim)

lemmas record_defs =
  record_anon_def record_clients_def record_demand_def record_decoded_bytes_def

lemma roster_observe [simp]:
  "roster (observe_share r i t) = roster t" "roster (observe_output r t) = roster t"
  "roster (fast_forward r t) = roster t" "roster (fst (evaluate t)) = roster t"
  using roster_step [of "Share r i" t] roster_step [of "Output r" t]
    roster_step [of "FastForward r" t] roster_step [of Evaluate t] by simp_all

lemma on_server_public_ok:
  assumes "pan_ok C peers ob" "slice_get peers server_id = Some pk"
    and "pan_wire_of_bytes C bs =
      Some (ServerPublic r server_id clients agg_open agg_share share_sum lane_open sig)"
    and "verify C pk
      (server_public_signing_bytes C r server_id clients agg_open agg_share share_sum lane_open) sig"
  shows "pan_ok C peers (on_server_public C pk bs r server_id clients agg_open agg_share ob)"
proof -
  have "integrity_culprit_from_evidence C bs peers = Some pk"
    if "\<not> server_public_consistent C agg_open agg_share"
    using that assms(2-4) by (simp add: integrity_culprit_from_evidence_def)
  then have "provable_fault C peers
      \<lparr>kind = Integrity, fault_attribution = Peers [pk], evidence = bs\<rparr>"
    if "\<not> server_public_consistent C agg_open agg_share"
    using that by (simp add: provable_fault_def)
  then show ?thesis
    using assms(1) observe_share_ok [of "po_tracker ob" r server_id]
    by (auto simp: on_server_public_def Let_def pan_ok_def histories_bounded_def record_defs
        record_first_size)
qed

lemma pan_on_inbound_ok:
  assumes "pan_ok C peers ob"
  shows "pan_ok C peers (pan_on_inbound C from bs ob)"
proof (cases rule: pan_on_inbound_cases [of C "from" bs ob])
  case (share m r server_id clients agg_open agg_share share_sum lane_open sig)
  have "pan_ok C peers (ob\<lparr>max_round := m\<rparr>)"
    using assms by (simp add: pan_ok_def histories_bounded_def)
  moreover have "slice_get peers server_id = Some from" using share(2) assms by (simp add: pan_ok_def)
  ultimately show ?thesis using on_server_public_ok share(1,3,4) by metis
qed (use assms observe_output_ok in
      \<open>auto simp: pan_ok_def histories_bounded_def record_defs record_first_size fm_size_trim\<close>)

lemma pan_step_ok:
  assumes "pan_ok C peers ob"
  shows "pan_ok C peers (fst (pan_step C op ob))"
proof (cases op)
  case (ObsBegin r)
  then show ?thesis
    using assms fast_forward_ok [of "po_tracker ob"]
    by (auto simp: pan_begin_round_def Let_def pan_ok_def histories_bounded_def)
next
  case (ObsArrive p bs)
  then show ?thesis using pan_on_inbound_ok [OF assms] by simp
next
  case ObsEnd
  then show ?thesis
    using assms evaluate_ok [of "po_tracker ob"]
    by (auto simp: pan_end_round_def pan_ok_def histories_bounded_def split_def Let_def)
qed

text \<open>What an observer may report: a liveness fault, or an integrity fault that proves itself.\<close>

definition reportable :: "'z wire_codecs_scheme \<Rightarrow> peer_id list \<Rightarrow> fault \<Rightarrow> bool" where
  "reportable C peers f \<longleftrightarrow> kind f = Liveness \<or> provable_fault C peers f"

interpretation pan_observer: component "pan_step C" "\<lambda>_ _. True" "pan_ok C peers" "reportable C peers"
  for C peers
proof
  fix ob op f
  assume ok: "pan_ok C peers ob"
  show "pan_ok C peers (fst (pan_step C op ob))" by (rule pan_step_ok [OF ok])
  assume "f \<in> set (snd (pan_step C op ob))"
  then show "reportable C peers f"
    using ok evaluate_kinds [of f "po_tracker ob"]
    by (cases op) (auto simp: pan_end_round_def pan_ok_def reportable_def split_def Let_def)
qed

lemma new_pan_observer_ok: "pan_ok C peers (new_pan_observer peers leader th)"
  using tracker_ok_new [of peers th]
  by (simp add: pan_ok_def histories_bounded_def new_pan_observer_def new_tracker_def)

section \<open>Credit for shares\<close>

text \<open>Nobody else can earn a relay's liveness credit: no message but its own touches its slot.\<close>

fun not_from :: "peer_id \<Rightarrow> observer_op \<Rightarrow> pan_observer \<Rightarrow> bool" where
  "not_from pk (ObsArrive p _) ob \<longleftrightarrow> p \<noteq> pk"
| "not_from pk _ ob \<longleftrightarrow> True"

definition no_credit :: "usize \<Rightarrow> tracker \<Rightarrow> bool" where
  "no_credit i t \<longleftrightarrow> (\<forall>r. i |\<notin>| shares_of t r)"

lemma no_credit_ops:
  "no_credit i t \<Longrightarrow> j \<noteq> i \<Longrightarrow> no_credit i (observe_share r j t)"
  "no_credit i t \<Longrightarrow> no_credit i (observe_output r t)"
  "no_credit i t \<Longrightarrow> no_credit i (fast_forward r t)"
  "no_credit i t \<Longrightarrow> no_credit i (fst (evaluate t))"
proof -
  show "no_credit i t \<Longrightarrow> j \<noteq> i \<Longrightarrow> no_credit i (observe_share r j t)"
    by (auto simp: no_credit_def observe_share_def shares_of_def)
  show "no_credit i t \<Longrightarrow> no_credit i (observe_output r t)"
    by (auto simp: no_credit_def observe_output_def shares_of_def Let_def)
  show "no_credit i t \<Longrightarrow> no_credit i (fast_forward r t)"
    by (auto simp: no_credit_def fast_forward_def shares_of_def)
  show "no_credit i t \<Longrightarrow> no_credit i (fst (evaluate t))"
    using evaluate_view [of t] by (simp add: no_credit_def shares_of_def same_view_def)
qed

lemma tracker_on_server_public:
  "po_tracker (on_server_public C pk bs r server_id clients agg_open agg_share ob) =
     observe_share r server_id (po_tracker ob)"
  by (simp add: on_server_public_def Let_def record_defs)

lemma roster_on_server_public:
  "po_roster (on_server_public C pk bs r server_id clients agg_open agg_share ob) = po_roster ob"
  by (simp add: on_server_public_def Let_def record_defs)

interpretation silent_relay: component "pan_step C" "not_from (peers ! i)"
  "\<lambda>ob. po_roster ob = peers \<and> distinct peers \<and> i < length peers \<and> no_credit i (po_tracker ob)"
  "\<lambda>_. True" for C peers i
proof
  fix ob op
  assume inv: "po_roster ob = peers \<and> distinct peers \<and> i < length peers \<and> no_credit i (po_tracker ob)"
    and other: "not_from (peers ! i) op ob"
  show "po_roster (fst (pan_step C op ob)) = peers \<and> distinct peers \<and> i < length peers \<and>
      no_credit i (po_tracker (fst (pan_step C op ob)))"
  proof (cases op)
    case (ObsBegin r)
    then show ?thesis using inv by (simp add: pan_begin_round_def Let_def no_credit_ops)
  next
    case (ObsArrive p bs)
    with other have p: "p \<noteq> peers ! i" by simp
    show ?thesis
    proof (cases rule: pan_on_inbound_cases [of C p bs ob])
      case (share m r server_id clients agg_open agg_share share_sum lane_open sig)
      then have "server_id \<noteq> i" using p inv by (auto simp: slice_get_Some_iff)
      with share inv ObsArrive show ?thesis
        by (simp add: tracker_on_server_public roster_on_server_public no_credit_ops)
    qed (use inv ObsArrive in \<open>auto simp: record_defs no_credit_ops\<close>)
  next
    case ObsEnd
    then show ?thesis
      using inv no_credit_ops(4) [of i "po_tracker ob"]
      by (auto simp: pan_end_round_def split_def Let_def)
  qed
qed simp

section \<open>Main results\<close>

text \<open>
  C38. Every integrity fault an observer ever reports proves itself: it blames one relay,
  and the committee's own check of the evidence, a share signed by that relay that does not
  match its opening, finds exactly that relay. Everything else an observer reports is a
  liveness fault. Throughout, its four per-round histories hold at most sixteen rounds.
\<close>

theorem observer_faults_are_provable:
  assumes "(ob, fs) = pan_run C ops (new_pan_observer peers leader th)"
  shows "(\<forall>f \<in> set fs. kind f = Liveness \<or> provable_fault C peers f) \<and> histories_bounded ob"
proof -
  have fs: "fs = snd (run_ops (pan_step C) ops (new_pan_observer peers leader th))"
    and ob: "ob = fst (run_ops (pan_step C) ops (new_pan_observer peers leader th))"
    using assms by (metis pan_run_def fst_conv snd_conv)+
  have "reportable C peers f" if "f \<in> set fs" for f
    using that pan_observer.run_good [OF new_pan_observer_ok] unfolding fs by simp
  moreover have "pan_ok C peers ob"
    using pan_observer.run_inv [OF new_pan_observer_ok] unfolding ob by simp
  ultimately show ?thesis by (auto simp: reportable_def pan_ok_def)
qed

text \<open>
  An instance of the wire decoders: the first byte selects a message, a relay's share
  carries its slot, round and two bytes that agree when the share is honest.
\<close>

definition demo_wire :: "bytes \<Rightarrow> panetiere_wire option" where
  "demo_wire bs =
     (case bs of
        a # b # c # d # e # sig \<Rightarrow>
          if a = 0 then Some (ServerPublic (unat b) (unat c) [] [d] [e] [] [] sig)
          else if a = 1 then Some (ClientPublic (unat b) (unat c) [] (Pubkey [d]) [])
          else if a = 2 then Some (Decoded (unat b) [])
          else None
      | _ \<Rightarrow> None)"

definition demo_wire_codecs :: wire_codecs where
  "demo_wire_codecs = reg_codecs.extend demo_reg_codecs
     \<lparr>pan_wire_of_bytes = demo_wire,
      server_public_tuple = (\<lambda>r i cs ao as ss lo. be_bytes 8 r @ be_bytes 4 i @ ao @ as),
      packed_mu_cs = (\<lambda>_. Some 1),
      opening_shares = (\<lambda>bs. Some [bs]),
      unpack_cs_shares = (\<lambda>bs _. Some [bs]),
      adcnet_wire_of_bytes = (\<lambda>_. None),
      recover_share = (\<lambda>_. None),
      sched_wire_of_bytes = (\<lambda>_. None),
      recover_partial = (\<lambda>_. None),
      recover_set = (\<lambda>_. None),
      recover_result = (\<lambda>_. None)\<rparr>"

definition demo_share :: "byte \<Rightarrow> byte \<Rightarrow> byte \<Rightarrow> byte \<Rightarrow> bytes" where
  "demo_share key r slot share =
     [0, r, slot, 5, share] @
     ed_sign demo_crypto [key] SIGN_NAMESPACE
       (server_public_signing_bytes demo_wire_codecs (unat r) (unat slot) [] [5] [share] [] [])"

theorem observer_faults_are_provable_witness:
  "list_all (\<lambda>f. kind f = Liveness \<or> provable_fault demo_wire_codecs demo_peers f)
     (snd (pan_run demo_wire_codecs
        [ObsBegin 3, ObsArrive (Pubkey [2]) (demo_share 2 3 1 9), ObsEnd]
        (new_pan_observer demo_peers (Some (Pubkey [1])) 3)))"
  using observer_faults_are_provable [of _ _ demo_wire_codecs
      "[ObsBegin 3, ObsArrive (Pubkey [2]) (demo_share 2 3 1 9), ObsEnd]" demo_peers "Some (Pubkey [1])" 3,
      OF prod.collapse]
  by (simp add: list_all_iff)

text \<open>The run above does report: the relay's share disagrees with its opening.\<close>

lemma demo_share_reported:
  "map fault_attribution
     (snd (pan_run demo_wire_codecs
        [ObsBegin 3, ObsArrive (Pubkey [2]) (demo_share 2 3 1 9), ObsEnd]
        (new_pan_observer demo_peers (Some (Pubkey [1])) 3))) = [Peers [Pubkey [2]]]"
  by code_simp

text \<open>
  Liveness credit cannot be forged: along any run in which no message arrives from a
  relay, that relay is never recorded as having shared any round, whatever the other peers
  send, the leader included.
\<close>

theorem silent_relay_gets_no_credit:
  assumes "distinct peers" "i < length peers"
    and "run_allowed (pan_step C) (not_from (peers ! i)) ops (new_pan_observer peers leader th)"
  shows "i |\<notin>| shares_of (po_tracker (fst (pan_run C ops (new_pan_observer peers leader th)))) r"
proof -
  have "no_credit i (new_tracker peers th)"
    by (simp add: no_credit_def new_tracker_def shares_of_def)
  then have "po_roster (new_pan_observer peers leader th) = peers \<and> distinct peers \<and>
      i < length peers \<and> no_credit i (po_tracker (new_pan_observer peers leader th))"
    using assms(1,2) by (simp add: new_pan_observer_def)
  from silent_relay.run_inv [OF this assms(3)] show ?thesis
    by (simp add: pan_run_def no_credit_def)
qed

theorem silent_relay_gets_no_credit_witness:
  "2 |\<notin>| shares_of (po_tracker (fst (pan_run demo_wire_codecs
      [ObsBegin 3, ObsArrive (Pubkey [2]) (demo_share 3 3 2 5)]
      (new_pan_observer demo_peers (Some (Pubkey [1])) 3)))) 3"
proof (rule silent_relay_gets_no_credit)
  show "distinct demo_peers" "2 < length demo_peers" by code_simp+
  show "run_allowed (pan_step demo_wire_codecs) (not_from (demo_peers ! 2))
      [ObsBegin 3, ObsArrive (Pubkey [2]) (demo_share 3 3 2 5)]
      (new_pan_observer demo_peers (Some (Pubkey [1])) 3)" by code_simp
qed

text \<open>
  C39. Before its clock is first set an observer accepts a message of any round, and the
  clock then follows the highest round it accepted: one decodable message of a far round,
  from any peer, moves the clock there, and every message more than the window behind that
  round is ignored from then on, until the observer is rebuilt.
\<close>

theorem fresh_observer_clock_hijack:
  assumes "pan_wire_of_bytes C bs = Some (ClientPublic far a b c d)"
    and "ob = (case refresh_clock wall (PubPanetiere
      (pan_on_inbound C from bs (new_pan_observer peers leader th))) of PubPanetiere ob \<Rightarrow> ob)"
    and "is_none_or (\<lambda>w. w \<le> far) wall"
    and "pan_wire_of_bytes C bs' = Some msg"
      "saturating_add (wire_round msg) PANETIERE_ROUND_WINDOW < far"
  shows "cur_round ob = Some far \<and> pan_on_inbound C from' bs' ob = ob"
proof -
  have "cur_round ob = Some far"
    using assms(1-3)
    by (auto simp: pan_on_inbound_def new_pan_observer_def round_in_window_def raise_to_def
        option_max_def pan_begin_round_def max_def split: option.splits)
  then show ?thesis
    using assms(4,5) by (simp add: pan_on_inbound_def round_in_window_def)
qed

theorem fresh_observer_clock_hijack_witness:
  "\<exists>ob. ob = (case refresh_clock (Some 9) (PubPanetiere
       (pan_on_inbound demo_wire_codecs (Pubkey [2]) [1, 200, 0, 0, 0]
          (new_pan_observer demo_peers (Some (Pubkey [1])) 3))) of PubPanetiere ob \<Rightarrow> ob) \<and>
     cur_round ob = Some 200 \<and>
     pan_on_inbound demo_wire_codecs (Pubkey [2]) (demo_share 2 10 1 5) ob = ob"
proof -
  have 1: "pan_wire_of_bytes demo_wire_codecs [1, 200, 0, 0, 0] =
      Some (ClientPublic 200 0 [] (Pubkey [0]) [])" by code_simp
  have 2: "\<exists>sig. pan_wire_of_bytes demo_wire_codecs (demo_share 2 10 1 5) =
      Some (ServerPublic 10 1 [] [5] [5] [] [] sig)"
    by (simp add: demo_wire_codecs_def reg_codecs.defs demo_wire_def demo_share_def)
  then obtain sig where sig: "pan_wire_of_bytes demo_wire_codecs (demo_share 2 10 1 5) =
      Some (ServerPublic 10 1 [] [5] [5] [] [] sig)" by blast
  have 3: "is_none_or (\<lambda>w. w \<le> (200 :: u64)) (Some 9)" by simp
  have 4: "saturating_add (wire_round (ServerPublic 10 1 [] [5] [5] [] [] sig)) PANETIERE_ROUND_WINDOW < 200"
    by (simp add: saturating_add_def PANETIERE_ROUND_WINDOW_def)
  from fresh_observer_clock_hijack [OF 1 refl 3 sig 4] show ?thesis by blast
qed

end
