(* ===== verification/Sizing.thy ===== *)
theory Sizing
  imports Observers
begin

text \<open>
  Sizing rules of the committee (\<open>anymone-core/src/scheduler_core.rs\<close>, and the wire-size
  estimators of \<open>adcnet.rs\<close>, \<open>panetiere.rs\<close>, \<open>panetiere_scheduled.rs\<close>): subnet capacity,
  aggregator groups, the largest message of a subnet, and the structural checks on a
  configuration. Sizes fixed by the protocol crates are fields of the record \<open>sizes\<close>.
  Machine arithmetic on sizes wraps, as it does in an optimised build.
\<close>

section \<open>Constants\<close>

definition SUBNET_GROW_AT :: u32 where "SUBNET_GROW_AT = 63"
definition SUBNET_SHRINK_GRACE :: u32 where "SUBNET_SHRINK_GRACE = 3"
definition MAX_SUBNETS :: usize where "MAX_SUBNETS = 16"
definition MAX_COMMITTEE_RELAYS :: usize where "MAX_COMMITTEE_RELAYS = 16"
definition INITIAL_CAPACITY :: u32 where "INITIAL_CAPACITY = 8"
definition MIN_CAPACITY :: u32 where "MIN_CAPACITY = 8"
definition INTEGRITY_BACKOFF_MS :: u64 where "INTEGRITY_BACKOFF_MS = 6 * 60 * 1000"
definition AGGREGATION_THRESHOLD :: u32 where "AGGREGATION_THRESHOLD = 16"
definition MAX_ROUND_ADVANCE :: round where "MAX_ROUND_ADVANCE = 8"
definition FAULT_REPORT_ROUND_WINDOW :: round where "FAULT_REPORT_ROUND_WINDOW = 32"
definition ANON_SET_FRESHNESS :: round where "ANON_SET_FRESHNESS = 4"
definition OBSERVER_FAULT_GRACE :: u32 where "OBSERVER_FAULT_GRACE = 3"
definition CAPACITY_RESIZE_GRACE :: u32 where "CAPACITY_RESIZE_GRACE = 3"
definition MAX_SUBNET_WIRE :: usize where "MAX_SUBNET_WIRE = MAX_TRANSMIT_SIZE * 3 div 4"
definition MAX_SUBNET_CLIENTS :: u32 where "MAX_SUBNET_CLIENTS = 300"
definition CONSENSUS_PHASE_MS :: u64 where "CONSENSUS_PHASE_MS = 150"
definition CONSENSUS_PHASES :: usize where "CONSENSUS_PHASES = 3"
definition SCHED_WINDOW :: u64 where "SCHED_WINDOW = 8"
definition MAX_VECTOR_BYTES :: usize where "MAX_VECTOR_BYTES = 128 * 1024"

lemmas sizing_consts =
  SUBNET_GROW_AT_def SUBNET_SHRINK_GRACE_def MAX_SUBNETS_def MAX_COMMITTEE_RELAYS_def
  INITIAL_CAPACITY_def MIN_CAPACITY_def INTEGRITY_BACKOFF_MS_def AGGREGATION_THRESHOLD_def
  MAX_ROUND_ADVANCE_def FAULT_REPORT_ROUND_WINDOW_def ANON_SET_FRESHNESS_def
  OBSERVER_FAULT_GRACE_def CAPACITY_RESIZE_GRACE_def MAX_SUBNET_WIRE_def MAX_SUBNET_CLIENTS_def
  CONSENSUS_PHASE_MS_def CONSENSUS_PHASES_def SCHED_WINDOW_def MAX_VECTOR_BYTES_def
  MAX_TRANSMIT_SIZE_def

section \<open>Capacity\<close>

definition capacity_resize_margin :: "u32 \<Rightarrow> u32" where
  "capacity_resize_margin current = max (current div 10) MIN_CAPACITY"

text \<open>
  \<open>clients as f64 * 1.2\<close>: the double nearest to 1.2 is \<open>F64_1_2 / 2 ^ 52\<close>. The product of
  an integer below \<open>2 ^ 53\<close> with it is rounded to 53 significant bits, ties to even;
  \<open>f64_round n\<close> rounds the integer \<open>n\<close> that way, here a number of \<open>2 ^ -52\<close> units.
\<close>

definition F64_1_2 :: nat where
  "F64_1_2 = 5404319552844595"

definition round_half_even :: "nat \<Rightarrow> nat \<Rightarrow> nat" where
  "round_half_even n unit =
     (let q = n div unit; r = n mod unit
      in if unit < 2 * r \<or> (2 * r = unit \<and> odd q) then q + 1 else q)"

function f64_unit :: "nat \<Rightarrow> nat \<Rightarrow> nat" where
  "f64_unit n unit = (if 0 < unit \<and> 2 ^ 53 * unit \<le> n then f64_unit n (2 * unit) else unit)"
  by pat_completeness auto
termination
  by (relation "measure (\<lambda>(n, unit). n + 1 - unit)") auto

declare f64_unit.simps [simp del]

definition f64_round :: "nat \<Rightarrow> nat" where
  "f64_round n = round_half_even n (f64_unit n 1) * f64_unit n 1"

definition times_1_2_ceil :: "nat \<Rightarrow> nat" where
  "times_1_2_ceil n = div_ceil (f64_round (n * F64_1_2)) (2 ^ 52)"

definition size_capacity :: "usize \<Rightarrow> u32" where
  "size_capacity clients =
     (let plus = saturating_add clients 10;
          mult = times_1_2_ceil clients
      in max (as_u32 (max plus mult)) MIN_CAPACITY)"

definition expected_active :: "u32 \<Rightarrow> u32" where
  "expected_active n = max (div_ceil n 2) (MIN_CAPACITY div 2)"

definition round_up_to :: "usize \<Rightarrow> usize \<Rightarrow> usize" where
  "round_up_to x to = wrapping_mul (div_ceil x to) to"

section \<open>Aggregator groups\<close>

text \<open>
  \<open>min(1 + c/16, sqrt(c)/2).floor()\<close> for a 32-bit \<open>c\<close>. Dividing by 16 and adding 1 is exact
  in doubles. The square root is correctly rounded, and the square root of a 32-bit integer
  that is not a square is at least \<open>2 ^ -17\<close> away from the nearest integer, so rounding never
  crosses an integer and the floor of its half is half the integer square root.
\<close>

fun isqrt_from :: "nat \<Rightarrow> nat \<Rightarrow> nat" where
  "isqrt_from 0 n = 0"
| "isqrt_from (Suc m) n = (if Suc m * Suc m \<le> n then Suc m else isqrt_from m n)"

definition isqrt :: "nat \<Rightarrow> nat" where
  "isqrt n = isqrt_from n n"

definition aggregator_group_count :: "u32 \<Rightarrow> usize \<Rightarrow> u32 option" where
  "aggregator_group_count capacity n_relays =
     (if capacity \<le> AGGREGATION_THRESHOLD \<or> n_relays = 0 then None
      else Some (max (min (min (1 + capacity div 16) (isqrt capacity div 2)) (as_u32 n_relays)) 1))"

definition build_subnet_aggregation :: "u32 \<Rightarrow> pubkey list \<Rightarrow> aggregation option" where
  "build_subnet_aggregation capacity relay_vec =
     map_option (\<lambda>n. \<lparr>groups = map (\<lambda>pk. \<lparr>aggregator = pk\<rparr>) (take n relay_vec)\<rparr>)
       (aggregator_group_count capacity (length relay_vec))"

section \<open>Wire sizes\<close>

record sizes = wire_codecs +
  iblt_encoded_len :: "u32 \<Rightarrow> usize \<Rightarrow> usize"
  auction_elements :: "u32 \<Rightarrow> usize"
  prony_polys :: "u32 \<Rightarrow> usize \<Rightarrow> usize"
  mse_polys :: "u32 \<Rightarrow> usize \<Rightarrow> usize"
  sched_polys :: "u32 \<Rightarrow> usize"
  bytes_per_poly :: usize
  rs_block_len :: "usize \<Rightarrow> usize \<Rightarrow> usize \<Rightarrow> usize"
  server_entry_len :: "usize \<Rightarrow> usize \<Rightarrow> u32 \<Rightarrow> usize"
  rs_poly_packed_len :: usize
  fresh_path_packed_len :: "usize \<Rightarrow> usize"
  client_entry_packed_len :: usize
  lane_post_packed_len :: "usize \<Rightarrow> usize \<Rightarrow> usize \<Rightarrow> usize"
  set_pubkey_len :: usize
  set_sig_len :: usize

definition wrap :: "nat \<Rightarrow> usize" where
  "wrap n = n mod (U64_MAX + 1)"

definition adcnet_wire_estimate :: "'z sizes_scheme \<Rightarrow> usize \<Rightarrow> u32 \<Rightarrow> u32 \<Rightarrow> usize \<Rightarrow> usize" where
  "adcnet_wire_estimate C msg_size estimated clients n_relays =
     (let signed_framing = 256; keyset_entry = 200;
          share = wrap (iblt_encoded_len C estimated msg_size * 8 + signed_framing);
          client_set = wrap (clients * keyset_entry + signed_framing);
          dec = wrap (estimated * msg_size + signed_framing)
      in max (max share client_set) dec)"

definition scheduled_max_wire_estimate ::
    "'z sizes_scheme \<Rightarrow> scheduled_adcnet_config \<Rightarrow> usize \<Rightarrow> usize" where
  "scheduled_max_wire_estimate C c n_relays =
     (let auction = saturating_mul (auction_elements C (sa_auction_slots c)) 8;
          contribution = saturating_add (saturating_add (saturating_add auction (sa_message_length c))
            (saturating_mul n_relays 4)) 512;
          client_set = saturating_add (saturating_mul contribution (sa_client_set_max c)) 256;
          partial = saturating_add (saturating_mul contribution 2)
            (saturating_mul (sa_client_set_max c) 128)
      in max client_set partial)"

definition rs_wire_estimate ::
    "'z sizes_scheme \<Rightarrow> usize \<Rightarrow> usize \<Rightarrow> u32 \<Rightarrow> usize \<Rightarrow> u32 \<Rightarrow> usize" where
  "rs_wire_estimate C n_polys decoded_bytes clients n_relays threshold =
     (let framing = 512; n = max n_relays 1; rho = max clients 1;
          block = rs_block_len C threshold n n_polys;
          client_public = wrap (client_entry_packed_len C + framing);
          slice = wrap (block * rs_poly_packed_len C + fresh_path_packed_len C n + framing);
          server_public = wrap (server_entry_len C n n_polys rho + lane_post_packed_len C block n rho +
            rho * 4 + framing)
      in max (max (max client_public slice) server_public) (wrap (decoded_bytes + framing)))"

definition receipt_batch_packed_len :: "'z sizes_scheme \<Rightarrow> usize \<Rightarrow> usize" where
  "receipt_batch_packed_len C n_receipts =
     8 + set_sig_len C + n_receipts * (4 + set_pubkey_len C + 32)"

definition consensus_wire_estimate ::
    "'z sizes_scheme \<Rightarrow> usize \<Rightarrow> u32 \<Rightarrow> usize \<Rightarrow> u32 \<Rightarrow> set_formation \<Rightarrow> usize" where
  "consensus_wire_estimate C n_polys clients n_relays threshold formation =
     (if formation \<noteq> Consensus then 0
      else
        (let framing = 512; n = max n_relays 1; rho = max clients 1;
             block = rs_block_len C threshold n n_polys;
             sealed = server_entry_len C n n_polys (as_u32 rho) + 1600;
             bundle = wrap (block * rs_poly_packed_len C + fresh_path_packed_len C n + sealed + framing);
             fragment = bundle;
             batch = wrap (receipt_batch_packed_len C rho + framing);
             relay = wrap (max fragment batch + n * (4 + set_sig_len C) + framing)
         in max (max bundle batch) relay))"

definition panetiere_wire_estimate :: "'z sizes_scheme \<Rightarrow> panetiere_config \<Rightarrow> usize \<Rightarrow> usize" where
  "panetiere_wire_estimate C c n_relays =
     (let n_polys = (case pc_encoding c of
            Prony \<Rightarrow> prony_polys C (pc_estimated_messages c) (pc_message_size c)
          | Mse \<Rightarrow> mse_polys C (pc_estimated_messages c) (pc_message_size c))
      in max (rs_wire_estimate C n_polys (wrapping_mul (pc_estimated_messages c) (pc_message_size c))
                (pc_client_set_max c) n_relays (pc_threshold c))
             (consensus_wire_estimate C n_polys (pc_client_set_max c) n_relays (pc_threshold c)
                (pc_set_formation c)))"

definition msg_polys :: "'z sizes_scheme \<Rightarrow> usize \<Rightarrow> usize" where
  "msg_polys C vector_bytes = div_ceil vector_bytes (bytes_per_poly C)"

definition sched_panetiere_wire_estimate ::
    "'z sizes_scheme \<Rightarrow> scheduled_panetiere_config \<Rightarrow> usize \<Rightarrow> usize" where
  "sched_panetiere_wire_estimate C c n_relays =
     (let framing = 512;
          n_polys = wrap (sched_polys C (sp_estimated_messages c) + msg_polys C (sp_vector_bytes c));
          reservations = wrap (4 * sp_estimated_messages c + framing)
      in max (max (rs_wire_estimate C n_polys (sp_vector_bytes c) (sp_client_set_max c) n_relays (sp_threshold c))
                  reservations)
             (consensus_wire_estimate C n_polys (sp_client_set_max c) n_relays (sp_threshold c)
                (sp_set_formation c)))"

fun subnet_max_wire :: "'z sizes_scheme \<Rightarrow> protocol_config \<Rightarrow> usize \<Rightarrow> usize" where
  "subnet_max_wire C (Adcnet c) n =
     adcnet_wire_estimate C (ac_max_payload_bytes c) (ac_estimated_messages c) (ac_client_set_max c) n"
| "subnet_max_wire C (Panetiere c) n = panetiere_wire_estimate C c n"
| "subnet_max_wire C (ScheduledPanetiere c) n = sched_panetiere_wire_estimate C c n"
| "subnet_max_wire C (Noop c) n =
     max_wire_estimate (nc_message_size c) (nc_client_set_max c) (nc_client_set_max c) n"
| "subnet_max_wire C (ScheduledAdcnet c) n = scheduled_max_wire_estimate C c n"

section \<open>Structural checks\<close>

definition consensus_cadence_fits :: "u64 \<Rightarrow> set_formation \<Rightarrow> usize \<Rightarrow> u32 \<Rightarrow> bool" where
  "consensus_cadence_fits dur formation n_relays threshold =
     (if formation \<noteq> Consensus then True
      else (let n = max n_relays 1;
                phases = CONSENSUS_PHASES + (n - threshold + 1)
            in (phases + 1) * CONSENSUS_PHASE_MS \<le> dur))"

definition aggregation_structural_ok :: "aggregation option \<Rightarrow> bool" where
  "aggregation_structural_ok agg =
     (case agg of None \<Rightarrow> True
      | Some a \<Rightarrow> groups a \<noteq> [] \<and> unique (map aggregator (groups a)))"

definition threshold_ok :: "u32 \<Rightarrow> u32 \<Rightarrow> bool" where
  "threshold_ok t n \<longleftrightarrow> n div 2 + 1 \<le> t \<and> t \<le> max n 1"

fun protocol_structure_ok :: "protocol_config \<Rightarrow> usize \<Rightarrow> bool" where
  "protocol_structure_ok (Noop c) n \<longleftrightarrow> \<not> nc_client_set_max c < MIN_CAPACITY"
| "protocol_structure_ok (Adcnet c) n \<longleftrightarrow>
     \<not> (ac_client_set_max c < MIN_CAPACITY \<or> ac_estimated_messages c = 0 \<or>
        \<not> aggregation_structural_ok (ac_aggregation c))"
| "protocol_structure_ok (Panetiere c) n \<longleftrightarrow>
     \<not> (pc_client_set_max c < MIN_CAPACITY \<or> pc_estimated_messages c = 0 \<or>
        \<not> threshold_ok (pc_threshold c) (as_u32 n) \<or>
        \<not> consensus_cadence_fits (pc_round_duration_ms c) (pc_set_formation c) n (pc_threshold c))"
| "protocol_structure_ok (ScheduledPanetiere c) n \<longleftrightarrow>
     \<not> (sp_client_set_max c < MIN_CAPACITY \<or> sp_estimated_messages c = 0 \<or>
        \<not> threshold_ok (sp_threshold c) (as_u32 n) \<or>
        65535 < sp_message_size c \<or> sp_vector_bytes c = 0 \<or>
        \<not> consensus_cadence_fits (sp_round_duration_ms c) (sp_set_formation c) n (sp_threshold c))"
| "protocol_structure_ok (ScheduledAdcnet c) n \<longleftrightarrow>
     \<not> (sa_client_set_max c < MIN_CAPACITY \<or> sa_auction_slots c = 0 \<or>
        MAX_SUBNET_CLIENTS < sa_auction_slots c \<or> sa_message_length c < 1024 \<or>
        sa_message_length c mod 1024 \<noteq> 0 \<or> MAX_VECTOR_BYTES < sa_message_length c \<or>
        sa_min_message_size c = 0 \<or> sa_message_length c < sa_min_message_size c)"

definition subnet_structure_ok :: "'z sizes_scheme \<Rightarrow> subnet \<Rightarrow> bool" where
  "subnet_structure_ok C s \<longleftrightarrow>
     \<not> (relays s = [] \<or> MAX_COMMITTEE_RELAYS < length (relays s)) \<and>
     unique (relays s) \<and>
     f32_in_unit (cover_rate s) \<and>
     \<not> (round_duration (protocol s) = 0 \<or> message_size (protocol s) = 0 \<or>
        client_set_max (protocol s) < client_set_min (protocol s)) \<and>
     protocol_structure_ok (protocol s) (length (relays s)) \<and>
     \<not> MAX_SUBNET_WIRE < subnet_max_wire C (protocol s) (length (relays s))"

definition validate_structure :: "'z sizes_scheme \<Rightarrow> config_body \<Rightarrow> bool" where
  "validate_structure C b \<longleftrightarrow>
     \<not> (subnets b = [] \<or> MAX_SUBNETS < length (subnets b)) \<and>
     unique (map subnet_id (subnets b)) \<and>
     unique (map (service_tag_bytes \<circ> entry_tag) (services b)) \<and>
     unique (map fst (relay_exchange_keys b)) \<and>
     list_all (subnet_structure_ok C) (subnets b)"

section \<open>Checkpoints of a round\<close>

definition checkpoint_schedule :: "u64 \<Rightarrow> bool \<Rightarrow> usize option \<Rightarrow> (nat \<times> u64) list" where
  "checkpoint_schedule dur quarters consensus_rounds =
     (case consensus_rounds of
        Some ds \<Rightarrow>
          (let n = CONSENSUS_PHASES + ds
           in map (\<lambda>k. (k mod 256, wrapping_mul k dur div (n + 1))) [1 ..< n + 1])
      | None \<Rightarrow>
          if quarters then [(1, dur div 4), (2, dur div 2), (3, wrapping_mul 3 dur div 4)]
          else [(1, dur div 2), (2, dur)])"

text \<open>Times in milliseconds; the deadline is the end of the round.\<close>

definition checkpoint_deadline :: "u64 \<Rightarrow> u64 \<Rightarrow> (nat \<times> u64) list \<Rightarrow> usize \<Rightarrow> u64" where
  "checkpoint_deadline deadline dur schedule cp =
     deadline - (dur - map_or dur snd (slice_get schedule cp))"

section \<open>Rounding\<close>

lemma f64_unit_bounds:
  assumes "0 < unit" "unit = 1 \<or> 2 ^ 52 * unit \<le> n" "\<exists>k. unit = 2 ^ k"
  shows "0 < f64_unit n unit \<and> (f64_unit n unit = 1 \<or> 2 ^ 52 * f64_unit n unit \<le> n) \<and>
    (\<exists>k. f64_unit n unit = 2 ^ k)"
  using assms
proof (induction n unit rule: f64_unit.induct)
  case (1 n unit)
  show ?case
  proof (cases "0 < unit \<and> 2 ^ 53 * unit \<le> n")
    case True
    have "2 ^ 52 * (2 * unit) \<le> n" using True by simp
    moreover have "\<exists>k. 2 * unit = 2 ^ k" using 1(4) by (metis power_Suc)
    ultimately have "0 < f64_unit n (2 * unit) \<and>
        (f64_unit n (2 * unit) = 1 \<or> 2 ^ 52 * f64_unit n (2 * unit) \<le> n) \<and>
        (\<exists>k. f64_unit n (2 * unit) = 2 ^ k)"
      using 1(1) [OF True] True by simp
    with True show ?thesis by (subst (1 2 3 4) f64_unit.simps) simp
  next
    case False
    with 1(2-4) show ?thesis by (subst (1 2 3 4) f64_unit.simps) simp
  qed
qed

lemma round_half_even_le:
  assumes "0 < unit" "n \<le> m * unit"
  shows "round_half_even n unit \<le> m"
proof (cases "n mod unit = 0")
  case True
  have "n div unit \<le> m" using assms by (metis div_le_mono div_mult_self_is_m)
  with True assms(1) show ?thesis by (simp add: round_half_even_def Let_def)
next
  case False
  have "div_ceil n unit \<le> m" using div_ceil_le assms by blast
  with False have "n div unit + 1 \<le> m" by (simp add: div_ceil_def)
  then show ?thesis by (simp add: round_half_even_def Let_def)
qed

lemma round_half_even_ge: "0 < unit \<Longrightarrow> n < (round_half_even n unit + 1) * unit"
proof -
  assume u: "0 < unit"
  have "n < (n div unit + 1) * unit" using u by (metis dividend_less_div_times Suc_eq_plus1 add.commute mult_Suc)
  also have "\<dots> \<le> (round_half_even n unit + 1) * unit"
    by (rule mult_le_mono1) (simp add: round_half_even_def Let_def)
  finally show ?thesis .
qed

text \<open>
  The product with the double 1.2, rounded up: five times the double is one unit short of
  six, the product is at most a multiple of the unit it is rounded to, and the shortfall is
  too small to reach the next integer below.
\<close>

lemma times_1_2_ceil_exact:
  assumes "n < 2 ^ 32"
  shows "times_1_2_ceil n = (6 * n + 4) div 5"
proof (cases "n = 0")
  case True
  then show ?thesis
    by (simp add: times_1_2_ceil_def f64_round_def round_half_even_def f64_unit.simps div_ceil_def Let_def)
next
  case False
  define N where "N = n * F64_1_2"
  define u where "u = f64_unit N 1"
  define k where "k = (6 * n + 4) div 5"
  have five: "5 * N + n = 6 * n * 2 ^ 52" by (simp add: N_def F64_1_2_def)
  have ub: "0 < u" "u = 1 \<or> 2 ^ 52 * u \<le> N" "\<exists>j. u = 2 ^ j"
    using f64_unit_bounds [of 1 N, OF _ _ exI [of _ 0]] unfolding u_def by auto
  have "N < 2 ^ 86" using assms by (simp add: N_def F64_1_2_def)
  then have u34: "u < 2 ^ 34" using ub(2) by auto
  obtain j where j: "u = 2 ^ j" using ub(3) by blast
  then have "j < 34" using u34 by (metis nat_power_less_imp_less zero_less_numeral)
  then have dvd: "u dvd 2 ^ 52" unfolding j by (intro le_imp_power_dvd) simp
  have k1: "6 * n \<le> 5 * k" "5 * k \<le> 6 * n + 4" unfolding k_def by simp_all
  obtain m where m: "k * 2 ^ 52 = m * u" using dvd by (metis dvd_def dvd_mult mult.commute)
  have "6 * n * 2 ^ 52 \<le> 5 * k * 2 ^ 52" using k1(1) by (rule mult_le_mono1)
  then have "N \<le> k * 2 ^ 52" using five by simp
  then have up: "round_half_even N u * u \<le> k * 2 ^ 52"
    using round_half_even_le [OF ub(1), of N m] unfolding m by simp
  have "N < (round_half_even N u + 1) * u" by (rule round_half_even_ge [OF ub(1)])
  then have "N < round_half_even N u * u + 2 ^ 34" using u34 by simp
  moreover have "5 * ((k - 1) * 2 ^ 52) + 5 * 2 ^ 34 < 5 * N"
  proof -
    have "5 * (k - 1) + 1 \<le> 6 * n" using k1(2) False by linarith
    then have "(5 * (k - 1) + 1) * 2 ^ 52 \<le> 6 * n * 2 ^ 52" by (rule mult_le_mono1)
    then show ?thesis using five assms by simp
  qed
  ultimately have low: "(k - 1) * 2 ^ 52 < round_half_even N u * u" by linarith
  have "div_ceil (round_half_even N u * u) (2 ^ 52) \<le> k" using up by (intro div_ceil_le) simp_all
  moreover have "\<not> div_ceil (round_half_even N u * u) (2 ^ 52) \<le> k - 1"
  proof
    assume "div_ceil (round_half_even N u * u) (2 ^ 52) \<le> k - 1"
    then have "div_ceil (round_half_even N u * u) (2 ^ 52) * 2 ^ 52 \<le> (k - 1) * 2 ^ 52"
      by (rule mult_le_mono1)
    with low show False using div_ceil_mult_ge [of "2 ^ 52" "round_half_even N u * u"] by simp
  qed
  ultimately show ?thesis
    unfolding times_1_2_ceil_def f64_round_def N_def [symmetric] u_def [symmetric] k_def [symmetric]
    by simp
qed


lemma isqrt_from_le: "isqrt_from m n \<le> m \<and> isqrt_from m n * isqrt_from m n \<le> n"
  by (induction m) auto

lemma isqrt_from_max: "k \<le> m \<Longrightarrow> k * k \<le> n \<Longrightarrow> k \<le> isqrt_from m n"
  by (induction m) (auto simp: le_Suc_eq)

text \<open>The integer square root is the floor of the square root.\<close>

lemma isqrt_correct: "isqrt n * isqrt n \<le> n \<and> n < (isqrt n + 1) * (isqrt n + 1)"
proof
  show "isqrt n * isqrt n \<le> n" using isqrt_from_le [of n n] by (simp add: isqrt_def)
  show "n < (isqrt n + 1) * (isqrt n + 1)"
  proof (rule ccontr)
    assume "\<not> n < (isqrt n + 1) * (isqrt n + 1)"
    then have sq: "(isqrt n + 1) * (isqrt n + 1) \<le> n" by simp
    then have "isqrt n + 1 \<le> n" by (meson le_square le_trans)
    with sq have "isqrt n + 1 \<le> isqrt_from n n" by (rule isqrt_from_max [rotated])
    then show False by (simp add: isqrt_def)
  qed
qed

lemma aggregator_group_count_bounds:
  assumes "aggregator_group_count cap n = Some g" "n \<le> U32_MAX"
  shows "1 \<le> g \<and> g \<le> n \<and> AGGREGATION_THRESHOLD < cap \<and> g \<le> 1 + cap div 16 \<and> (2 * g) * (2 * g) \<le> cap"
proof -
  from assms have cap: "AGGREGATION_THRESHOLD < cap" and n: "0 < n"
    and g: "g = max (min (min (1 + cap div 16) (isqrt cap div 2)) n) 1"
    by (auto simp: aggregator_group_count_def split: if_splits)
  have "4 \<le> isqrt cap"
  proof (rule ccontr)
    assume "\<not> 4 \<le> isqrt cap"
    then have "isqrt cap + 1 \<le> 4" by simp
    then have "(isqrt cap + 1) * (isqrt cap + 1) \<le> 4 * 4" by (intro mult_le_mono)
    with isqrt_correct [of cap] cap show False by (simp add: AGGREGATION_THRESHOLD_def)
  qed
  then have "g \<le> isqrt cap div 2" using g by (auto simp: max_def min_def)
  then have "2 * g \<le> isqrt cap" by simp
  then have "(2 * g) * (2 * g) \<le> isqrt cap * isqrt cap" by (intro mult_le_mono)
  with isqrt_correct [of cap] have "(2 * g) * (2 * g) \<le> cap" by linarith
  moreover have "1 \<le> g" "g \<le> n" "g \<le> 1 + cap div 16" using n unfolding g by (simp_all add: max_def min_def)
  ultimately show ?thesis using cap by blast
qed

lemma floor_step:
  fixes d m k :: nat
  assumes "0 < m"
  shows "k * d div m + d div m \<le> (k + 1) * d div m"
proof -
  have "(k * d div m + d div m) * m \<le> k * d + d"
    by (simp add: add_mult_distrib add_mono)
  then show ?thesis using assms by (simp add: less_eq_div_iff_mult_less_eq add.commute)
qed

lemma consensus_schedule_nth:
  assumes "CONSENSUS_PHASES + ds < 256" "(CONSENSUS_PHASES + ds) * dur \<le> U64_MAX" "i < CONSENSUS_PHASES + ds"
  shows "checkpoint_schedule dur q (Some ds) ! i =
    (i + 1, (i + 1) * dur div (CONSENSUS_PHASES + ds + 1))"
proof -
  have "(i + 1) * dur \<le> (CONSENSUS_PHASES + ds) * dur" using assms(3) by (intro mult_le_mono1) simp
  then have "wrapping_mul (i + 1) dur = (i + 1) * dur"
    using assms(2) by (intro wrapping_mul_exact) (rule le_trans)
  then show ?thesis using assms(1,3) by (simp add: checkpoint_schedule_def Let_def del: upt_Suc)
qed

lemma consensus_schedule_length: "length (checkpoint_schedule dur q (Some ds)) = CONSENSUS_PHASES + ds"
  by (simp add: checkpoint_schedule_def Let_def del: upt_Suc)


section \<open>Main results\<close>

text \<open>
  C40. The capacity the committee gives a subnet with \<open>n\<close> observed clients is the larger of
  \<open>n + 10\<close> and 120 percent of \<open>n\<close> rounded up, computed through doubles without loss; it
  always leaves room for more clients than were seen.
\<close>

theorem size_capacity_exact:
  assumes "n \<le> 3000000000"
  shows "size_capacity n = max (n + 10) ((6 * n + 4) div 5) \<and> n < size_capacity n \<and>
    MIN_CAPACITY \<le> size_capacity n"
proof -
  have "times_1_2_ceil n = (6 * n + 4) div 5" using assms by (intro times_1_2_ceil_exact) simp
  moreover have "saturating_add n 10 = n + 10"
    using assms by (intro saturating_add_exact) (simp add: U64_MAX_def)
  moreover have "max (n + 10) ((6 * n + 4) div 5) \<le> U32_MAX" using assms by (simp add: U32_MAX_def)
  ultimately have "size_capacity n = max (max (n + 10) ((6 * n + 4) div 5)) 8"
    by (simp add: size_capacity_def MIN_CAPACITY_def Let_def)
  moreover have "max (max (n + 10) k) 8 = max (n + 10) k" "n < max (n + 10) k" "8 \<le> max (n + 10) k" for k
    by (simp_all add: max_def)
  ultimately show ?thesis by (simp only: MIN_CAPACITY_def)
qed

theorem size_capacity_exact_witness: "size_capacity 250 = 300 \<and> size_capacity 3 = 13"
  using size_capacity_exact [of 250] size_capacity_exact [of 3] by simp

text \<open>
  Aggregation of a subnet with distinct relays is well formed: the group aggregators
  are distinct relays of the subnet, there is at least one of them, and four times the
  square of their number is at most the capacity, so a group serves at least four clients
  for each group there is.
\<close>

theorem subnet_aggregation_well_formed:
  assumes "build_subnet_aggregation cap rs = Some a" "distinct rs" "length rs \<le> U32_MAX"
  shows "aggregation_structural_ok (Some a) \<and> set (map aggregator (groups a)) \<subseteq> set rs \<and>
    AGGREGATION_THRESHOLD < cap \<and> 4 * length (groups a) * length (groups a) \<le> cap"
proof -
  from assms(1) obtain g where g: "aggregator_group_count cap (length rs) = Some g"
    and a: "map aggregator (groups a) = take g rs" "length (groups a) = min g (length rs)"
    by (auto simp: build_subnet_aggregation_def comp_def)
  note b = aggregator_group_count_bounds [OF g assms(3)]
  have len: "length (groups a) = g" using a(2) b by simp
  moreover have "4 * g * g = (2 * g) * (2 * g)" by simp
  ultimately show ?thesis
    using a(1) b assms(2)
    by (auto simp: aggregation_structural_ok_def unique_iff_distinct dest: in_set_takeD)
qed

theorem subnet_aggregation_well_formed_witness:
  "\<exists>a. build_subnet_aggregation 100 demo_peers = Some a \<and> aggregation_structural_ok (Some a)"
proof -
  obtain a where a: "build_subnet_aggregation 100 demo_peers = Some a"
    by (simp add: build_subnet_aggregation_def aggregator_group_count_def AGGREGATION_THRESHOLD_def
        demo_peers_def)
  moreover have "distinct demo_peers" "length demo_peers \<le> U32_MAX" by code_simp+
  ultimately show ?thesis using subnet_aggregation_well_formed [of 100 demo_peers a] by blast
qed

text \<open>
  A subnet whose set formation passes the cadence check has evenly spread checkpoints:
  numbered from one, the first at least one phase after the start of the round, each at
  least one phase after the one before, and the last at least one phase before the end.
\<close>

theorem consensus_checkpoints_spread:
  assumes "consensus_cadence_fits dur Consensus n t" "t \<le> n" "n \<le> MAX_COMMITTEE_RELAYS"
    and "U64_MAX \<ge> 32 * dur" "sched = checkpoint_schedule dur q (Some (n - t + 1))" "0 < n"
    and "i < length sched"
  shows "fst (sched ! i) = i + 1 \<and>
    (if i = 0 then CONSENSUS_PHASE_MS \<le> snd (sched ! i)
     else snd (sched ! (i - 1)) + CONSENSUS_PHASE_MS \<le> snd (sched ! i)) \<and>
    snd (sched ! i) + CONSENSUS_PHASE_MS \<le> dur"
proof -
  define m where "m = CONSENSUS_PHASES + (n - t + 1) + 1"
  have m: "0 < m" "m \<le> 32" using assms(3) by (auto simp: m_def sizing_consts)
  have "m * CONSENSUS_PHASE_MS \<le> dur"
    using assms(1,6) by (simp add: consensus_cadence_fits_def m_def max_absorb1 Let_def)
  then have phase: "CONSENSUS_PHASE_MS \<le> dur div m"
    using m(1) by (simp add: less_eq_div_iff_mult_less_eq mult.commute)
  have i: "i + 1 < m" using assms(5,7) by (simp add: consensus_schedule_length m_def)
  have "m * dur \<le> 32 * dur" using m(2) by (rule mult_le_mono1)
  then have fit: "(m - 1) * dur \<le> U64_MAX"
    using assms(4) by (meson diff_le_self le_trans mult_le_mono1)
  have nth: "sched ! j = (j + 1, (j + 1) * dur div m)" if "j < m - 1" for j
    using consensus_schedule_nth [of "n - t + 1" dur j q] that fit m(2) assms(5)
    by (simp add: m_def)
  have step: "k * dur div m + CONSENSUS_PHASE_MS \<le> (k + 1) * dur div m" for k
    using floor_step [OF m(1), of k dur] phase by linarith
  have "(i + 2) * dur div m \<le> m * dur div m" using i by (intro div_le_mono mult_le_mono1) simp
  then have "(i + 1) * dur div m + CONSENSUS_PHASE_MS \<le> dur"
    using step [of "i + 1"] m(1) by (simp add: add.assoc)
  moreover have "if i = 0 then CONSENSUS_PHASE_MS \<le> snd (sched ! i)
     else snd (sched ! (i - 1)) + CONSENSUS_PHASE_MS \<le> snd (sched ! i)"
    using step [of i] nth [of i] nth [of "i - 1"] i by (cases i) auto
  ultimately show ?thesis using nth [of i] i by simp
qed

theorem consensus_checkpoints_spread_witness:
  "fst (checkpoint_schedule 2000 False (Some 2) ! 4) = 5 \<and>
   snd (checkpoint_schedule 2000 False (Some 2) ! 3) + CONSENSUS_PHASE_MS \<le>
     snd (checkpoint_schedule 2000 False (Some 2) ! 4)"
proof -
  have 1: "consensus_cadence_fits 2000 Consensus 3 2" by code_simp
  have 2: "(3::nat) \<le> MAX_COMMITTEE_RELAYS" "U64_MAX \<ge> 32 * 2000" by code_simp+
  have 3: "4 < length (checkpoint_schedule 2000 False (Some 2))" by code_simp
  have 4: "(3::nat) - 2 + 1 = 2" by simp
  show ?thesis
    using consensus_checkpoints_spread [OF 1 _ 2, of "checkpoint_schedule 2000 False (Some 2)" False 4] 3
    unfolding 4 by simp
qed

definition oversized_noop :: noop_config where
  "oversized_noop = default_noop_config\<lparr>nc_message_size := 2 ^ 61, nc_client_set_max := 8\<rparr>"

text \<open>
  The size check of a Noop subnet multiplies without care for overflow: for any
  estimator of the other protocols, a configuration with a Noop subnet for eight clients
  and messages of \<open>2 ^ 61\<close> bytes passes every structural check, though one round of it is
  far above the size limit.
\<close>

theorem noop_size_check_wraps:
  "validate_structure C ((demo_body r)\<lparr>subnets := [new_subnet 0 demo_committee (Noop oversized_noop)]\<rparr>) \<and>
   MAX_SUBNET_WIRE < nc_client_set_max oversized_noop * nc_message_size oversized_noop"
proof -
  have "unique demo_committee" "demo_committee \<noteq> []" "length demo_committee \<le> MAX_COMMITTEE_RELAYS"
    by code_simp+
  moreover have "max_wire_estimate (nc_message_size oversized_noop) (nc_client_set_max oversized_noop)
      (nc_client_set_max oversized_noop) n = 64" for n
    by (simp add: max_wire_estimate_def oversized_noop_def wrapping_mul_def wrapping_add_def U64_MAX_def)
  moreover have "f32_in_unit F32_ONE" by (simp add: f32_in_unit_def)
  moreover have "unique ([] :: nat list)" "unique ([] :: bytes list)" "unique ([] :: pubkey list)" "unique [0 :: nat]"
    by (simp_all add: unique_iff_distinct)
  ultimately show ?thesis
    by (simp add: validate_structure_def subnet_structure_ok_def new_subnet_def demo_body_def
        singleton_subnet_def new_configuration_def sizing_consts oversized_noop_def default_noop_config_def)
qed

end
