(* ===== verification/Runtime_Rules.thy ===== *)
theory Runtime_Rules
  imports Governance Session "HOL-Library.Multiset"
begin

text \<open>
  The rules of the runtime that every node computes on its own and must agree on
  (\<open>anymone-core/src/runtime.rs\<close>): the round clock, the leader of a subnet, what a node
  listens to, where a client sends its contribution, and which faults were already
  reported. A panic of the source is the value \<open>None\<close>.
\<close>

section \<open>The round clock\<close>

definition round_at :: "round \<Rightarrow> u64 \<Rightarrow> u64 \<Rightarrow> u64 \<Rightarrow> round option" where
  "round_at base_round epoch dur_ms now_ms =
     (if now_ms \<le> epoch then Some base_round
      else if dur_ms = 0 then None
      else Some (wrapping_add base_round ((now_ms - epoch) div dur_ms)))"

text \<open>The end of a round, in 64-bit arithmetic, and the wait until then.\<close>

definition boundary_ms :: "round \<Rightarrow> round \<Rightarrow> u64 \<Rightarrow> u64 \<Rightarrow> u64" where
  "boundary_ms r base_round epoch dur_ms =
     nat ((int epoch + (int r - int base_round + 1) * int dur_ms) mod 2 ^ 64)"

definition deadline_for :: "round \<Rightarrow> round \<Rightarrow> u64 \<Rightarrow> u64 \<Rightarrow> u64 \<Rightarrow> u64" where
  "deadline_for r base_round epoch dur_ms now_ms = boundary_ms r base_round epoch dur_ms - now_ms"

text \<open>The next round a driver runs when it wakes up: never one it already ran.\<close>

definition next_round :: "round \<Rightarrow> round \<Rightarrow> u64 \<Rightarrow> u64 \<Rightarrow> u64 \<Rightarrow> round option" where
  "next_round r base_round epoch dur_ms now_ms =
     map_option (\<lambda>n. max n (wrapping_add r 1)) (round_at base_round epoch dur_ms now_ms)"

section \<open>Subnet roles\<close>

definition subnet_runnable :: "subnet \<Rightarrow> bool" where
  "subnet_runnable s \<longleftrightarrow> relays s \<noteq> [] \<and>
     (case protocol s of
        Adcnet _ \<Rightarrow> True | ScheduledAdcnet _ \<Rightarrow> True | Panetiere _ \<Rightarrow> True
      | ScheduledPanetiere _ \<Rightarrow> True | Noop _ \<Rightarrow> True)"

definition leader_of :: "pubkey list \<Rightarrow> subnet_id \<Rightarrow> pubkey option" where
  "leader_of sorted_roster i =
     (if sorted_roster = [] then None else Some (sorted_roster ! (i mod length sorted_roster)))"

definition subnet_leader_pk :: "subnet \<Rightarrow> pubkey option" where
  "subnet_leader_pk s = leader_of (sort (relays s)) (subnet_id s)"

definition aggregator_group_of :: "aggregation \<Rightarrow> pubkey \<Rightarrow> u32 option" where
  "aggregator_group_of a me = map_option as_u32 (position (\<lambda>g. aggregator g = me) (groups a))"

text \<open>
  The outer \<open>None\<close> is the panic of a remainder by zero, which an empty group list (or one
  of exactly \<open>2 ^ 32\<close> groups) would cause.
\<close>

definition client_aggregator :: "subnet \<Rightarrow> pubkey \<Rightarrow> pubkey option option" where
  "client_aggregator s me =
     (case subnet_aggregation s of
        None \<Rightarrow> Some None
      | Some a \<Rightarrow>
          (let n = as_u32 (length (groups a)) in
           if n = 0 then None
           else Some (Some (aggregator
             (groups a ! (from_be_bytes (take 4 (pubkey_bytes me)) mod n))))))"

definition combines :: "subnet \<Rightarrow> pubkey \<Rightarrow> bool option" where
  "combines s me =
     (case protocol s of
        Panetiere _ \<Rightarrow> Some (me \<in> set (relays s))
      | ScheduledPanetiere _ \<Rightarrow> Some (me \<in> set (relays s))
      | ScheduledAdcnet _ \<Rightarrow> Some (me \<in> set (relays s))
      | Adcnet _ \<Rightarrow> map_option (\<lambda>l. l = me) (subnet_leader_pk s)
      | Noop _ \<Rightarrow> Some False)"

definition broadcast_too :: "subnet \<Rightarrow> bool" where
  "broadcast_too s \<longleftrightarrow>
     (case protocol s of ScheduledPanetiere _ \<Rightarrow> True | ScheduledAdcnet _ \<Rightarrow> True | _ \<Rightarrow> False) \<or>
     protocol_set_formation (protocol s) = Consensus"

definition subnet_subscriptions :: "subnet \<Rightarrow> pubkey \<Rightarrow> (topic list \<times> bool) option" where
  "subnet_subscriptions s me =
     (case combines s me of
        None \<Rightarrow> None
      | Some c \<Rightarrow>
          (let topics = (if c then [Shares (subnet_id s)] else [Broadcast (subnet_id s)]);
               topics1 = (if c \<and> broadcast_too s then topics @ [Broadcast (subnet_id s)] else topics)
           in Some
             (if is_some_and (\<lambda>a. aggregator_group_of a me \<noteq> None) (subnet_aggregation s)
              then (if Shares (subnet_id s) \<in> set topics1 then topics1
                    else topics1 @ [Shares (subnet_id s)], True)
              else (topics1, c))))"

definition subnet_uses_ingress :: "subnet \<Rightarrow> bool" where
  "subnet_uses_ingress s =
     (case protocol s of
        Adcnet _ \<Rightarrow> True | ScheduledAdcnet _ \<Rightarrow> True | Panetiere _ \<Rightarrow> True
      | ScheduledPanetiere _ \<Rightarrow> True | Noop _ \<Rightarrow> False)"

section \<open>Lemmas\<close>

lemma round_at_exact:
  assumes "epoch \<le> now" "0 < dur" "base + (now - epoch) div dur \<le> U64_MAX"
  shows "round_at base epoch dur now = Some (base + (now - epoch) div dur)"
proof (cases "now = epoch")
  case False
  then show ?thesis using assms by (simp add: round_at_def wrapping_add_exact)
qed (simp add: round_at_def)

lemma boundary_ms_exact:
  assumes "base \<le> r" "epoch + (r - base + 1) * dur \<le> U64_MAX"
  shows "boundary_ms r base epoch dur = epoch + (r - base + 1) * dur"
proof -
  have "int epoch + (int r - int base + 1) * int dur = int (epoch + (r - base + 1) * dur)"
    using assms(1) by (simp only: of_nat_add of_nat_mult of_nat_diff of_nat_1)
  moreover have "(int (epoch + (r - base + 1) * dur)) mod 2 ^ 64 = int (epoch + (r - base + 1) * dur)"
  proof (rule mod_pos_pos_trivial)
    have "int (epoch + (r - base + 1) * dur) \<le> int U64_MAX" using assms(2) by linarith
    also have "int U64_MAX < 2 ^ 64" by (simp add: U64_MAX_def)
    finally show "int (epoch + (r - base + 1) * dur) < 2 ^ 64" .
  qed simp
  ultimately show ?thesis unfolding boundary_ms_def by (simp only: nat_int)
qed

lemma subnet_leader_member: "subnet_leader_pk s = Some l \<Longrightarrow> l \<in> set (relays s)"
proof -
  assume "subnet_leader_pk s = Some l"
  then have "l = sort (relays s) ! (subnet_id s mod length (relays s))" "relays s \<noteq> []"
    by (auto simp: subnet_leader_pk_def leader_of_def split: if_splits)
  then have "l \<in> set (sort (relays s))"
    by (metis length_greater_0_conv length_sort mod_less_divisor nth_mem)
  then show ?thesis by simp
qed

lemma position_Some_iff: "(\<exists>i. position P xs = Some i) \<longleftrightarrow> (\<exists>x \<in> set xs. P x)"
  using position_None [of P xs] by auto

lemma aggregator_group_of_None:
  "aggregator_group_of a me \<noteq> None \<longleftrightarrow> (\<exists>g \<in> set (groups a). aggregator g = me)"
  using position_Some_iff [of "\<lambda>g. aggregator g = me" "groups a"]
  by (auto simp: aggregator_group_of_def)

lemma window_residue:
  fixes n :: nat
  assumes "0 < n" "j < n"
  shows "\<exists>!i. i < n \<and> (k + i) mod n = j"
proof -
  have "inj_on (\<lambda>i. (k + i) mod n) {..<n}"
  proof (rule inj_onI)
    fix x y
    assume xy: "x \<in> {..<n}" "y \<in> {..<n}" "(k + x) mod n = (k + y) mod n"
    then obtain p q where "k + x + n * p = k + y + n * q" by (metis nat_mod_eq_iff)
    then have "x + n * p = y + n * q" by simp
    then have "x mod n = y mod n" by (metis nat_mod_eq_iff)
    with xy(1,2) show "x = y" by simp
  qed
  moreover have "(\<lambda>i. (k + i) mod n) ` {..<n} \<subseteq> {..<n}" using assms(1) by auto
  ultimately have "(\<lambda>i. (k + i) mod n) ` {..<n} = {..<n}"
    by (simp add: endo_inj_surj)
  then have "j \<in> (\<lambda>i. (k + i) mod n) ` {..<n}" using assms(2) by simp
  then obtain i where i: "i < n" "(k + i) mod n = j" by blast
  show ?thesis
  proof (rule ex1I [of _ i])
    fix i'
    assume "i' < n \<and> (k + i') mod n = j"
    then show "i' = i"
      using i inj_onD [OF \<open>inj_on (\<lambda>i. (k + i) mod n) {..<n}\<close>, of i' i] by simp
  qed (use i in simp)
qed

section \<open>Main results\<close>

text \<open>
  The round clock is consistent: at any time after the epoch the current round's
  boundary lies ahead by at most one round duration, the round stays the same until then,
  and at the boundary it is the next round.
\<close>

theorem round_clock_consistent:
  assumes "epoch \<le> now" "0 < dur" "now + dur \<le> U64_MAX" "base + now + 1 \<le> U64_MAX"
  shows "\<exists>r b. round_at base epoch dur now = Some r \<and> b = boundary_ms r base epoch dur \<and>
    now < b \<and> b \<le> now + dur \<and> deadline_for r base epoch dur now = b - now \<and>
    (\<forall>t. now \<le> t \<and> t < b \<longrightarrow> round_at base epoch dur t = Some r) \<and>
    round_at base epoch dur b = Some (r + 1)"
proof -
  define q where "q = (now - epoch) div dur"
  have lo: "q * dur \<le> now - epoch" unfolding q_def by simp
  have hi: "now - epoch < (q + 1) * dur"
    unfolding q_def using assms(2) by (metis dividend_less_div_times Suc_eq_plus1 mult.commute mult_Suc)
  have q_le: "q \<le> now" unfolding q_def by (meson diff_le_self div_le_dividend le_trans)
  have b: "boundary_ms (base + q) base epoch dur = epoch + (q + 1) * dur"
    using boundary_ms_exact [of base "base + q" epoch dur] lo assms(1,3) by simp
  have same: "round_at base epoch dur t = Some (base + q)"
    if "now \<le> t" "t < epoch + (q + 1) * dur" for t
  proof -
    have "q * dur \<le> t - epoch" "t - epoch < Suc q * dur" using that lo hi assms(1) by auto
    then have "(t - epoch) div dur = q" using assms(2) by (metis div_nat_eqI mult.commute)
    then show ?thesis
      using round_at_exact [of epoch t dur base] that assms q_le by simp
  qed
  have "round_at base epoch dur (epoch + (q + 1) * dur) = Some (base + q + 1)"
    using round_at_exact [of epoch "epoch + (q + 1) * dur" dur base] assms(2,4) q_le
    by (simp del: mult_Suc add_mult_distrib)
  then show ?thesis
    using same [of now] same lo hi assms(1) b
    by (intro exI [of _ "base + q"] exI [of _ "epoch + (q + 1) * dur"])
       (auto simp: deadline_for_def)
qed

theorem round_clock_consistent_witness:
  "\<exists>r b. round_at 5 1000 400 1850 = Some r \<and> b = boundary_ms r 5 1000 400 \<and> 1850 < b \<and>
    b \<le> 1850 + 400 \<and> round_at 5 1000 400 b = Some (r + 1)"
  using round_clock_consistent [of 1000 1850 400 5] by (auto simp: U64_MAX_def)

text \<open>
  Every node computes the same leader, and leadership rotates fairly: the leader
  depends on the set of relays and the subnet id only, not on the order of the list, and
  among any run of as many consecutive ids as there are relays, each relay leads once.
\<close>

theorem leader_rotates:
  assumes "distinct rs" "mset rs' = mset rs"
  shows "subnet_leader_pk (s\<lparr>relays := rs'\<rparr>) = subnet_leader_pk (s\<lparr>relays := rs\<rparr>) \<and>
    (pk \<in> set rs \<longrightarrow>
      (\<exists>!i. i < length rs \<and> leader_of (sort rs) (k + i) = Some pk))"
proof
  show "subnet_leader_pk (s\<lparr>relays := rs'\<rparr>) = subnet_leader_pk (s\<lparr>relays := rs\<rparr>)"
    using assms(2) by (simp add: subnet_leader_pk_def) (metis mset_sort properties_for_sort sorted_sort)
  show "pk \<in> set rs \<longrightarrow> (\<exists>!i. i < length rs \<and> leader_of (sort rs) (k + i) = Some pk)"
  proof
    assume "pk \<in> set rs"
    then obtain j where j: "j < length rs" "sort rs ! j = pk"
      by (metis in_set_conv_nth length_sort set_sort)
    have ne: "sort rs \<noteq> []" using j(1) by (metis length_sort less_nat_zero_code list.size(3))
    have "x mod length rs < length rs" for x using j(1) by (intro mod_less_divisor) linarith
    then have "sort rs ! (x mod length rs) = sort rs ! j \<longleftrightarrow> x mod length rs = j" for x
      using j(1) assms(1) by (intro nth_eq_iff_index_eq) simp_all
    then have "leader_of (sort rs) x = Some pk \<longleftrightarrow> x mod length rs = j" for x
      using j(2) ne by (simp add: leader_of_def)
    then show "\<exists>!i. i < length rs \<and> leader_of (sort rs) (k + i) = Some pk"
      using window_residue [OF _ j(1), of k] j(1) by (cases "rs = []") simp_all
  qed
qed

theorem leader_rotates_witness:
  "subnet_leader_pk ((new_subnet 4 [] (Noop default_noop_config))\<lparr>relays := rev demo_peers\<rparr>) =
   subnet_leader_pk ((new_subnet 4 [] (Noop default_noop_config))\<lparr>relays := demo_peers\<rparr>)"
proof -
  have "distinct demo_peers" by code_simp
  then show ?thesis
    using leader_rotates [of demo_peers "rev demo_peers"] by simp
qed

text \<open>
  What a client sends is heard: the aggregator a client picks in an aggregated subnet
  reads its inbox and the shares topic of that subnet, and the configuration's admission
  policy lets it publish its aggregate there.
\<close>

theorem client_aggregator_listens:
  assumes "client_aggregator s me = Some (Some agg)" "relays s \<noteq> []"
    and "s \<in> set (subnets b)" "distinct (map subnet_id (subnets b))"
  shows "(\<exists>topics. subnet_subscriptions s agg = Some (topics, True) \<and> Shares (subnet_id s) \<in> set topics) \<and>
    may_publish b committee agg (Shares (subnet_id s))"
proof -
  from assms(1) obtain a where a: "subnet_aggregation s = Some a" "as_u32 (length (groups a)) \<noteq> 0"
    and agg: "agg = aggregator (groups a ! (from_be_bytes (take 4 (pubkey_bytes me)) mod as_u32 (length (groups a))))"
    by (auto simp: client_aggregator_def Let_def split: option.splits if_splits)
  have "as_u32 (length (groups a)) \<le> length (groups a)" by (simp add: as_u32_def)
  then have "from_be_bytes (take 4 (pubkey_bytes me)) mod as_u32 (length (groups a)) < length (groups a)"
    using a(2) by (meson mod_less_divisor less_le_trans neq0_conv)
  then have g: "\<exists>g \<in> set (groups a). aggregator g = agg" using agg nth_mem by blast
  then have grp: "aggregator_group_of a agg \<noteq> None"
    by (simp add: aggregator_group_of_None del: not_None_eq)
  have "sort (relays s) \<noteq> []" using assms(2) by (metis set_empty set_sort)
  then have "combines s agg \<noteq> None"
    by (cases "protocol s") (simp_all add: combines_def subnet_leader_pk_def leader_of_def)
  then obtain c where c: "combines s agg = Some c" by blast
  have "agg \<in> set (subnet_aggregators s)"
    using g by (auto simp: subnet_aggregators_def a(1))
  moreover have "\<forall>s' \<in> set (subnets b). subnet_id s' = subnet_id s \<longrightarrow> s' = s"
    using assms(3,4) by (metis distinct_map inj_onD)
  ultimately have "may_publish b committee agg (Shares (subnet_id s))"
    unfolding may_publish.simps by blast
  moreover have "\<exists>topics. subnet_subscriptions s agg = Some (topics, True) \<and> Shares (subnet_id s) \<in> set topics"
    using grp by (simp add: subnet_subscriptions_def c a(1) Let_def)
  ultimately show ?thesis by blast
qed

definition demo_aggregated :: subnet where
  "demo_aggregated = new_subnet 3 demo_peers
     (Adcnet \<lparr>ac_round_duration_ms = 1000, ac_max_payload_bytes = 100, ac_estimated_messages = 4,
       ac_client_set_min = 0, ac_client_set_max = 8,
       ac_aggregation = Some \<lparr>groups = [\<lparr>aggregator = Pubkey [7]\<rparr>, \<lparr>aggregator = Pubkey [8]\<rparr>]\<rparr>\<rparr>)"

theorem client_aggregator_listens_witness:
  "may_publish ((demo_body 7)\<lparr>subnets := [demo_aggregated]\<rparr>) [] (Pubkey [8]) (Shares 3)"
proof -
  have 1: "client_aggregator demo_aggregated (Pubkey [0, 0, 0, 5]) = Some (Some (Pubkey [8]))"
    by code_simp
  have 2: "relays demo_aggregated \<noteq> []" by code_simp
  have 3: "demo_aggregated \<in> set (subnets ((demo_body 7)\<lparr>subnets := [demo_aggregated]\<rparr>))" by simp
  have 4: "distinct (map subnet_id (subnets ((demo_body 7)\<lparr>subnets := [demo_aggregated]\<rparr>)))" by simp
  have "subnet_id demo_aggregated = 3" by code_simp
  with client_aggregator_listens [OF 1 2 3 4, of "[]"] show ?thesis by metis
qed

end
