(* ===== verification/Scheduler.thy ===== *)
theory Scheduler
  imports Sizing Runtime_Rules
begin

text \<open>
  A committee member's scheduler (\<open>anymone-core/src/scheduler_core.rs\<close>): registrations and
  faults, the tick that sizes the network and lets the lead propose, the checks before a
  member approves a proposal, and the assembly of threshold-signed configurations. The
  source returns the effects it wants performed; so does the model. Log lines are left out.

  A panic of the source is the value \<open>None\<close>. Readings of the clock are arguments. The wire
  forms of the committee's own messages are fields of the record \<open>sched_codecs\<close>.
\<close>

section \<open>Data\<close>

datatype scheduler_action = StageProposal bytes | Publish topic bytes

record committee_sig =
  cs_body_bytes :: bytes
  cs_signer :: pubkey
  cs_signature :: bytes

record signed_proposal =
  pr_body :: config_body
  proposer :: pubkey
  pr_signature :: bytes

record fault_report =
  fr_round :: round
  fr_subnet :: subnet_id
  fr_reporter :: pubkey
  fr_fault :: fault

datatype scheduler_protocol =
  SpAdcnet | SpPanetiere | SpScheduledPanetiere | SpNoop | SpScheduledAdcnet

text \<open>\<open>public_round_duration\<close> is kept in milliseconds, the only unit it is read in.\<close>

record scheduler_params =
  pm_round_duration_ms :: u64
  min_relays :: usize
  min_services :: usize
  pm_fault_threshold :: u64
  grow_at :: u32
  pm_message_size :: usize
  integrity_backoff_ms :: u64
  min_capacity :: u32
  sideline :: bool
  renegotiate_on_fault :: bool
  pm_vector_bytes :: usize
  pin :: "scheduler_protocol option"
  pm_aggregation :: bool
  pm_encoding :: encoding
  pm_set_formation :: set_formation
  attested_subnets :: "subnet_id list"
  pm_attestation :: attestation_policy

definition default_params :: scheduler_params where
  "default_params =
     \<lparr>pm_round_duration_ms = 1000, min_relays = 1, min_services = 1, pm_fault_threshold = 2,
      grow_at = SUBNET_GROW_AT, pm_message_size = 256, integrity_backoff_ms = INTEGRITY_BACKOFF_MS,
      min_capacity = INITIAL_CAPACITY, sideline = True, renegotiate_on_fault = True,
      pm_vector_bytes = 0, pin = None, pm_aggregation = True, pm_encoding = Prony,
      pm_set_formation = Leader, attested_subnets = [], pm_attestation = default_attestation\<rparr>"

type_synonym subnet_sig = "subnet_id \<times> pubkey list \<times> scheduler_protocol option"

text \<open>\<open>scheduled_vectors\<close> keeps the one field of \<open>ScheduledVector\<close>, the width.\<close>

record core =
  sc_identity :: identity
  committee :: "pubkey list"
  sc_threshold :: u32
  is_lead :: bool
  lead :: pubkey
  last_accepted_round :: "round option"
  sc_cur_round :: round
  seen_integrity_faults :: "(subnet_id \<times> round \<times> pubkey) fset"
  sc_epoch_unix_ms :: "u64 option"
  params :: scheduler_params
  registered :: "pubkey fset"
  sidelined :: "pubkey fset"
  integrity_offenders :: "(pubkey, u64) fmap"
  scheduled_vectors :: "(subnet_id, usize) fmap"
  sc_services :: "(service_tag, pubkey) fmap"
  relay_xpubs :: "(pubkey, xk_wire) fmap"
  sc_relay_client_addrs :: "(pubkey, string) fmap"
  node_rpc_urls :: "(pubkey, string) fmap"
  service_descriptor_urls :: "(service_tag, string) fmap"
  sc_watchers :: "pubkey fset"
  observers :: "(subnet_id, public_observer) fmap"
  observer_grace :: "(subnet_id, u32) fmap"
  subnet_round_ms :: "(subnet_id, u64) fmap"
  current_subnets_sig :: "subnet_sig list"
  subnet_count :: usize
  shrink_streak :: u32
  capacity_streak :: u32
  capacity :: u32
  sc_cover_rate :: f32
  last_content :: "bytes option"
  public_round :: round
  published_round :: "round option"
  sigs :: "(bytes, (pubkey, bytes) fmap) fmap"
  published :: "bytes fset"

record sched_codecs = sizes +
  proposal_bytes :: "signed_proposal \<Rightarrow> bytes"
  committee_sig_bytes :: "committee_sig \<Rightarrow> bytes"

definition new_core ::
    "'z crypto_scheme \<Rightarrow> identity \<Rightarrow> pubkey list \<Rightarrow> u32 \<Rightarrow> scheduler_params \<Rightarrow> core" where
  "new_core C i cs t p =
     (let our_pk = identity_pubkey C i;
          sorted = sort cs;
          l = (if sorted = [] then our_pk else hd sorted)
      in \<lparr>sc_identity = i, committee = cs, sc_threshold = t, is_lead = (l = our_pk), lead = l,
          last_accepted_round = None, sc_cur_round = 0, seen_integrity_faults = {||},
          sc_epoch_unix_ms = None, params = p, registered = {||}, sidelined = {||},
          integrity_offenders = fmempty, scheduled_vectors = fmempty, sc_services = fmempty,
          relay_xpubs = fmempty, sc_relay_client_addrs = fmempty, node_rpc_urls = fmempty,
          service_descriptor_urls = fmempty, sc_watchers = {||}, observers = fmempty,
          observer_grace = fmempty, subnet_round_ms = fmempty, current_subnets_sig = [],
          subnet_count = 1, shrink_streak = 0, capacity_streak = 0,
          capacity = max (min_capacity p) INITIAL_CAPACITY, sc_cover_rate = F32_ONE,
          last_content = None, public_round = 0, published_round = None, sigs = fmempty,
          published = {||}\<rparr>)"

definition set_cover_rate :: "f32 \<Rightarrow> core \<Rightarrow> core" where
  "set_cover_rate rate s = s\<lparr>sc_cover_rate := f32_clamp_unit rate\<rparr>"

section \<open>Registrations, traffic and faults\<close>

text \<open>\<open>match opt { Some(v) => m.insert(k, v), None => m.remove(k) }\<close>\<close>

definition set_or_remove :: "'k \<Rightarrow> 'v option \<Rightarrow> ('k, 'v) fmap \<Rightarrow> ('k, 'v) fmap" where
  "set_or_remove k v m = (case v of Some x \<Rightarrow> fmupd k x m | None \<Rightarrow> fmdrop k m)"

fun on_registration :: "registration \<Rightarrow> core \<Rightarrow> core" where
  "on_registration (Watcher pk sg) s = s\<lparr>sc_watchers := finsert pk (sc_watchers s)\<rparr>"
| "on_registration (Relay pk xk client_addr rpc_url sg) s =
     (if pk |\<in>| fmdom (integrity_offenders s) then s
      else s\<lparr>sidelined := sidelined s |-| {|pk|},
             registered := finsert pk (registered s),
             node_rpc_urls := set_or_remove pk rpc_url (node_rpc_urls s),
             relay_xpubs := fmupd pk xk (relay_xpubs s),
             sc_relay_client_addrs := set_or_remove pk client_addr (sc_relay_client_addrs s)\<rparr>)"
| "on_registration (Service tag pk xk descriptor_url sg) s =
     s\<lparr>service_descriptor_urls := set_or_remove tag descriptor_url (service_descriptor_urls s),
       sc_services := fmupd tag pk (sc_services s)\<rparr>"

definition on_subnet_message ::
    "'z wire_codecs_scheme \<Rightarrow> subnet_id \<Rightarrow> pubkey \<Rightarrow> bytes \<Rightarrow> core \<Rightarrow> core" where
  "on_subnet_message C i from bs s =
     (case fmlookup (observers s) i of
        Some ob \<Rightarrow> s\<lparr>observers := fmupd i (po_on_inbound C from bs ob) (observers s)\<rparr>
      | None \<Rightarrow> s)"

text \<open>The inner loop over the peers of one fault, and one fault.\<close>

definition sideline_peer :: "bool \<Rightarrow> u64 \<Rightarrow> pubkey \<Rightarrow> core \<Rightarrow> core" where
  "sideline_peer integrity now pk s =
     (if \<not> sideline (params s) then s
      else (let s1 = s\<lparr>registered := registered s |-| {|pk|}, sidelined := finsert pk (sidelined s)\<rparr>
            in if integrity then s1\<lparr>integrity_offenders := fmupd pk now (integrity_offenders s1)\<rparr>
               else s1))"

definition apply_fault :: "u64 \<Rightarrow> fault \<Rightarrow> core \<Rightarrow> core" where
  "apply_fault now f s =
     (case fault_attribution f of
        Peers pks \<Rightarrow> fold (sideline_peer (kind f = Integrity) now) pks s
      | Unattributed \<Rightarrow> s)"

definition apply_observed_faults :: "subnet_id \<Rightarrow> fault list \<Rightarrow> u64 \<Rightarrow> core \<Rightarrow> core" where
  "apply_observed_faults i fs now s =
     (if fs = [] then s
      else if \<not> renegotiate_on_fault (params s) then s
      else fold (apply_fault now) fs s)"

definition report_in_window :: "round \<Rightarrow> u64 \<Rightarrow> bool" where
  "report_in_window r frontier \<longleftrightarrow>
     frontier \<le> saturating_add r FAULT_REPORT_ROUND_WINDOW \<and>
     r \<le> saturating_add frontier FAULT_REPORT_ROUND_WINDOW"

definition on_fault_report ::
    "'z wire_codecs_scheme \<Rightarrow> pubkey \<Rightarrow> fault_report \<Rightarrow> u64 \<Rightarrow> core \<Rightarrow> core" where
  "on_fault_report C from report now s =
     (if kind (fr_fault report) \<noteq> Integrity then s
      else case find (\<lambda>(i, _, _). i = fr_subnet report) (current_subnets_sig s) of
        None \<Rightarrow> s
      | Some (_, peers, _) \<Rightarrow>
          if peers = [] then s
          else if from \<notin> set peers then s
          else if \<not> is_none_or (report_in_window (fr_round report))
                    (Option.bind (fmlookup (observers s) (fr_subnet report)) po_share_frontier)
          then s
          else case integrity_culprit_from_evidence C (evidence (fr_fault report)) peers of
            None \<Rightarrow> s
          | Some culprit \<Rightarrow>
              if fault_attribution (fr_fault report) \<noteq> Peers [culprit] then s
              else if (fr_subnet report, fr_round report, culprit) |\<in>| seen_integrity_faults s then s
              else apply_observed_faults (fr_subnet report) [fr_fault report] now
                     (s\<lparr>seen_integrity_faults :=
                          finsert (fr_subnet report, fr_round report, culprit)
                            (seen_integrity_faults s)\<rparr>))"


section \<open>Proposals\<close>

definition subnet_protocols :: "core \<Rightarrow> scheduler_protocol list" where
  "subnet_protocols s =
     replicate (max (subnet_count s) 1) (case pin (params s) of Some p \<Rightarrow> p | None \<Rightarrow> SpPanetiere)"

text \<open>\<open>expected_active(capacity) as usize * message_size / 2\<close>, rounded up to 8 KiB.\<close>

definition vector_floor :: "core \<Rightarrow> usize" where
  "vector_floor s =
     round_up_to (wrapping_mul (expected_active (capacity s)) (pm_message_size (params s)) div 2) 8192"

definition desired_vector :: "core \<Rightarrow> subnet_id \<Rightarrow> usize" where
  "desired_vector s i =
     (if 0 < pm_vector_bytes (params s) then pm_vector_bytes (params s)
      else
        (let bytes = map_or 0 id
               (Option.bind (fmlookup (observers s) i) (po_decoded_bytes_recent SCHED_WINDOW))
         in min (max (round_up_to (saturating_mul bytes 3 div 2) 8192) (vector_floor s)) MAX_VECTOR_BYTES))"

text \<open>
  The resize test \<open>|desired - v| as f64 >= v as f64 * 0.25\<close>: both conversions round to a
  double, the product with a quarter is exact, so it compares four times one with the other.
\<close>

definition resize_vector :: "scheduler_protocol \<Rightarrow> subnet_id \<Rightarrow> core \<Rightarrow> core" where
  "resize_vector proto i s =
     (if proto \<noteq> SpScheduledPanetiere then s\<lparr>scheduled_vectors := fmdrop i (scheduled_vectors s)\<rparr>
      else
        (let v = map_or 0 id (fmlookup (scheduled_vectors s) i);
             desired = desired_vector s i
         in s\<lparr>scheduled_vectors :=
                fmupd i (if v = 0 \<or> f64_round v \<le> 4 * f64_round (abs_diff desired v) then desired else v)
                  (scheduled_vectors s)\<rparr>))"

definition resize_scheduled_vectors :: "scheduler_protocol list \<Rightarrow> core \<Rightarrow> core" where
  "resize_scheduled_vectors protos s =
     fold (\<lambda>(i, proto). resize_vector proto (as_u32 i)) (enumerate 0 protos) s"

definition scheduled_width :: "core \<Rightarrow> subnet_id \<Rightarrow> usize" where
  "scheduled_width s i =
     (if 0 < pm_vector_bytes (params s) then pm_vector_bytes (params s)
      else case fmlookup (scheduled_vectors s) i of
        Some v \<Rightarrow> if 0 < v then v else min (vector_floor s) MAX_VECTOR_BYTES
      | None \<Rightarrow> min (vector_floor s) MAX_VECTOR_BYTES)"

definition rs_threshold :: "u32 \<Rightarrow> u32" where
  "rs_threshold n = max (n div 2 + 1) (n - 2)"

fun build_protocol ::
    "'z crypto_scheme \<Rightarrow> core \<Rightarrow> pubkey list \<Rightarrow> subnet_id \<Rightarrow> scheduler_protocol \<Rightarrow> protocol_config" where
  "build_protocol C s rs i SpPanetiere =
     Panetiere \<lparr>pc_round_duration_ms = pm_round_duration_ms (params s),
       pc_message_size = pm_message_size (params s),
       pc_estimated_messages = expected_active (capacity s),
       pc_client_set_min = 0, pc_client_set_max = capacity s,
       pc_threshold = rs_threshold (as_u32 (length rs)),
       pc_setup_seed = derive_seed C (ascii ''anymone/subnet-seed'') rs,
       pc_encoding = pm_encoding (params s), pc_set_formation = pm_set_formation (params s)\<rparr>"
| "build_protocol C s rs i SpScheduledPanetiere =
     ScheduledPanetiere \<lparr>sp_round_duration_ms = pm_round_duration_ms (params s),
       sp_message_size = pm_message_size (params s),
       sp_vector_bytes = scheduled_width s i,
       sp_estimated_messages = capacity s,
       sp_client_set_min = 0, sp_client_set_max = capacity s,
       sp_threshold = rs_threshold (as_u32 (length rs)),
       sp_setup_seed = derive_seed C (ascii ''anymone/subnet-seed'') rs,
       sp_set_formation = pm_set_formation (params s)\<rparr>"
| "build_protocol C s rs i SpScheduledAdcnet =
     ScheduledAdcnet \<lparr>sa_round_duration_ms = pm_round_duration_ms (params s),
       sa_message_length = round_up_to (pm_message_size (params s)) 1024,
       sa_auction_slots = expected_active (capacity s), sa_min_message_size = 1,
       sa_client_set_min = 0, sa_client_set_max = capacity s\<rparr>"
| "build_protocol C s rs i SpNoop =
     Noop \<lparr>nc_round_duration_ms = pm_round_duration_ms (params s),
       nc_message_size = pm_message_size (params s),
       nc_client_set_min = 0, nc_client_set_max = capacity s\<rparr>"
| "build_protocol C s rs i SpAdcnet =
     Adcnet \<lparr>ac_round_duration_ms = pm_round_duration_ms (params s),
       ac_max_payload_bytes = pm_message_size (params s),
       ac_estimated_messages = expected_active (capacity s),
       ac_client_set_min = 0, ac_client_set_max = capacity s,
       ac_aggregation =
         (if pm_aggregation (params s) then build_subnet_aggregation (capacity s) rs else None)\<rparr>"

definition build_subnet ::
    "'z crypto_scheme \<Rightarrow> core \<Rightarrow> pubkey list \<Rightarrow> nat \<times> scheduler_protocol \<Rightarrow> subnet" where
  "build_subnet C s rs ip =
     \<lparr>subnet_id = as_u32 (fst ip), relays = rs,
      protocol = build_protocol C s rs (as_u32 (fst ip)) (snd ip), cover_rate = sc_cover_rate s,
      attested = (as_u32 (fst ip) \<in> set (attested_subnets (params s)))\<rparr>"

definition placed_relays :: "core \<Rightarrow> pubkey list" where
  "placed_relays s = take MAX_COMMITTEE_RELAYS (sorted_list_of_fset (registered s))"

text \<open>The lists the source sorts come out of their maps in key order already.\<close>

definition build_body :: "'z crypto_scheme \<Rightarrow> u64 \<Rightarrow> scheduler_protocol list \<Rightarrow> core \<Rightarrow> config_body" where
  "build_body C clock protos s =
     (let rs = placed_relays s;
          nets = map (build_subnet C s rs) (enumerate 0 protos);
          placed = set (concat (map relays nets))
      in \<lparr>body_round = public_round s,
          body_endpoints =
            \<lparr>node_urls = filter (\<lambda>(pk, _). pk \<in> placed) (fm_items (node_rpc_urls s)),
             service_urls = filter (\<lambda>(tag, _). tag |\<in>| fmdom (sc_services s))
               (fm_items (service_descriptor_urls s))\<rparr>,
          epoch_unix_ms = map_or clock id (sc_epoch_unix_ms s),
          services = map (\<lambda>(tag, pk). \<lparr>entry_tag = tag, entry_pubkey = pk\<rparr>) (fm_items (sc_services s)),
          relay_exchange_keys =
            List.map_filter (\<lambda>pk. map_option (Pair pk) (fmlookup (relay_xpubs s) pk)) rs,
          subnets = nets,
          relay_client_addrs = filter (\<lambda>(pk, _). pk \<in> placed) (fm_items (sc_relay_client_addrs s)),
          watchers = sorted_list_of_fset (sc_watchers s),
          attestation = pm_attestation (params s)\<rparr>)"

section \<open>Approval\<close>

definition exchange_keys_match :: "(pubkey \<times> xk_wire) list \<Rightarrow> core \<Rightarrow> bool" where
  "exchange_keys_match ks s \<longleftrightarrow> list_all (\<lambda>(pk, xk). fmlookup (relay_xpubs s) pk = Some xk) ks"

definition aggregation_valid :: "aggregation option \<Rightarrow> core \<Rightarrow> bool" where
  "aggregation_valid agg s \<longleftrightarrow>
     aggregation_structural_ok agg \<and>
     is_none_or (\<lambda>a. list_all (\<lambda>g. aggregator g |\<in>| registered s) (groups a)) agg"

definition subnet_acceptable :: "core \<Rightarrow> subnet \<Rightarrow> bool" where
  "subnet_acceptable s n \<longleftrightarrow>
     attested n = (subnet_id n \<in> set (attested_subnets (params s))) \<and>
     list_all (\<lambda>pk. pk |\<in>| registered s) (relays n) \<and>
     (case protocol n of Adcnet c \<Rightarrow> aggregation_valid (ac_aggregation c) s | _ \<Rightarrow> True)"

definition validate_body :: "'z sizes_scheme \<Rightarrow> config_body \<Rightarrow> core \<Rightarrow> bool" where
  "validate_body C b s \<longleftrightarrow>
     validate_structure C b \<and>
     is_none_or (\<lambda>known. known = epoch_unix_ms b) (sc_epoch_unix_ms s) \<and>
     list_all (\<lambda>v. fmlookup (sc_services s) (entry_tag v) = Some (entry_pubkey v)) (services b) \<and>
     list_all (\<lambda>(key, url). fmlookup (node_rpc_urls s) key = Some url \<and>
         list_ex (\<lambda>(r, _). r = key) (relay_exchange_keys b)) (node_urls (body_endpoints b)) \<and>
     list_all (\<lambda>(tag, url). fmlookup (service_descriptor_urls s) tag = Some url \<and>
         list_ex (\<lambda>v. entry_tag v = tag) (services b)) (service_urls (body_endpoints b)) \<and>
     exchange_keys_match (relay_exchange_keys b) s \<and>
     attestation_eq C (attestation b) (pm_attestation (params s)) \<and>
     list_all (subnet_acceptable s) (subnets b)"

section \<open>Learning a configuration\<close>

fun proto_kind :: "protocol_config \<Rightarrow> scheduler_protocol option" where
  "proto_kind (Adcnet _) = Some SpAdcnet"
| "proto_kind (Panetiere _) = Some SpPanetiere"
| "proto_kind (ScheduledPanetiere _) = Some SpScheduledPanetiere"
| "proto_kind (Noop _) = Some SpNoop"
| "proto_kind (ScheduledAdcnet _) = Some SpScheduledAdcnet"

fun build_observer ::
    "scheduler_protocol option \<Rightarrow> pubkey list \<Rightarrow> pubkey \<Rightarrow> u64 \<Rightarrow> public_observer option" where
  "build_observer (Some SpAdcnet) peers l th = Some (PubAdcnet (new_adc_observer False peers l th))"
| "build_observer (Some SpScheduledAdcnet) peers l th = Some (PubAdcnet (new_adc_observer True peers l th))"
| "build_observer (Some SpPanetiere) peers l th = Some (PubPanetiere (new_pan_observer peers (Some l) th))"
| "build_observer (Some SpScheduledPanetiere) peers l th =
     Some (PubPanetiere (new_pan_observer peers (Some l) th))"
| "build_observer (Some SpNoop) peers l th = Some (PubNoop new_noop_wire_count)"
| "build_observer None peers l th = None"

definition subnets_sig :: "config_body \<Rightarrow> subnet_sig list" where
  "subnets_sig b = map (\<lambda>n. (subnet_id n, sort (relays n), proto_kind (protocol n))) (subnets b)"

text \<open>
  The loop over the new subnets: the old observers not yet taken over, the new ones, and
  the grace counters. An empty roster has no leader, and choosing one panics.
\<close>

fun learn_observers ::
    "(subnet_id, pubkey list \<times> scheduler_protocol option) fmap \<Rightarrow> u64 \<Rightarrow> subnet_sig list \<Rightarrow>
     (subnet_id, public_observer) fmap \<Rightarrow> (subnet_id, public_observer) fmap \<Rightarrow> (subnet_id, u32) fmap \<Rightarrow>
     ((subnet_id, public_observer) fmap \<times> (subnet_id, u32) fmap) option" where
  "learn_observers prev th [] old new grace = Some (new, grace)"
| "learn_observers prev th ((i, peers, proto) # rest) old new grace =
     (case (if fmlookup prev i = Some (peers, proto) then fmlookup old i else None) of
        Some ob \<Rightarrow> learn_observers prev th rest (fmdrop i old) (fmupd i ob new) grace
      | None \<Rightarrow>
          (case leader_of peers i of
             None \<Rightarrow> None
           | Some l \<Rightarrow>
               (case build_observer proto peers l th of
                  Some ob \<Rightarrow> learn_observers prev th rest old (fmupd i ob new)
                    (fmupd i OBSERVER_FAULT_GRACE grace)
                | None \<Rightarrow> learn_observers prev th rest old new grace)))"

definition learn_config :: "config_body \<Rightarrow> core \<Rightarrow> core option" where
  "learn_config b s =
     (let s1 = s\<lparr>sc_epoch_unix_ms := Some (epoch_unix_ms b),
                 subnet_round_ms := fm_collect (map (\<lambda>n. (subnet_id n, round_duration (protocol n))) (subnets b))\<rparr>;
          sg = subnets_sig b
      in if sg = current_subnets_sig s1 then Some s1
         else
           map_option
             (\<lambda>(obs, grace).
                s1\<lparr>observers := obs,
                   observer_grace := fmfilter (\<lambda>i. list_ex (\<lambda>(j, _, _). j = i) sg) grace,
                   current_subnets_sig := sg\<rparr>)
             (learn_observers (fm_collect (current_subnets_sig s1)) (pm_fault_threshold (params s1)) sg
                (observers s1) fmempty (observer_grace s1)))"


section \<open>Assembling a configuration\<close>

definition try_assemble :: "'z codecs_scheme \<Rightarrow> config_body \<Rightarrow> core \<Rightarrow> core \<times> scheduler_action option" where
  "try_assemble C b s =
     (let canonical = canonical_bytes C b in
      if canonical |\<in>| published s then (s, None)
      else case fmlookup (sigs s) canonical of
        None \<Rightarrow> (s, None)
      | Some entry \<Rightarrow>
          if as_u32 (fm_size entry) < sc_threshold s then (s, None)
          else
            (let cfg = \<lparr>body = b,
                        signatures = map (\<lambda>(pk, sg). \<lparr>signer = pk, signature_bytes = sg\<rparr>) (fm_items entry)\<rparr>
             in case verify_multisig C cfg (committee s) (sc_threshold s) of
                  Inl _ \<Rightarrow> (s, None)
                | Inr _ \<Rightarrow>
                    (s\<lparr>published := finsert canonical (published s),
                       published_round := raise_to (published_round s) (body_round b)\<rparr>,
                     Some (Publish TopicConfig (config_bytes C cfg)))))"

definition add_sig :: "bytes \<Rightarrow> pubkey \<Rightarrow> bytes \<Rightarrow> core \<Rightarrow> core" where
  "add_sig key pk sg s =
     s\<lparr>sigs := fmupd key (fmupd pk sg (case fmlookup (sigs s) key of Some m \<Rightarrow> m | None \<Rightarrow> fmempty)) (sigs s)\<rparr>"

definition on_published_config :: "'z sizes_scheme \<Rightarrow> configuration \<Rightarrow> core \<Rightarrow> (core \<times> bool) option" where
  "on_published_config C cfg s =
     (case verify_multisig C cfg (committee s) (sc_threshold s) of
        Inl _ \<Rightarrow> Some (s, False)
      | Inr _ \<Rightarrow>
          if \<not> validate_structure C (body cfg) then Some (s, False)
          else
            (let r = body_round (body cfg)
             in map_option (\<lambda>s'. (s', True))
                  (learn_config (body cfg)
                     (s\<lparr>last_accepted_round := raise_to (last_accepted_round s) r,
                        public_round := max (public_round s) r,
                        published_round := raise_to (published_round s) r,
                        published := finsert (canonical_bytes C (body cfg)) (published s)\<rparr>))))"

text \<open>The highest round a member knows of.\<close>

definition established :: "core \<Rightarrow> round" where
  "established s =
     max (max (map_or 0 id (last_accepted_round s)) (public_round s)) (map_or 0 id (published_round s))"

text \<open>The four checks before a member signs: author, freshness, reachability, content.\<close>

definition proposal_acceptable :: "'z sizes_scheme \<Rightarrow> signed_proposal \<Rightarrow> core \<Rightarrow> bool" where
  "proposal_acceptable C p s \<longleftrightarrow>
     proposer p = lead s \<and>
     verify C (proposer p) (propose_bytes C (pr_body p)) (pr_signature p) \<and>
     \<not> is_some_and (\<lambda>l. body_round (pr_body p) < l) (last_accepted_round s) \<and>
     \<not> saturating_add (established s) MAX_ROUND_ADVANCE < body_round (pr_body p) \<and>
     validate_body C (pr_body p) s"

definition on_decoded_body ::
    "'z sched_codecs_scheme \<Rightarrow> signed_proposal \<Rightarrow> core \<Rightarrow> (core \<times> scheduler_action list) option" where
  "on_decoded_body C p s =
     (if \<not> proposal_acceptable C p s then Some (s, [])
      else
        (let b = pr_body p;
             canonical = canonical_bytes C b;
             our_pk = identity_pubkey C (sc_identity s);
             sg = sign C (sc_identity s) (approve_bytes C b);
             s1 = add_sig canonical our_pk sg
                    (s\<lparr>last_accepted_round := raise_to (last_accepted_round s) (body_round b)\<rparr>);
             gossip = Publish CommitteeSigs (committee_sig_bytes C
                        \<lparr>cs_body_bytes = canonical, cs_signer = our_pk, cs_signature = sg\<rparr>)
         in map_option
              (\<lambda>s2. (fst (try_assemble C b s2),
                      gossip # (case snd (try_assemble C b s2) of Some a \<Rightarrow> [a] | None \<Rightarrow> [])))
              (learn_config b s1)))"

definition on_committee_sig ::
    "'z codecs_scheme \<Rightarrow> committee_sig \<Rightarrow> core \<Rightarrow> core \<times> scheduler_action list" where
  "on_committee_sig C m s =
     (if cs_signer m \<notin> set (committee s) then (s, [])
      else case from_canonical_bytes C (cs_body_bytes m) of
        None \<Rightarrow> (s, [])
      | Some b \<Rightarrow>
          if \<not> verify C (cs_signer m) (approve_bytes C b) (cs_signature m) then (s, [])
          else
            (let s1 = add_sig (cs_body_bytes m) (cs_signer m) (cs_signature m) s
             in (fst (try_assemble C b s1),
                 case snd (try_assemble C b s1) of Some a \<Rightarrow> [a] | None \<Rightarrow> [])))"

section \<open>The tick\<close>

text \<open>
  The wall-clock round of a subnet: \<open>Some None\<close> when there is none to compute, \<open>None\<close> when the
  round clock panics on the division by a zero duration.
\<close>

definition wall_round :: "core \<Rightarrow> u64 \<Rightarrow> subnet_id \<Rightarrow> round option option" where
  "wall_round s now i =
     (case (sc_epoch_unix_ms s, fmlookup (subnet_round_ms s) i) of
        (Some e, Some d) \<Rightarrow> if 0 < d then map_option Some (round_at 0 e d now) else Some None
      | _ \<Rightarrow> Some None)"

text \<open>Every observer's clock; one panic of the clock is a panic of the tick.\<close>

definition refresh_observers :: "u64 \<Rightarrow> core \<Rightarrow> core option" where
  "refresh_observers now s =
     (if list_all (\<lambda>i. wall_round s now i \<noteq> None) (fm_keys (observers s))
      then Some (s\<lparr>observers :=
             fmmap_keys (\<lambda>i ob. refresh_clock (Option.bind (wall_round s now i) id) ob) (observers s)\<rparr>)
      else None)"

definition forget_old_faults :: "core \<Rightarrow> core" where
  "forget_old_faults s =
     s\<lparr>seen_integrity_faults :=
         ffilter (\<lambda>(i, r, _).
           is_none_or (\<lambda>f. f \<le> saturating_add r (2 * FAULT_REPORT_ROUND_WINDOW))
             (Option.bind (fmlookup (observers s) i) po_share_frontier))
           (seen_integrity_faults s)\<rparr>"

definition close_observer :: "round \<Rightarrow> subnet_id \<Rightarrow> core \<Rightarrow> core \<times> fault list" where
  "close_observer r i s =
     (case fmlookup (observers s) i of
        Some ob \<Rightarrow> (s\<lparr>observers := fmupd i (fst (end_round_faults r ob)) (observers s)\<rparr>,
                    snd (end_round_faults r ob))
      | None \<Rightarrow> (s, []))"

definition spend_grace :: "u32 \<Rightarrow> subnet_id \<Rightarrow> core \<Rightarrow> core" where
  "spend_grace g i s =
     (let g' = (if g = 0 then U32_MAX else g - 1)
      in s\<lparr>observer_grace := (if g' = 0 then fmdrop i (observer_grace s) else fmupd i g' (observer_grace s))\<rparr>)"

definition end_observer_round :: "round \<Rightarrow> u64 \<Rightarrow> subnet_id \<Rightarrow> core \<Rightarrow> core" where
  "end_observer_round r now i s =
     (let (s1, fs) = close_observer r i s
      in case fmlookup (observer_grace s1) i of
           Some g \<Rightarrow> spend_grace g i s1
         | None \<Rightarrow> apply_observed_faults i fs now s1)"

definition expire_offenders :: "u64 \<Rightarrow> core \<Rightarrow> core" where
  "expire_offenders now s =
     s\<lparr>integrity_offenders :=
         fm_retain (\<lambda>_ t. now - t < integrity_backoff_ms (params s)) (integrity_offenders s)\<rparr>"

definition close_round :: "round \<Rightarrow> u64 \<Rightarrow> core \<Rightarrow> core" where
  "close_round r now s =
     expire_offenders now (fold (end_observer_round r now) (fm_keys (observers s)) s)"

definition tick_faults :: "round \<Rightarrow> u64 \<Rightarrow> core \<Rightarrow> core option" where
  "tick_faults r now s =
     (case refresh_observers now (s\<lparr>sc_cur_round := r\<rparr>) of
        None \<Rightarrow> None
      | Some s1 \<Rightarrow> Some (close_round r now (forget_old_faults s1)))"

text \<open>Load: which observers are fresh, whom they saw, what their leaders announced.\<close>

definition freshest :: "core \<Rightarrow> round option" where
  "freshest s = max_list (List.map_filter po_anon_set_round (fm_values (observers s)))"

definition fresh :: "core \<Rightarrow> public_observer \<Rightarrow> bool" where
  "fresh s ob \<longleftrightarrow>
     (case (po_anon_set_round ob, freshest s) of
        (Some r, Some f) \<Rightarrow> f \<le> wrapping_add r ANON_SET_FRESHNESS
      | _ \<Rightarrow> False)"

definition fresh_observers :: "core \<Rightarrow> public_observer list" where
  "fresh_observers s = filter (fresh s) (fm_values (observers s))"

definition total_clients :: "core \<Rightarrow> usize" where
  "total_clients s =
     fcard (fset_of_list (concat (List.map_filter po_latest_clients (fresh_observers s)))) +
     sum_list (map (\<lambda>ob. map_or 0 id (po_anonymity_set ob))
       (filter (\<lambda>ob. po_latest_clients ob = None) (fresh_observers s)))"

definition busiest :: "core \<Rightarrow> u32" where
  "busiest s = as_u32 (map_or 0 id (max_list (List.map_filter po_anonymity_set (fresh_observers s))))"

definition announced_demand :: "core \<Rightarrow> u32" where
  "announced_demand s =
     min (map_or 0 id (max_list (List.map_filter po_demand (fresh_observers s)))) MAX_SUBNET_CLIENTS"

definition observed_load :: "core \<Rightarrow> u32" where
  "observed_load s = max (as_u32 (total_clients s)) (announced_demand s)"

text \<open>The number of subnets and the shrink streak after a tick, from the growth mark and the load.\<close>

definition next_count :: "u32 \<Rightarrow> u32 \<Rightarrow> usize \<Rightarrow> u32 \<Rightarrow> usize \<times> u32" where
  "next_count grow load n streak =
     (let per_subnet = load div as_u32 (max n 1);
          merged_per_subnet = load div as_u32 (max n 2 - 1);
          shrink_floor = grow - grow div 10
      in if grow \<le> per_subnet \<and> n < MAX_SUBNETS
         then (clamp (load div max grow 1 + 1) n MAX_SUBNETS, 0)
         else if 1 < n \<and> merged_per_subnet \<le> shrink_floor
         then (if SUBNET_SHRINK_GRACE \<le> streak + 1 then (n - 1, 0) else (n, streak + 1))
         else (n, 0))"

text \<open>The capacity and its streak after a tick, from the floor and the clients observed.\<close>

definition next_capacity :: "u32 \<Rightarrow> u32 \<Rightarrow> u32 \<Rightarrow> u32 \<Rightarrow> u32 \<times> u32" where
  "next_capacity least observed cap streak =
     (let desired = min (max (size_capacity observed) least) MAX_SUBNET_CLIENTS;
          (cap', streak') =
            (if cap \<le> observed then (max desired cap, 0)
             else if capacity_resize_margin cap \<le> abs_diff desired cap
             then (if CAPACITY_RESIZE_GRACE \<le> streak + 1 then (desired, 0) else (cap, streak + 1))
             else (cap, 0))
      in (min cap' MAX_SUBNET_CLIENTS, streak'))"

definition adjust_subnet_count :: "u32 \<Rightarrow> core \<Rightarrow> core" where
  "adjust_subnet_count load s =
     (let n = next_count (grow_at (params s)) load (subnet_count s) (shrink_streak s)
      in s\<lparr>subnet_count := fst n, shrink_streak := snd n\<rparr>)"

definition adjust_capacity :: "u32 \<Rightarrow> u32 \<Rightarrow> core \<Rightarrow> core" where
  "adjust_capacity busy load s =
     (let observed = max busy (div_ceil load (as_u32 (max (subnet_count s) 1)));
          c = next_capacity (min_capacity (params s)) observed (capacity s) (capacity_streak s)
      in s\<lparr>capacity := fst c, capacity_streak := snd c\<rparr>)"

definition tick_sizing :: "core \<Rightarrow> core" where
  "tick_sizing s =
     (let s1 = adjust_capacity (busiest s) (observed_load s) (adjust_subnet_count (observed_load s) s)
      in s1\<lparr>scheduled_vectors := fmfilter (\<lambda>i. i < subnet_count s1) (scheduled_vectors s1)\<rparr>)"

definition ready_to_propose :: "core \<Rightarrow> bool" where
  "ready_to_propose s \<longleftrightarrow>
     is_lead s \<and>
     (min_relays (params s) \<le> fcard (registered s) \<or> (sidelined s \<noteq> {||} \<and> registered s \<noteq> {||})) \<and>
     min_services (params s) \<le> fm_size (sc_services s)"

definition lead_propose :: "'z sched_codecs_scheme \<Rightarrow> u64 \<Rightarrow> core \<Rightarrow> core \<times> scheduler_action list" where
  "lead_propose C clock s =
     (if \<not> ready_to_propose s then (s, [])
      else
        (let protos = subnet_protocols s;
             s1 = resize_scheduled_vectors protos s;
             s2 = s1\<lparr>sc_epoch_unix_ms := Some (map_or clock id (sc_epoch_unix_ms s1))\<rparr>;
             b = build_body C clock protos s2;
             content = canonical_bytes C (b\<lparr>body_round := 0\<rparr>);
             s3 = (if last_content s2 \<noteq> Some content
                   then s2\<lparr>public_round := wrapping_add (public_round s2) 1, last_content := Some content\<rparr>
                   else s2)
         in if published_round s3 \<noteq> Some (public_round s3)
            then
              (let b' = b\<lparr>body_round := public_round s3\<rparr>
               in (s3, [StageProposal (proposal_bytes C
                     \<lparr>pr_body = b', proposer = identity_pubkey C (sc_identity s3),
                      pr_signature = sign C (sc_identity s3) (propose_bytes C b')\<rparr>)]))
            else (s3, [])))"

definition tick ::
    "'z sched_codecs_scheme \<Rightarrow> round \<Rightarrow> u64 \<Rightarrow> u64 \<Rightarrow> core \<Rightarrow> (core \<times> scheduler_action list) option" where
  "tick C r now clock s =
     (case tick_faults r now s of
        None \<Rightarrow> None
      | Some s1 \<Rightarrow> Some (lead_propose C clock (tick_sizing s1)))"


section \<open>A member as an event handler\<close>

datatype scheduler_op =
    OpRegistration registration
  | OpSubnetMessage subnet_id pubkey bytes
  | OpObservedFaults subnet_id "fault list" u64
  | OpFaultReport pubkey fault_report u64
  | OpTick round u64 u64
  | OpPublishedConfig configuration
  | OpDecodedBody signed_proposal
  | OpCommitteeSig committee_sig
  | OpCoverRate f32

fun handle ::
    "'z sched_codecs_scheme \<Rightarrow> scheduler_op \<Rightarrow> core \<Rightarrow> (core \<times> scheduler_action list) option" where
  "handle C (OpRegistration r) s = Some (on_registration r s, [])"
| "handle C (OpSubnetMessage i from bs) s = Some (on_subnet_message C i from bs s, [])"
| "handle C (OpObservedFaults i fs now) s = Some (apply_observed_faults i fs now s, [])"
| "handle C (OpFaultReport from report now) s = Some (on_fault_report C from report now s, [])"
| "handle C (OpTick r now clock) s = tick C r now clock s"
| "handle C (OpPublishedConfig cfg) s = map_option (\<lambda>(s', _). (s', [])) (on_published_config C cfg s)"
| "handle C (OpDecodedBody p) s = on_decoded_body C p s"
| "handle C (OpCommitteeSig m) s = Some (on_committee_sig C m s)"
| "handle C (OpCoverRate rate) s = Some (set_cover_rate rate s, [])"

text \<open>One event as a total step; \<open>handle\<close> is shown below never to panic.\<close>

definition sched_step ::
    "'z sched_codecs_scheme \<Rightarrow> scheduler_op \<Rightarrow> core \<Rightarrow> core \<times> scheduler_action list" where
  "sched_step C op s = (case handle C op s of Some r \<Rightarrow> r | None \<Rightarrow> (s, []))"


section \<open>A concrete instance\<close>

text \<open>
  An instance of the external functions for the concrete runs of this development: a body
  is known by its round, messages have small fixed sizes.
\<close>

definition demo_sizes :: sizes where
  "demo_sizes = wire_codecs.extend demo_wire_codecs
     \<lparr>iblt_encoded_len = (\<lambda>n m. n * m), auction_elements = id, prony_polys = (\<lambda>n m. n),
      mse_polys = (\<lambda>n m. n), sched_polys = id, bytes_per_poly = 1024,
      rs_block_len = (\<lambda>t n p. p), server_entry_len = (\<lambda>n p rho. 64), rs_poly_packed_len = 64,
      fresh_path_packed_len = (\<lambda>n. 64), client_entry_packed_len = 64,
      lane_post_packed_len = (\<lambda>b n rho. b), set_pubkey_len = 32, set_sig_len = 64\<rparr>"

definition demo_sched_codecs :: sched_codecs where
  "demo_sched_codecs = sizes.extend
     (demo_sizes\<lparr>body_of_bytes := (\<lambda>bs. Some (demo_body (from_be_bytes bs)))\<rparr>)
     \<lparr>proposal_bytes = (\<lambda>p. be_bytes 8 (body_round (pr_body p))), committee_sig_bytes = cs_body_bytes\<rparr>"

text \<open>A member of a committee of three with threshold two, and what its peers send it.\<close>

definition demo_core :: core where
  "demo_core = new_core demo_sched_codecs (demo_identity 1) demo_committee 2 default_params"

definition demo_approval :: "byte \<Rightarrow> round \<Rightarrow> committee_sig" where
  "demo_approval n r =
     \<lparr>cs_body_bytes = canonical_bytes demo_sched_codecs (demo_body r),
      cs_signer = identity_pubkey demo_sched_codecs (demo_identity n),
      cs_signature = sign demo_sched_codecs (demo_identity n) (approve_bytes demo_sched_codecs (demo_body r))\<rparr>"


definition demo_relay :: "byte \<Rightarrow> registration" where
  "demo_relay n = Relay (identity_pubkey demo_sched_codecs (demo_identity n)) (demo_keys n) None None []"

definition demo_proposal :: "round \<Rightarrow> signed_proposal" where
  "demo_proposal r =
     \<lparr>pr_body = demo_body r, proposer = identity_pubkey demo_sched_codecs (demo_identity 1),
      pr_signature = sign demo_sched_codecs (demo_identity 1) (propose_bytes demo_sched_codecs (demo_body r))\<rparr>"

definition demo_registrations :: "scheduler_op list" where
  "demo_registrations = map (OpRegistration \<circ> demo_relay) [1, 2, 3]"

end
