(* ===== verification/Governing.thy ===== *)
theory Governing
  imports Scheduler
begin

text \<open>
  What the committee's scheduler guarantees: it never panics, every configuration it
  publishes carries a threshold certificate, it approves only proposals of the lead that
  match its own registrations, its accepted round never goes back, and its record of relays
  implements an abstract membership machine.
\<close>

section \<open>What each operation leaves alone\<close>

text \<open>
  The governance state of a member: who it is, which committee it serves, what it accepted
  and published, and what relays and services registered with. Ticks, traffic and faults do
  not touch it.
\<close>

definition same_governance :: "core \<Rightarrow> core \<Rightarrow> bool" where
  "same_governance s s' \<longleftrightarrow>
     sc_identity s' = sc_identity s \<and> committee s' = committee s \<and> sc_threshold s' = sc_threshold s \<and>
     lead s' = lead s \<and> is_lead s' = is_lead s \<and> params s' = params s \<and>
     last_accepted_round s' = last_accepted_round s \<and> published_round s' = published_round s \<and>
     sigs s' = sigs s \<and> published s' = published s \<and>
     relay_xpubs s' = relay_xpubs s \<and> sc_services s' = sc_services s \<and>
     node_rpc_urls s' = node_rpc_urls s \<and> service_descriptor_urls s' = service_descriptor_urls s \<and>
     sc_relay_client_addrs s' = sc_relay_client_addrs s \<and> sc_watchers s' = sc_watchers s"

text \<open>The record of relays and services.\<close>

definition same_members :: "core \<Rightarrow> core \<Rightarrow> bool" where
  "same_members s s' \<longleftrightarrow>
     registered s' = registered s \<and> sidelined s' = sidelined s \<and>
     integrity_offenders s' = integrity_offenders s \<and>
     relay_xpubs s' = relay_xpubs s \<and> sc_services s' = sc_services s \<and>
     node_rpc_urls s' = node_rpc_urls s \<and> service_descriptor_urls s' = service_descriptor_urls s"

named_theorems frame \<open>what an operation leaves alone\<close>

lemma same_governance_refl [simp]: "same_governance s s"
  by (simp add: same_governance_def)

lemma same_members_refl [simp]: "same_members s s"
  by (simp add: same_members_def)

lemma same_governance_params: "same_governance s s' \<Longrightarrow> params s' = params s"
  by (simp add: same_governance_def)

lemma same_governance_trans: "same_governance s s' \<Longrightarrow> same_governance s' s'' \<Longrightarrow> same_governance s s''"
  by (simp add: same_governance_def)

lemma same_members_trans: "same_members s s' \<Longrightarrow> same_members s' s'' \<Longrightarrow> same_members s s''"
  by (simp add: same_members_def)

lemma fold_rel:
  assumes "\<And>x s. R s (f x s)" "\<And>s. R s s" "\<And>a b c. R a b \<Longrightarrow> R b c \<Longrightarrow> R a c"
  shows "R s (fold f xs s)"
proof (induction xs arbitrary: s)
  case (Cons x xs)
  have "R s (f x s)" by (rule assms(1))
  then show ?case using Cons [of "f x s"] assms(3) by simp
qed (simp add: assms(2))

lemma on_subnet_message_frame [frame]:
  "same_governance s (on_subnet_message C i from bs s)" "same_members s (on_subnet_message C i from bs s)"
  by (simp_all add: on_subnet_message_def same_governance_def same_members_def split: option.splits)

lemma apply_fault_governance: "same_governance s (apply_fault now f s)"
proof (cases "fault_attribution f")
  case (Peers pks)
  have "same_governance s (fold (sideline_peer b now) pks s)" for b
    by (rule fold_rel [where R = same_governance])
       (auto simp: sideline_peer_def same_governance_def Let_def)
  with Peers show ?thesis by (simp add: apply_fault_def)
qed (simp add: apply_fault_def)

lemma apply_observed_faults_governance [frame]: "same_governance s (apply_observed_faults i fs now s)"
proof -
  have "same_governance s (fold (apply_fault now) fs s)"
    by (rule fold_rel [where R = same_governance])
       (rule apply_fault_governance, simp, erule same_governance_trans, assumption)
  then show ?thesis by (simp add: apply_observed_faults_def)
qed

lemma on_fault_report_cases:
  obtains (ignored) "on_fault_report C from report now s = s"
  | (applied) peers proto culprit where
      "kind (fr_fault report) = Integrity"
      "find (\<lambda>(i, _, _). i = fr_subnet report) (current_subnets_sig s) = Some (fr_subnet report, peers, proto)"
      "from \<in> set peers"
      "integrity_culprit_from_evidence C (evidence (fr_fault report)) peers = Some culprit"
      "fault_attribution (fr_fault report) = Peers [culprit]"
      "(fr_subnet report, fr_round report, culprit) |\<notin>| seen_integrity_faults s"
      "on_fault_report C from report now s =
         apply_observed_faults (fr_subnet report) [fr_fault report] now
           (s\<lparr>seen_integrity_faults := finsert (fr_subnet report, fr_round report, culprit)
              (seen_integrity_faults s)\<rparr>)"
proof (cases "on_fault_report C from report now s = s")
  case changed: False
  from changed have kind: "kind (fr_fault report) = Integrity"
    by (rule contrapos_np) (simp add: on_fault_report_def)
  obtain e where e: "find (\<lambda>(i, _, _). i = fr_subnet report) (current_subnets_sig s) = Some e"
    using changed by (cases "find (\<lambda>(i, _, _). i = fr_subnet report) (current_subnets_sig s)")
      (simp_all add: on_fault_report_def)
  obtain i peers proto where e': "e = (i, peers, proto)" by (cases e)
  have i: "i = fr_subnet report" using e e' by (auto simp: find_Some_iff)
  note unfolded = on_fault_report_def [of C "from" report now s, simplified e e' prod.case option.case]
  from changed have "from \<in> set peers"
    by (rule contrapos_np) (simp add: unfolded)
  moreover obtain culprit where
    culprit: "integrity_culprit_from_evidence C (evidence (fr_fault report)) peers = Some culprit"
    using changed by (cases "integrity_culprit_from_evidence C (evidence (fr_fault report)) peers")
      (simp_all add: unfolded)
  moreover have "fault_attribution (fr_fault report) = Peers [culprit]"
    using changed by (rule contrapos_np) (simp add: unfolded culprit)
  moreover have "(fr_subnet report, fr_round report, culprit) |\<notin>| seen_integrity_faults s"
    using changed by (rule contrapos_nn) (simp add: unfolded culprit)
  moreover have "is_none_or (report_in_window (fr_round report))
      (Option.bind (fmlookup (observers s) (fr_subnet report)) po_share_frontier)"
    using changed by (rule contrapos_np) (simp add: unfolded)
  moreover from calculation kind have "on_fault_report C from report now s =
       apply_observed_faults (fr_subnet report) [fr_fault report] now
         (s\<lparr>seen_integrity_faults := finsert (fr_subnet report, fr_round report, culprit)
            (seen_integrity_faults s)\<rparr>)"
    by (subst unfolded) auto
  ultimately show thesis using applied kind e unfolding e' i by blast
qed (rule ignored)


lemma on_fault_report_governance [frame]: "same_governance s (on_fault_report C from report now s)"
proof (cases rule: on_fault_report_cases [of C "from" report now s])
  case (applied peers proto culprit)
  let ?s = "s\<lparr>seen_integrity_faults := finsert (fr_subnet report, fr_round report, culprit)
      (seen_integrity_faults s)\<rparr>"
  have "same_governance s ?s" by (simp add: same_governance_def)
  then show ?thesis
    unfolding applied(7) by (rule same_governance_trans) (rule apply_observed_faults_governance)
qed simp

lemma end_observer_round_governance: "same_governance s (end_observer_round r now i s)"
proof -
  obtain s1 fs where c: "close_observer r i s = (s1, fs)" by (cases "close_observer r i s")
  then have s1: "same_governance s s1"
    by (auto simp: close_observer_def same_governance_def split: option.splits)
  have "same_governance s1 (spend_grace g i s1)" for g
    by (simp add: spend_grace_def Let_def same_governance_def)
  then show ?thesis
    using s1 apply_observed_faults_governance [of s1 i fs now]
    by (cases "fmlookup (observer_grace s1) i")
       (simp_all add: end_observer_round_def c, (erule same_governance_trans, assumption)+)
qed

lemma close_round_governance [frame]: "same_governance s (close_round r now s)"
proof -
  have "same_governance s (fold (end_observer_round r now) (fm_keys (observers s)) s)"
    by (rule fold_rel [where R = same_governance])
       (rule end_observer_round_governance, simp, erule same_governance_trans, assumption)
  then show ?thesis by (simp add: close_round_def expire_offenders_def same_governance_def)
qed

text \<open>
  The clock never divides by zero: a duration of zero is filtered out before the division.
\<close>

lemma wall_round_total: "\<exists>w. wall_round s now i = Some w"
  by (auto simp: wall_round_def round_at_def split: option.splits)

lemma refresh_observers_total: "\<exists>obs. refresh_observers now s = Some (s\<lparr>observers := obs\<rparr>)"
  using wall_round_total by (simp add: refresh_observers_def list_all_iff) blast

text \<open>A tick as its three parts, from a state that differs in the observers' clocks only.\<close>

lemma tick_parts:
  obtains s1 where "tick_faults r now s = Some (close_round r now s1)"
    "tick C r now clock s = Some (lead_propose C clock (tick_sizing (close_round r now s1)))"
    "\<exists>obs. s1 = forget_old_faults (s\<lparr>sc_cur_round := r, observers := obs\<rparr>)"
proof -
  obtain obs where "refresh_observers now (s\<lparr>sc_cur_round := r\<rparr>) = Some (s\<lparr>sc_cur_round := r, observers := obs\<rparr>)"
    using refresh_observers_total by blast
  then show ?thesis by (intro that) (simp_all add: tick_def tick_faults_def, blast)
qed

lemma adjust_subnet_count_frame [frame]:
  "same_governance s (adjust_subnet_count load s)" "same_members s (adjust_subnet_count load s)"
  by (simp_all add: adjust_subnet_count_def Let_def same_governance_def same_members_def)

lemma adjust_capacity_frame [frame]:
  "same_governance s (adjust_capacity busy load s)" "same_members s (adjust_capacity busy load s)"
  by (simp_all add: adjust_capacity_def Let_def same_governance_def same_members_def)

lemma tick_sizing_frame [frame]: "same_governance s (tick_sizing s)" "same_members s (tick_sizing s)"
proof -
  let ?s1 = "adjust_capacity (busiest s) (observed_load s) (adjust_subnet_count (observed_load s) s)"
  have "same_governance s ?s1" "same_members s ?s1"
    using adjust_capacity_frame adjust_subnet_count_frame same_governance_trans same_members_trans by meson+
  then show "same_governance s (tick_sizing s)" "same_members s (tick_sizing s)"
    by (simp_all add: tick_sizing_def Let_def same_governance_def same_members_def)
qed

lemma resize_vector_frame: "same_governance s (resize_vector p i s) \<and> same_members s (resize_vector p i s)"
  by (simp add: resize_vector_def Let_def same_governance_def same_members_def)

lemma resize_scheduled_vectors_frame [frame]:
  "same_governance s (resize_scheduled_vectors ps s)" "same_members s (resize_scheduled_vectors ps s)"
proof -
  have "same_governance s (resize_scheduled_vectors ps s) \<and> same_members s (resize_scheduled_vectors ps s)"
    unfolding resize_scheduled_vectors_def
  proof (rule fold_rel [where R = "\<lambda>s s'. same_governance s s' \<and> same_members s s'"])
    show "same_governance s ((\<lambda>(i, proto). resize_vector proto (as_u32 i)) x s) \<and>
        same_members s ((\<lambda>(i, proto). resize_vector proto (as_u32 i)) x s)" for x s
      using resize_vector_frame by (cases x) simp
  qed (use same_governance_trans same_members_trans in \<open>simp, blast\<close>)
  then show "same_governance s (resize_scheduled_vectors ps s)"
    "same_members s (resize_scheduled_vectors ps s)" by simp_all
qed

lemma lead_propose_frame [frame]:
  "same_governance s (fst (lead_propose C clock s))" "same_members s (fst (lead_propose C clock s))"
  using resize_scheduled_vectors_frame [of s "subnet_protocols s"]
  by (simp_all add: lead_propose_def Let_def same_governance_def same_members_def)

lemma tick_governance [frame]:
  assumes "tick C r now clock s = Some (s', acts)"
  shows "same_governance s s'"
proof -
  obtain s1 obs where s1: "tick C r now clock s = Some (lead_propose C clock (tick_sizing (close_round r now s1)))"
    "s1 = forget_old_faults (s\<lparr>sc_cur_round := r, observers := obs\<rparr>)" by (rule tick_parts) blast
  have "same_governance s s1" by (simp add: s1(2) same_governance_def forget_old_faults_def)
  moreover have "s' = fst (lead_propose C clock (tick_sizing (close_round r now s1)))"
    using assms s1(1) by (simp add: prod_eq_iff)
  ultimately show ?thesis
    by (metis same_governance_trans close_round_governance tick_sizing_frame(1) lead_propose_frame(1))
qed

lemma learn_config_frame [frame]:
  assumes "learn_config b s = Some s'"
  shows "same_governance s s' \<and> same_members s s' \<and> public_round s' = public_round s"
  using assms
  by (auto simp: learn_config_def Let_def same_governance_def same_members_def split: if_splits)


section \<open>No panic\<close>

lemma build_observer_total: "\<exists>ob. build_observer (Some p) peers l th = Some ob"
  by (cases p) simp_all

lemma learn_observers_total:
  "list_all (\<lambda>(i, peers, p). peers \<noteq> []) sg \<Longrightarrow>
     \<exists>r. learn_observers prev th sg old new grace = Some r"
proof (induction prev th sg old new grace rule: learn_observers.induct)
  case (2 prev th i peers proto rest old new grace)
  have "peers \<noteq> []" using 2(4) by simp
  then obtain l where l: "leader_of peers i = Some l" by (simp add: leader_of_def)
  have rest: "list_all (\<lambda>(i, peers, p). peers \<noteq> []) rest" using 2(4) by simp
  show ?case
    using 2(1-3) rest l by (auto split: option.splits)
qed simp

lemma learn_config_total:
  assumes "list_all (\<lambda>n. relays n \<noteq> []) (subnets b)"
  shows "\<exists>s'. learn_config b s = Some s'"
proof -
  have "sort rs \<noteq> []" if "rs \<noteq> []" for rs :: "pubkey list" using that by (metis set_empty set_sort)
  then have "list_all (\<lambda>(i, peers, p). peers \<noteq> []) (subnets_sig b)"
    using assms by (auto simp: subnets_sig_def list_all_iff)
  then show ?thesis
    using learn_observers_total [of "subnets_sig b"] by (fastforce simp: learn_config_def Let_def)
qed

lemma validate_structure_relays: "validate_structure C b \<Longrightarrow> list_all (\<lambda>n. relays n \<noteq> []) (subnets b)"
  by (auto simp: validate_structure_def subnet_structure_ok_def list_all_iff)

section \<open>Certificates\<close>

lemma try_assemble_certified:
  assumes "snd (try_assemble C b s) = Some a"
  shows "\<exists>cfg. a = Publish TopicConfig (config_bytes C cfg) \<and> body cfg = b \<and>
    verify_multisig C cfg (committee s) (sc_threshold s) = Inr () \<and>
    canonical_bytes C b |\<notin>| published s \<and> canonical_bytes C b |\<in>| published (fst (try_assemble C b s))"
  using assms
  by (auto simp: try_assemble_def Let_def split: if_splits option.splits sum.splits)

lemma try_assemble_frame [frame]:
  "committee (fst (try_assemble C b s)) = committee s"
  "sc_threshold (fst (try_assemble C b s)) = sc_threshold s"
  "lead (fst (try_assemble C b s)) = lead s"
  "last_accepted_round (fst (try_assemble C b s)) = last_accepted_round s"
  "same_members s (fst (try_assemble C b s))"
  "params (fst (try_assemble C b s)) = params s"
  by (simp_all add: try_assemble_def Let_def same_members_def split: option.splits sum.splits)


lemma add_sig_frame [frame]:
  "committee (add_sig k pk sg s) = committee s" "sc_threshold (add_sig k pk sg s) = sc_threshold s"
  "lead (add_sig k pk sg s) = lead s" "last_accepted_round (add_sig k pk sg s) = last_accepted_round s"
  "same_members s (add_sig k pk sg s)" "published (add_sig k pk sg s) = published s"
  "published_round (add_sig k pk sg s) = published_round s" "params (add_sig k pk sg s) = params s"
  by (simp_all add: add_sig_def same_members_def)

text \<open>The two operations that approve and publish, as the cases a proof needs.\<close>

lemma on_decoded_body_cases:
  obtains (rejected) "\<not> proposal_acceptable C p s" "on_decoded_body C p s = Some (s, [])"
  | (approved) s1 s2 where "proposal_acceptable C p s"
      "s1 = add_sig (canonical_bytes C (pr_body p)) (identity_pubkey C (sc_identity s))
         (sign C (sc_identity s) (approve_bytes C (pr_body p)))
         (s\<lparr>last_accepted_round := raise_to (last_accepted_round s) (body_round (pr_body p))\<rparr>)"
      "learn_config (pr_body p) s1 = Some s2"
      "on_decoded_body C p s = Some (fst (try_assemble C (pr_body p) s2),
         Publish CommitteeSigs (committee_sig_bytes C
           \<lparr>cs_body_bytes = canonical_bytes C (pr_body p),
            cs_signer = identity_pubkey C (sc_identity s),
            cs_signature = sign C (sc_identity s) (approve_bytes C (pr_body p))\<rparr>) #
         (case snd (try_assemble C (pr_body p) s2) of Some a \<Rightarrow> [a] | None \<Rightarrow> []))"
proof (cases "proposal_acceptable C p s")
  case True
  let ?s1 = "add_sig (canonical_bytes C (pr_body p)) (identity_pubkey C (sc_identity s))
         (sign C (sc_identity s) (approve_bytes C (pr_body p)))
         (s\<lparr>last_accepted_round := raise_to (last_accepted_round s) (body_round (pr_body p))\<rparr>)"
  have "validate_structure C (pr_body p)"
    using True by (simp add: proposal_acceptable_def validate_body_def)
  then obtain s2 where s2: "learn_config (pr_body p) ?s1 = Some s2"
    using learn_config_total validate_structure_relays by blast
  from True s2 show thesis by (intro approved) (simp_all add: on_decoded_body_def Let_def)
qed (simp add: rejected on_decoded_body_def)

lemma on_published_config_cases:
  obtains (rejected) "on_published_config C cfg s = Some (s, False)"
  | (adopted) s1 s2 where "verify_multisig C cfg (committee s) (sc_threshold s) = Inr ()"
      "validate_structure C (body cfg)"
      "s1 = s\<lparr>last_accepted_round := raise_to (last_accepted_round s) (body_round (body cfg)),
              public_round := max (public_round s) (body_round (body cfg)),
              published_round := raise_to (published_round s) (body_round (body cfg)),
              published := finsert (canonical_bytes C (body cfg)) (published s)\<rparr>"
      "learn_config (body cfg) s1 = Some s2" "on_published_config C cfg s = Some (s2, True)"
proof (cases "verify_multisig C cfg (committee s) (sc_threshold s) = Inr () \<and> validate_structure C (body cfg)")
  case True
  let ?s1 = "s\<lparr>last_accepted_round := raise_to (last_accepted_round s) (body_round (body cfg)),
              public_round := max (public_round s) (body_round (body cfg)),
              published_round := raise_to (published_round s) (body_round (body cfg)),
              published := finsert (canonical_bytes C (body cfg)) (published s)\<rparr>"
  obtain s2 where s2: "learn_config (body cfg) ?s1 = Some s2"
    using learn_config_total validate_structure_relays True by blast
  with True show thesis by (intro adopted) (simp_all add: on_published_config_def Let_def)
next
  case False
  then have "on_published_config C cfg s = Some (s, False)"
    by (auto simp: on_published_config_def split: sum.splits)
  then show thesis by (rule rejected)
qed

lemma on_committee_sig_cases:
  obtains (rejected) "on_committee_sig C m s = (s, [])"
  | (stored) b s1 where "cs_signer m \<in> set (committee s)" "from_canonical_bytes C (cs_body_bytes m) = Some b"
      "verify C (cs_signer m) (approve_bytes C b) (cs_signature m)"
      "s1 = add_sig (cs_body_bytes m) (cs_signer m) (cs_signature m) s"
      "on_committee_sig C m s = (fst (try_assemble C b s1),
         case snd (try_assemble C b s1) of Some a \<Rightarrow> [a] | None \<Rightarrow> [])"
proof (cases "cs_signer m \<in> set (committee s)")
  case True
  show thesis
  proof (cases "from_canonical_bytes C (cs_body_bytes m)")
    case (Some b)
    with True show thesis
      by (cases "verify C (cs_signer m) (approve_bytes C b) (cs_signature m)")
         (auto intro: rejected stored simp: on_committee_sig_def Let_def)
  qed (simp add: rejected on_committee_sig_def True)
qed (simp add: rejected on_committee_sig_def)

lemma handle_total: "\<exists>r. handle C op s = Some r"
proof (cases op)
  case (OpPublishedConfig cfg)
  then show ?thesis by (cases rule: on_published_config_cases [of C cfg s]) simp_all
next
  case (OpDecodedBody p)
  then show ?thesis by (cases rule: on_decoded_body_cases [of C p s]) simp_all
next
  case (OpTick r now clock)
  then show ?thesis using tick_parts [of r now s C clock] by (metis handle.simps(5))
qed simp_all

lemma handle_step: "handle C op s = Some (sched_step C op s)"
  using handle_total [of C op s] by (auto simp: sched_step_def)

lemma tick_sched_step:
  "tick C r now clock s =
     Some (fst (sched_step C (OpTick r now clock) s), snd (sched_step C (OpTick r now clock) s))"
  using handle_step [of C "OpTick r now clock" s] by simp


section \<open>The record of relays\<close>

text \<open>When an event happens, for those that carry a reading of the clock.\<close>

fun op_time :: "scheduler_op \<Rightarrow> u64 option" where
  "op_time (OpObservedFaults _ _ now) = Some now"
| "op_time (OpFaultReport _ _ now) = Some now"
| "op_time (OpTick _ now _) = Some now"
| "op_time _ = None"

lemma step_same_members:
  assumes "op_time op = None" "\<And>reg. op \<noteq> OpRegistration reg"
  shows "same_members s (fst (sched_step C op s)) \<and> params (fst (sched_step C op s)) = params s"
proof (cases op)
  case (OpPublishedConfig cfg)
  then show ?thesis
    using learn_config_frame
    by (cases rule: on_published_config_cases [of C cfg s])
       (fastforce simp: sched_step_def same_members_def same_governance_def)+
next
  case (OpDecodedBody p)
  show ?thesis
  proof (cases rule: on_decoded_body_cases [of C p s])
    case (approved s1 s2)
    have "same_members s s1" "params s1 = params s"
      by (simp_all add: approved(2) add_sig_def same_members_def)
    then have "same_members s (fst (try_assemble C (pr_body p) s2)) \<and>
        params (fst (try_assemble C (pr_body p) s2)) = params s"
      using learn_config_frame [OF approved(3)]
        try_assemble_frame(5,6) [where C = C and b = "pr_body p" and s = s2]
      by (simp add: same_members_def same_governance_def)
    then show ?thesis by (simp add: OpDecodedBody sched_step_def approved(4))
  qed (simp add: OpDecodedBody sched_step_def)
next
  case (OpCommitteeSig m)
  show ?thesis
  proof (cases rule: on_committee_sig_cases [of C m s])
    case (stored b s1)
    then show ?thesis
      using try_assemble_frame(5,6) [where C = C and b = b and s = s1]
      by (simp add: OpCommitteeSig sched_step_def add_sig_def same_members_def)
  qed (simp add: OpCommitteeSig sched_step_def)
next
  case (OpSubnetMessage i p bs)
  then show ?thesis
    by (simp add: sched_step_def on_subnet_message_frame same_governance_params [OF on_subnet_message_frame(1)])
next
  case (OpCoverRate rate)
  then show ?thesis by (simp add: sched_step_def set_cover_rate_def same_members_def)
qed (use assms in simp_all)

text \<open>
  The four ways the record of relays moves: a registration, a sidelining, the end of a
  bar, and nothing. A property that survives these survives every event.
\<close>

locale member_property =
  fixes P :: "core \<Rightarrow> bool" and now :: u64
  assumes frame: "P s \<Longrightarrow> same_members s s' \<Longrightarrow> params s' = params s \<Longrightarrow> P s'"
    and sideline: "P s \<Longrightarrow> P (sideline_peer b now pk s)"
    and expire: "P s \<Longrightarrow> P (expire_offenders now s)"
begin

lemma fold_P: "(\<And>x s. P s \<Longrightarrow> P (f x s)) \<Longrightarrow> P s \<Longrightarrow> P (fold f xs s)"
  by (induction xs arbitrary: s) auto

lemma apply_observed_faults_P: "P s \<Longrightarrow> P (apply_observed_faults i fs now s)"
proof -
  have "P (apply_fault now f s)" if "P s" for f s
    using that by (auto simp: apply_fault_def intro: fold_P sideline split: attribution.splits)
  then show "P s \<Longrightarrow> P (apply_observed_faults i fs now s)"
    by (auto simp: apply_observed_faults_def intro: fold_P)
qed

lemma on_fault_report_P: "P s \<Longrightarrow> P (on_fault_report C from report now s)"
proof -
  assume P: "P s"
  show ?thesis
  proof (cases rule: on_fault_report_cases [of C "from" report now s])
    case (applied peers proto culprit)
    have "P (s\<lparr>seen_integrity_faults := x\<rparr>)" for x
      using frame [OF P] by (simp add: same_members_def)
    then show ?thesis unfolding applied(7) by (rule apply_observed_faults_P)
  qed (simp add: P)
qed

lemma end_observer_round_P: "P s \<Longrightarrow> P (end_observer_round r now i s)"
proof -
  assume P: "P s"
  obtain s1 fs where c: "close_observer r i s = (s1, fs)" by (cases "close_observer r i s")
  then have "same_members s s1" "params s1 = params s"
    by (auto simp: close_observer_def same_members_def split: option.splits)
  then have P1: "P s1" by (rule frame [OF P])
  moreover have "P (spend_grace g i s1)" for g
    using frame [OF P1] by (simp add: spend_grace_def Let_def same_members_def)
  ultimately show ?thesis
    using apply_observed_faults_P by (auto simp: end_observer_round_def c split: option.splits)
qed

lemma tick_P:
  assumes P: "P s" and t: "tick C r now clock s = Some (s', acts)"
  shows "P s'"
proof -
  obtain s1 obs where s1: "tick C r now clock s = Some (lead_propose C clock (tick_sizing (close_round r now s1)))"
    "s1 = forget_old_faults (s\<lparr>sc_cur_round := r, observers := obs\<rparr>)" by (rule tick_parts) blast
  let ?t = "tick_sizing (close_round r now s1)"
  have "P s1" by (rule frame [OF P]) (simp_all add: s1(2) same_members_def forget_old_faults_def)
  then have "P (close_round r now s1)"
    unfolding close_round_def by (intro expire fold_P end_observer_round_P)
  then have "P ?t"
    by (rule frame) (use tick_sizing_frame in \<open>simp_all add: same_governance_def\<close>)
  then have "P (fst (lead_propose C clock ?t))"
    by (rule frame) (use lead_propose_frame [where C = C and clock = clock and s = ?t] in
      \<open>simp_all add: same_governance_def\<close>)
  then show ?thesis using t s1(1) by (simp add: prod_eq_iff)
qed

lemma step_P:
  assumes "P s" "is_none_or (\<lambda>t. t = now) (op_time op)" "\<And>reg. op \<noteq> OpRegistration reg"
  shows "P (fst (sched_step C op s))"
proof (cases "op_time op")
  case None
  then show ?thesis using step_same_members [OF None assms(3)] frame [OF assms(1)] by blast
next
  case (Some t)
  then show ?thesis
    using assms apply_observed_faults_P on_fault_report_P tick_P [OF _ tick_sched_step]
    by (cases op) (auto simp: sched_step_def)
qed

end


text \<open>
  The abstract machine: every relay has a standing. A registration makes a relay live
  unless it is barred; a fault sidelines it, a proven one bars it from that moment; when a
  bar ends the relay is sidelined until it registers again.
\<close>

datatype standing = Unknown | Live | Sidelined | Barred u64

definition register :: "pubkey \<Rightarrow> (pubkey \<Rightarrow> standing) \<Rightarrow> pubkey \<Rightarrow> standing" where
  "register pk m = (case m pk of Barred t \<Rightarrow> m | _ \<Rightarrow> m(pk := Live))"

definition blame :: "bool \<Rightarrow> u64 \<Rightarrow> pubkey \<Rightarrow> (pubkey \<Rightarrow> standing) \<Rightarrow> pubkey \<Rightarrow> standing" where
  "blame proven now pk m =
     m(pk := (if proven then Barred now else case m pk of Barred t \<Rightarrow> Barred t | _ \<Rightarrow> Sidelined))"

definition blame_fault :: "u64 \<Rightarrow> fault \<Rightarrow> (pubkey \<Rightarrow> standing) \<Rightarrow> pubkey \<Rightarrow> standing" where
  "blame_fault now f m =
     (case fault_attribution f of Peers pks \<Rightarrow> fold (blame (kind f = Integrity) now) pks m | Unattributed \<Rightarrow> m)"

definition parole :: "u64 \<Rightarrow> u64 \<Rightarrow> (pubkey \<Rightarrow> standing) \<Rightarrow> pubkey \<Rightarrow> standing" where
  "parole backoff now m =
     (\<lambda>pk. case m pk of Barred t \<Rightarrow> if now - t < backoff then Barred t else Sidelined | st \<Rightarrow> st)"

definition standing_of :: "core \<Rightarrow> pubkey \<Rightarrow> standing" where
  "standing_of s pk =
     (case fmlookup (integrity_offenders s) pk of
        Some t \<Rightarrow> Barred t
      | None \<Rightarrow> if pk |\<in>| registered s then Live else if pk |\<in>| sidelined s then Sidelined else Unknown)"

definition members_ok :: "core \<Rightarrow> bool" where
  "members_ok s \<longleftrightarrow>
     registered s |\<inter>| sidelined s = {||} \<and> fmdom (integrity_offenders s) |\<subseteq>| sidelined s"

lemma same_members_standing: "same_members s s' \<Longrightarrow> standing_of s' = standing_of s"
  by (auto simp: same_members_def standing_of_def)

lemma members_ok_registration: "members_ok s \<Longrightarrow> members_ok (on_registration reg s)"
  by (cases "(reg, s)" rule: on_registration.cases) (auto simp: members_ok_def)

lemma sideline_peer_standing:
  "members_ok s \<Longrightarrow>
     standing_of (sideline_peer b now pk s) =
       (if sideline (params s) then blame b now pk (standing_of s) else standing_of s) \<and>
     members_ok (sideline_peer b now pk s) \<and> params (sideline_peer b now pk s) = params s"
proof (cases "sideline (params s)")
  case True
  let ?s = "sideline_peer b now pk s"
  have fields: "registered ?s = registered s |-| {|pk|}" "sidelined ?s = finsert pk (sidelined s)"
    "integrity_offenders ?s = (if b then fmupd pk now (integrity_offenders s) else integrity_offenders s)"
    "params ?s = params s"
    using True by (simp_all add: sideline_peer_def Let_def)
  assume ok: "members_ok s"
  have "standing_of ?s pk' = blame b now pk (standing_of s) pk'" for pk'
    unfolding standing_of_def fields blame_def
    by (cases "pk' = pk"; cases b; cases "fmlookup (integrity_offenders s) pk'") simp_all
  moreover have "members_ok ?s" using ok by (auto simp: members_ok_def fields)
  ultimately show ?thesis using True fields(4) by (simp add: fun_eq_iff)
qed (simp add: sideline_peer_def)

lemma expire_standing:
  "members_ok s \<Longrightarrow>
     standing_of (expire_offenders now s) = parole (integrity_backoff_ms (params s)) now (standing_of s) \<and>
     members_ok (expire_offenders now s)"
proof -
  assume ok: "members_ok s"
  have "fmdom (fm_retain P m) |\<subseteq>| fmdom m" for P and m :: "(pubkey, u64) fmap"
    by (auto simp: fm_retain_def)
  moreover have "pk |\<notin>| registered s \<and> pk |\<in>| sidelined s" if "fmlookup (integrity_offenders s) pk = Some t" for pk t
    using that ok by (auto simp: members_ok_def dest: fmdomI)
  ultimately show ?thesis
    using ok by (auto simp: expire_offenders_def standing_of_def parole_def members_ok_def fun_eq_iff
        split: option.splits)
qed

interpretation members: member_property "\<lambda>s. members_ok s" now for now
proof
  show "members_ok s \<Longrightarrow> same_members s s' \<Longrightarrow> members_ok s'" for s s'
    by (simp add: members_ok_def same_members_def)
qed (use sideline_peer_standing expire_standing in blast)+

lemma members_ok_step: "members_ok s \<Longrightarrow> members_ok (fst (sched_step C op s))"
proof (cases "\<exists>reg. op = OpRegistration reg")
  case True
  then show "members_ok s \<Longrightarrow> ?thesis" by (auto simp: sched_step_def members_ok_registration)
next
  case False
  then show "members_ok s \<Longrightarrow> ?thesis"
    by (intro members.step_P [where now = "case op_time op of Some t \<Rightarrow> t | None \<Rightarrow> 0"])
       (auto split: option.splits)
qed

lemma fold_refines:
  assumes "\<And>x s. ok s \<Longrightarrow> g (f x s) = h x (g s) \<and> ok (f x s)"
  shows "ok s \<Longrightarrow> g (fold f xs s) = fold h xs (g s) \<and> ok (fold f xs s)"
proof (induction xs arbitrary: s)
  case (Cons x xs)
  show ?case using assms [OF Cons.prems, of x] Cons.IH [of "f x s"] by simp
qed simp

lemma apply_fault_standing:
  assumes "members_ok s" "sideline (params s)"
  shows "standing_of (apply_fault now f s) = blame_fault now f (standing_of s) \<and>
    members_ok (apply_fault now f s) \<and> sideline (params (apply_fault now f s))"
proof (cases "fault_attribution f")
  case (Peers pks)
  have "standing_of (fold (sideline_peer b now) pks s) = fold (blame b now) pks (standing_of s) \<and>
      (members_ok (fold (sideline_peer b now) pks s) \<and> sideline (params (fold (sideline_peer b now) pks s)))" for b
    by (rule fold_refines [where ok = "\<lambda>s. members_ok s \<and> sideline (params s)"])
       (use assms sideline_peer_standing in auto)
  with Peers show ?thesis by (simp add: apply_fault_def blame_fault_def)
qed (simp add: apply_fault_def blame_fault_def assms)

lemma apply_observed_faults_standing:
  assumes "members_ok s"
  shows "standing_of (apply_observed_faults i fs now s) =
    (if sideline (params s) \<and> renegotiate_on_fault (params s)
     then fold (blame_fault now) fs (standing_of s) else standing_of s)"
proof -
  have on: "standing_of (fold (apply_fault now) fs s) = fold (blame_fault now) fs (standing_of s)"
    if "sideline (params s)"
    using fold_refines [where ok = "\<lambda>s. members_ok s \<and> sideline (params s)" and xs = fs and s = s
        and g = standing_of and f = "apply_fault now" and h = "blame_fault now"]
      apply_fault_standing that assms by blast
  have "fold (sideline_peer b now) pks s = s" if "\<not> sideline (params s)" for b pks s
    using that by (induction pks) (simp_all add: sideline_peer_def)
  then have "apply_fault now f s = s" if "\<not> sideline (params s)" for f s
    using that by (simp add: apply_fault_def split: attribution.splits)
  then have off: "fold (apply_fault now) fs s = s" if "\<not> sideline (params s)"
    using that by (induction fs) simp_all
  show ?thesis using on off by (auto simp: apply_observed_faults_def)
qed


section \<open>Steps\<close>

definition opt_le :: "nat option \<Rightarrow> nat option \<Rightarrow> bool" where
  "opt_le a b \<longleftrightarrow> (\<forall>x. a = Some x \<longrightarrow> (\<exists>y. b = Some y \<and> x \<le> y))"

lemma opt_le_refl [simp]: "opt_le a a"
  by (simp add: opt_le_def)

lemma opt_le_trans: "opt_le a b \<Longrightarrow> opt_le b c \<Longrightarrow> opt_le a c"
  by (fastforce simp: opt_le_def)

lemma opt_le_raise [simp]: "opt_le a (raise_to a n)"
  by (auto simp: opt_le_def raise_to_def)

text \<open>No event moves a member to another committee, and its rounds and publications only grow.\<close>

definition governance_grows :: "core \<Rightarrow> core \<Rightarrow> bool" where
  "governance_grows s s' \<longleftrightarrow>
     sc_identity s' = sc_identity s \<and> committee s' = committee s \<and> sc_threshold s' = sc_threshold s \<and>
     lead s' = lead s \<and> params s' = params s \<and>
     opt_le (last_accepted_round s) (last_accepted_round s') \<and>
     opt_le (published_round s) (published_round s') \<and> published s |\<subseteq>| published s'"

lemma governance_grows_refl [simp]: "governance_grows s s"
  by (simp add: governance_grows_def)

lemma governance_grows_trans: "governance_grows a b \<Longrightarrow> governance_grows b c \<Longrightarrow> governance_grows a c"
  unfolding governance_grows_def by (metis opt_le_trans order_trans)

lemma same_governance_grows: "same_governance s s' \<Longrightarrow> governance_grows s s'"
  by (simp add: same_governance_def governance_grows_def)

lemma try_assemble_grows: "governance_grows s (fst (try_assemble C b s))"
  by (auto simp: try_assemble_def Let_def governance_grows_def split: option.splits sum.splits)

lemma step_grows: "governance_grows s (fst (sched_step C op s))"
proof (cases op)
  case (OpRegistration reg)
  then show ?thesis
    by (cases "(reg, s)" rule: on_registration.cases) (simp_all add: sched_step_def governance_grows_def)
next
  case (OpPublishedConfig cfg)
  show ?thesis
  proof (cases rule: on_published_config_cases [of C cfg s])
    case (adopted s1 s2)
    have "governance_grows s s1" by (auto simp: adopted(3) governance_grows_def)
    moreover have "governance_grows s1 s2"
      using learn_config_frame [OF adopted(4)] same_governance_grows by blast
    ultimately show ?thesis
      by (simp add: OpPublishedConfig sched_step_def adopted(5)) (rule governance_grows_trans)
  qed (simp add: OpPublishedConfig sched_step_def)
next
  case (OpDecodedBody p)
  show ?thesis
  proof (cases rule: on_decoded_body_cases [of C p s])
    case (approved s1 s2)
    have "governance_grows s s1" by (auto simp: approved(2) governance_grows_def add_sig_def)
    moreover have "governance_grows s1 s2"
      using learn_config_frame [OF approved(3)] same_governance_grows by blast
    ultimately have "governance_grows s (fst (try_assemble C (pr_body p) s2))"
      using try_assemble_grows governance_grows_trans by meson
    then show ?thesis by (simp add: OpDecodedBody sched_step_def approved(4))
  qed (simp add: OpDecodedBody sched_step_def)
next
  case (OpCommitteeSig m)
  show ?thesis
  proof (cases rule: on_committee_sig_cases [of C m s])
    case (stored b s1)
    have "governance_grows s s1" by (auto simp: stored(4) governance_grows_def add_sig_def)
    then have "governance_grows s (fst (try_assemble C b s1))"
      using try_assemble_grows governance_grows_trans by meson
    then show ?thesis by (simp add: OpCommitteeSig sched_step_def stored(5))
  qed (simp add: OpCommitteeSig sched_step_def)
next
  case (OpCoverRate rate)
  then show ?thesis by (simp add: sched_step_def set_cover_rate_def governance_grows_def)
next
  case (OpTick r now clock)
  then show ?thesis using tick_governance [OF tick_sched_step] same_governance_grows by blast
qed (simp_all add: sched_step_def same_governance_grows frame)

lemma run_rel:
  assumes "\<And>op s. R s (fst (step op s))" "\<And>s. R s s" "\<And>a b c. R a b \<Longrightarrow> R b c \<Longrightarrow> R a c"
  shows "R s (fst (run_ops step ops s))"
proof (induction ops arbitrary: s)
  case (Cons op ops)
  then show ?case using assms(1) [of s op] assms(3) by (metis run_ops_Cons(1))
qed (simp add: assms(2))

text \<open>Only two events publish a configuration, and both through \<open>try_assemble\<close>.\<close>

definition certified :: "'z codecs_scheme \<Rightarrow> pubkey list \<Rightarrow> u32 \<Rightarrow> scheduler_action \<Rightarrow> bool" where
  "certified C cs t a \<longleftrightarrow>
     (\<forall>bs. a = Publish TopicConfig bs \<longrightarrow>
        (\<exists>cfg. bs = config_bytes C cfg \<and> verify_multisig C cfg cs t = Inr ()))"

lemma try_assemble_certifies: "snd (try_assemble C b s) = Some a \<Longrightarrow> certified C (committee s) (sc_threshold s) a"
  using try_assemble_certified [of C b s a] by (auto simp: certified_def)

lemma tick_actions: "tick C r now clock s = Some (s', acts) \<Longrightarrow> a \<in> set acts \<Longrightarrow> \<exists>bs. a = StageProposal bs"
  by (auto simp: tick_def lead_propose_def Let_def split: option.splits if_splits)

lemma step_certified:
  assumes "a \<in> set (snd (sched_step C op s))"
  shows "certified C (committee s) (sc_threshold s) a"
proof (cases op)
  case (OpTick r now clock)
  then show ?thesis
    using assms tick_actions [OF tick_sched_step] by (fastforce simp: certified_def)
next
  case (OpPublishedConfig cfg)
  then show ?thesis
    using assms by (cases rule: on_published_config_cases [of C cfg s]) (simp_all add: sched_step_def)
next
  case (OpDecodedBody p)
  show ?thesis
  proof (cases rule: on_decoded_body_cases [of C p s])
    case (approved s1 s2)
    have "committee s2 = committee s \<and> sc_threshold s2 = sc_threshold s"
      using learn_config_frame [OF approved(3)] by (simp add: same_governance_def approved(2) add_sig_def)
    then show ?thesis
      using assms try_assemble_certifies [of C "pr_body p" s2 a]
      by (auto simp: OpDecodedBody sched_step_def approved(4) certified_def split: option.splits)
  qed (use assms OpDecodedBody in \<open>simp add: sched_step_def\<close>)
next
  case (OpCommitteeSig m)
  show ?thesis
  proof (cases rule: on_committee_sig_cases [of C m s])
    case (stored b s1)
    then show ?thesis
      using assms try_assemble_certifies [of C b s1 a]
      by (auto simp: OpCommitteeSig sched_step_def stored(5) add_sig_def split: option.splits)
  qed (use assms OpCommitteeSig in \<open>simp add: sched_step_def\<close>)
qed (use assms in \<open>simp_all add: sched_step_def\<close>)

interpretation scheduler: component "sched_step C" "\<lambda>_ _. True"
  "\<lambda>s :: core. committee s = cs \<and> sc_threshold s = t" "certified C cs t" for C cs t
proof
  fix s :: core and op a
  assume "committee s = cs \<and> sc_threshold s = t"
  then show "committee (fst (sched_step C op s)) = cs \<and> sc_threshold (fst (sched_step C op s)) = t"
    using step_grows [of s C op] by (simp add: governance_grows_def)
  show "a \<in> set (snd (sched_step C op s)) \<Longrightarrow> certified C cs t a"
    using step_certified [of a C op s] \<open>committee s = cs \<and> sc_threshold s = t\<close> by simp
qed


section \<open>Main results\<close>


text \<open>
  C2. Every configuration a member ever publishes, over any run of events, is certified: at
  least the threshold of distinct committee members signed its approval bytes.
\<close>

theorem published_configs_certified:
  assumes "Publish TopicConfig bs \<in> set (snd (run_ops (sched_step C) ops s))"
  shows "\<exists>cfg. bs = config_bytes C cfg \<and> verify_multisig C cfg (committee s) (sc_threshold s) = Inr () \<and>
    sc_threshold s \<le> card (valid_signers C (committee s) cfg)"
proof -
  have "certified C (committee s) (sc_threshold s) (Publish TopicConfig bs)"
    using assms by (intro scheduler.run_good [where s = s and ops = ops]) simp_all
  then obtain cfg where cfg: "bs = config_bytes C cfg"
      "verify_multisig C cfg (committee s) (sc_threshold s) = Inr ()"
    by (auto simp: certified_def)
  then show ?thesis using verify_multisig_threshold by blast
qed

definition demo_publishing_run :: "scheduler_op list" where
  "demo_publishing_run = [OpCommitteeSig (demo_approval 2 7), OpCommitteeSig (demo_approval 3 7)]"

lemma demo_publishing_run_publishes:
  "snd (run_ops (sched_step demo_sched_codecs) demo_publishing_run demo_core) =
     [Publish TopicConfig []]"
  by code_simp

theorem published_configs_certified_witness:
  "\<exists>cfg. sc_threshold demo_core \<le> card (valid_signers demo_sched_codecs (committee demo_core) cfg)"
  using published_configs_certified [where C = demo_sched_codecs and s = demo_core
      and ops = demo_publishing_run and bs = "[]"]
  unfolding demo_publishing_run_publishes by auto


text \<open>
  C7. A member never goes back: over any run, the highest round it accepted and the highest
  round it published never fall, no publication is forgotten, and its committee, threshold
  and lead stay the same.
\<close>

theorem accepted_round_never_falls:
  "opt_le (last_accepted_round s) (last_accepted_round (fst (run_ops (sched_step C) ops s))) \<and>
   opt_le (published_round s) (published_round (fst (run_ops (sched_step C) ops s))) \<and>
   published s |\<subseteq>| published (fst (run_ops (sched_step C) ops s)) \<and>
   committee (fst (run_ops (sched_step C) ops s)) = committee s \<and>
   sc_threshold (fst (run_ops (sched_step C) ops s)) = sc_threshold s \<and>
   lead (fst (run_ops (sched_step C) ops s)) = lead s"
proof -
  have "governance_grows s (fst (run_ops (sched_step C) ops s))"
    by (rule run_rel [where R = governance_grows])
       (rule step_grows, simp, erule governance_grows_trans, assumption)
  then show ?thesis by (simp add: governance_grows_def)
qed

text \<open>
  Everything a member knows of a relay or service came from a registration: \<open>backed H\<close> says
  that the events \<open>H\<close> account for its record.
\<close>

definition backed :: "scheduler_op set \<Rightarrow> core \<Rightarrow> bool" where
  "backed H s \<longleftrightarrow>
     (\<forall>pk. pk |\<in>| registered s \<longrightarrow> (\<exists>xk a u g. OpRegistration (Relay pk xk a u g) \<in> H)) \<and>
     (\<forall>pk xk. fmlookup (relay_xpubs s) pk = Some xk \<longrightarrow> (\<exists>a u g. OpRegistration (Relay pk xk a u g) \<in> H)) \<and>
     (\<forall>pk u. fmlookup (node_rpc_urls s) pk = Some u \<longrightarrow>
        (\<exists>xk a g. OpRegistration (Relay pk xk a (Some u) g) \<in> H)) \<and>
     (\<forall>tag pk. fmlookup (sc_services s) tag = Some pk \<longrightarrow>
        (\<exists>xk d g. OpRegistration (Service tag pk xk d g) \<in> H)) \<and>
     (\<forall>tag u. fmlookup (service_descriptor_urls s) tag = Some u \<longrightarrow>
        (\<exists>pk xk g. OpRegistration (Service tag pk xk (Some u) g) \<in> H))"

lemma sideline_peer_book:
  "registered (sideline_peer b now pk s) |\<subseteq>| registered s"
  "relay_xpubs (sideline_peer b now pk s) = relay_xpubs s"
  "sc_services (sideline_peer b now pk s) = sc_services s"
  "node_rpc_urls (sideline_peer b now pk s) = node_rpc_urls s"
  "service_descriptor_urls (sideline_peer b now pk s) = service_descriptor_urls s"
  by (auto simp: sideline_peer_def Let_def)

interpretation backed: member_property "backed H" now for H now
proof
  show "backed H s \<Longrightarrow> same_members s s' \<Longrightarrow> backed H s'" for s s'
    by (simp add: backed_def same_members_def)
  show "backed H s \<Longrightarrow> backed H (sideline_peer b now pk s)" for s b pk
    using fsubsetD [OF sideline_peer_book(1) [of b now pk s]]
    unfolding backed_def sideline_peer_book(2-5) by blast
  show "backed H s \<Longrightarrow> backed H (expire_offenders now s)" for s
    by (simp add: backed_def expire_offenders_def)
qed

lemma fmlookup_set_or_remove:
  "fmlookup (set_or_remove k v m) k' = (if k' = k then v else fmlookup m k')"
  by (simp add: set_or_remove_def split: option.splits)

lemma backed_registration:
  "backed H s \<Longrightarrow> OpRegistration reg \<in> H \<Longrightarrow> backed H (on_registration reg s)"
proof (cases reg)
  case (Relay pk xk a u g)
  assume b: "backed H s" and reg: "OpRegistration reg \<in> H"
  have "\<exists>xk a u g. OpRegistration (Relay pk xk a u g) \<in> H" "\<exists>a u g. OpRegistration (Relay pk xk a u g) \<in> H"
    using reg Relay by blast+
  then show ?thesis
    using b reg unfolding backed_def Relay on_registration.simps
    by (auto simp: fmlookup_set_or_remove)
next
  case (Service tag pk xk d g)
  assume b: "backed H s" and reg: "OpRegistration reg \<in> H"
  then show ?thesis
    unfolding backed_def Service on_registration.simps
    by (auto simp: fmlookup_set_or_remove)
qed (simp add: backed_def)

interpretation recorded: component "sched_step C" "\<lambda>op _. op \<in> H" "backed H" "\<lambda>_. True" for C H
proof
  fix s :: core and op
  assume b: "backed H s" and op: "op \<in> H"
  show "backed H (fst (sched_step C op s))"
  proof (cases "\<exists>reg. op = OpRegistration reg")
    case True
    then show ?thesis using backed_registration [OF b] op by (auto simp: sched_step_def)
  next
    case False
    then show ?thesis
      by (intro backed.step_P [where now = "case op_time op of Some t \<Rightarrow> t | None \<Rightarrow> 0"] b)
         (auto split: option.splits)
  qed
qed simp

lemma run_allowed_members: "set ops \<subseteq> H \<Longrightarrow> run_allowed step (\<lambda>op _. op \<in> H) ops s"
  by (induction ops arbitrary: s) auto

lemma backed_new_core: "backed H (new_core C i cs t p)"
  by (simp add: backed_def new_core_def Let_def)


lemma validate_body_backed:
  assumes "backed H s" "validate_body C b s"
  shows "(\<forall>n \<in> set (subnets b). \<forall>pk \<in> set (relays n).
      \<exists>xk a u g. OpRegistration (Relay pk xk a u g) \<in> H) \<and>
    (\<forall>(pk, xk) \<in> set (relay_exchange_keys b). \<exists>a u g. OpRegistration (Relay pk xk a u g) \<in> H) \<and>
    (\<forall>(pk, u) \<in> set (node_urls (body_endpoints b)). \<exists>xk a g. OpRegistration (Relay pk xk a (Some u) g) \<in> H) \<and>
    (\<forall>v \<in> set (services b). \<exists>xk d g. OpRegistration (Service (entry_tag v) (entry_pubkey v) xk d g) \<in> H) \<and>
    (\<forall>(tag, u) \<in> set (service_urls (body_endpoints b)).
      \<exists>pk xk g. OpRegistration (Service tag pk xk (Some u) g) \<in> H)"
  using assms unfolding backed_def validate_body_def exchange_keys_match_def subnet_acceptable_def list_all_iff
  by fast

lemma on_decoded_body_acceptable:
  "on_decoded_body C p s = Some (s', acts) \<Longrightarrow> acts \<noteq> [] \<Longrightarrow> proposal_acceptable C p s"
  by (cases rule: on_decoded_body_cases [of C p s]) simp_all

text \<open>
  C3. A member approves only what it saw registered. Whatever run of events brought a fresh
  member to its state, a proposal it approves was signed by the lead, is not older than what
  it accepted and not far above it, and every relay, exchange key, node address, service and
  service address in it comes from a registration that the member processed.
\<close>

theorem approved_body_registered:
  assumes "s = fst (run_ops (sched_step C) ops (new_core C i cs t prm))"
    and "on_decoded_body C p s = Some (s', acts)" "acts \<noteq> []" "b = pr_body p"
  shows "proposer p = lead s \<and> verify C (lead s) (propose_bytes C b) (pr_signature p) \<and>
    opt_le (last_accepted_round s) (Some (body_round b)) \<and>
    body_round b \<le> established s + MAX_ROUND_ADVANCE \<and>
    (\<forall>n \<in> set (subnets b). \<forall>pk \<in> set (relays n).
      \<exists>xk a u g. OpRegistration (Relay pk xk a u g) \<in> set ops) \<and>
    (\<forall>(pk, xk) \<in> set (relay_exchange_keys b). \<exists>a u g. OpRegistration (Relay pk xk a u g) \<in> set ops) \<and>
    (\<forall>(pk, u) \<in> set (node_urls (body_endpoints b)).
      \<exists>xk a g. OpRegistration (Relay pk xk a (Some u) g) \<in> set ops) \<and>
    (\<forall>v \<in> set (services b).
      \<exists>xk d g. OpRegistration (Service (entry_tag v) (entry_pubkey v) xk d g) \<in> set ops) \<and>
    (\<forall>(tag, u) \<in> set (service_urls (body_endpoints b)).
      \<exists>pk xk g. OpRegistration (Service tag pk xk (Some u) g) \<in> set ops)"
proof -
  have acc: "proposal_acceptable C p s" using on_decoded_body_acceptable assms(2,3) by blast
  have "backed (set ops) s"
    unfolding assms(1) by (rule recorded.run_inv) (simp_all add: backed_new_core run_allowed_members)
  then have reg: "backed (set ops) s" "validate_body C b s"
    using acc by (simp_all add: proposal_acceptable_def assms(4))
  have "proposer p = lead s" "verify C (lead s) (propose_bytes C b) (pr_signature p)"
    "opt_le (last_accepted_round s) (Some (body_round b))"
    "body_round b \<le> established s + MAX_ROUND_ADVANCE"
    using acc
    by (auto simp: proposal_acceptable_def assms(4) opt_le_def saturating_add_def min_def
        split: option.splits if_splits)
  with validate_body_backed [OF reg] show ?thesis by blast
qed

theorem approved_body_registered_witness:
  "\<exists>s' acts. on_decoded_body demo_sched_codecs (demo_proposal 1)
      (fst (run_ops (sched_step demo_sched_codecs) demo_registrations demo_core)) = Some (s', acts) \<and>
    acts \<noteq> [] \<and>
    (\<exists>xk a u g. OpRegistration (Relay (identity_pubkey demo_sched_codecs (demo_identity 2)) xk a u g)
      \<in> set demo_registrations)"
proof -
  let ?s = "fst (run_ops (sched_step demo_sched_codecs) demo_registrations demo_core)"
  have ok: "map_option (\<lambda>r. snd r = []) (on_decoded_body demo_sched_codecs (demo_proposal 1) ?s) = Some False"
    by code_simp
  then obtain s' acts where run: "on_decoded_body demo_sched_codecs (demo_proposal 1) ?s = Some (s', acts)"
    "acts \<noteq> []" by auto
  obtain n where n: "n \<in> set (subnets (pr_body (demo_proposal 1)))"
    "identity_pubkey demo_sched_codecs (demo_identity 2) \<in> set (relays n)"
  proof
    show "hd (subnets (pr_body (demo_proposal 1))) \<in> set (subnets (pr_body (demo_proposal 1)))" by code_simp
    show "identity_pubkey demo_sched_codecs (demo_identity 2)
        \<in> set (relays (hd (subnets (pr_body (demo_proposal 1)))))" by code_simp
  qed
  have "\<forall>n \<in> set (subnets (pr_body (demo_proposal 1))). \<forall>pk \<in> set (relays n).
      \<exists>xk a u g. OpRegistration (Relay pk xk a u g) \<in> set demo_registrations"
    using approved_body_registered [OF refl run [unfolded demo_core_def] refl] by blast
  with n run show ?thesis by blast
qed


lemma registration_standing:
  "members_ok s \<Longrightarrow> standing_of (on_registration (Relay pk xk a u g) s) = register pk (standing_of s)"
proof (rule ext)
  fix pk'
  assume ok: "members_ok s"
  show "standing_of (on_registration (Relay pk xk a u g) s) pk' = register pk (standing_of s) pk'"
  proof (cases "fmlookup (integrity_offenders s) pk")
    case None
    then show ?thesis
      by (auto simp: standing_of_def register_def fmdom_notI split: standing.splits option.splits)
  next
    case (Some t)
    then have "standing_of s pk = Barred t" "pk |\<in>| fmdom (integrity_offenders s)"
      by (auto simp: standing_of_def intro: fmdomI)
    then show ?thesis by (simp add: register_def)
  qed
qed

text \<open>
  C4. The member's three sets of relays implement the abstract membership machine: relay
  registrations, observed faults and the end of a bar act on standings exactly as the
  machine's operations do (faults only where the deployment lets them), every other event
  leaves every standing alone, and the sets stay consistent with each other.
\<close>

theorem membership_refines:
  assumes "members_ok s"
  shows "standing_of (on_registration (Relay pk xk a u g) s) = register pk (standing_of s) \<and>
    standing_of (apply_observed_faults i fs now s) =
      (if sideline (params s) \<and> renegotiate_on_fault (params s)
       then fold (blame_fault now) fs (standing_of s) else standing_of s) \<and>
    standing_of (expire_offenders now s) = parole (integrity_backoff_ms (params s)) now (standing_of s) \<and>
    (op_time op = None \<and> (\<forall>reg. op \<noteq> OpRegistration reg) \<longrightarrow>
      standing_of (fst (sched_step C op s)) = standing_of s) \<and>
    members_ok (fst (sched_step C op s))"
proof -
  have "standing_of (fst (sched_step C op s)) = standing_of s"
    if "op_time op = None" "\<forall>reg. op \<noteq> OpRegistration reg"
    using step_same_members [of op s C] that same_members_standing by blast
  then show ?thesis
    using assms registration_standing apply_observed_faults_standing expire_standing members_ok_step
    by blast
qed

theorem membership_refines_witness:
  "standing_of (on_registration (demo_relay 2) demo_core) =
     register (identity_pubkey demo_sched_codecs (demo_identity 2)) (standing_of demo_core) \<and>
   standing_of (on_registration (demo_relay 2) demo_core)
     (identity_pubkey demo_sched_codecs (demo_identity 2)) = Live"
proof -
  have "members_ok demo_core"
    by (simp add: members_ok_def demo_core_def new_core_def Let_def)
  then have "standing_of (on_registration (demo_relay 2) demo_core) =
     register (identity_pubkey demo_sched_codecs (demo_identity 2)) (standing_of demo_core)"
    unfolding demo_relay_def using membership_refines by blast
  moreover have "standing_of (on_registration (demo_relay 2) demo_core)
     (identity_pubkey demo_sched_codecs (demo_identity 2)) = Live" by code_simp
  ultimately show ?thesis by blast
qed

section \<open>Barred relays\<close>

definition barred :: "pubkey \<Rightarrow> u64 \<Rightarrow> u64 \<Rightarrow> core \<Rightarrow> bool" where
  "barred pk t backoff s \<longleftrightarrow>
     members_ok s \<and> integrity_backoff_ms (params s) = backoff \<and>
     (\<exists>t'. t \<le> t' \<and> standing_of s pk = Barred t')"

lemma barred_property:
  assumes "t \<le> now" "now < t + backoff"
  shows "member_property (barred pk t backoff) now"
proof
  show "barred pk t backoff s \<Longrightarrow> same_members s s' \<Longrightarrow> params s' = params s \<Longrightarrow> barred pk t backoff s'" for s s'
    using same_members_standing [of s s'] by (simp add: barred_def members_ok_def same_members_def)
  show "barred pk t backoff s \<Longrightarrow> barred pk t backoff (sideline_peer b now pk' s)" for s b pk'
    using sideline_peer_standing [of s b now pk'] assms(1)
    by (auto simp: barred_def blame_def)
  show "barred pk t backoff s \<Longrightarrow> barred pk t backoff (expire_offenders now s)" for s
  proof -
    assume "barred pk t backoff s"
    then obtain t' where t': "members_ok s" "integrity_backoff_ms (params s) = backoff" "t \<le> t'"
      "standing_of s pk = Barred t'" by (auto simp: barred_def)
    moreover have "now - t' < backoff" using assms t'(3) by linarith
    moreover have "params (expire_offenders now s) = params s" by (simp add: expire_offenders_def)
    ultimately show ?thesis using expire_standing [of s now] by (auto simp: barred_def parole_def)
  qed
qed

lemma other_registration_standing [simp]:
  "standing_of (on_registration (Service tag pk xk d g) s) = standing_of s"
  "standing_of (on_registration (Watcher pk g) s) = standing_of s"
  by (simp_all add: standing_of_def fun_eq_iff)

lemma barred_registration: "barred pk t backoff s \<Longrightarrow> barred pk t backoff (on_registration reg s)"
proof (cases reg)
  case (Relay pk' xk a u g)
  have "params (on_registration reg s) = params s" by (simp add: Relay)
  then show "barred pk t backoff s \<Longrightarrow> ?thesis"
    using registration_standing [of s pk' xk a u g] members_ok_registration [of s reg]
    by (auto simp: barred_def register_def Relay split: standing.splits)
qed (use members_ok_registration [of s reg] in \<open>auto simp: barred_def simp del: on_registration.simps(1,3)\<close>,
     simp_all)

interpretation bar: component "sched_step C"
  "\<lambda>op _. is_none_or (\<lambda>n. t \<le> n \<and> n < t + backoff) (op_time op)" "barred pk t backoff" "\<lambda>_. True"
  for C t backoff pk
proof
  fix s op
  assume b: "barred pk t backoff s" and time: "is_none_or (\<lambda>n. t \<le> n \<and> n < t + backoff) (op_time op)"
  show "barred pk t backoff (fst (sched_step C op s))"
  proof (cases "op_time op")
    case (Some now)
    then show ?thesis
      using time by (intro member_property.step_P [OF barred_property, of t now] b) auto
  next
    case None
    then show ?thesis
    proof (cases "\<exists>reg. op = OpRegistration reg")
      case True
      then show ?thesis using barred_registration [OF b] by (auto simp: sched_step_def)
    next
      case False
      then have "same_members s (fst (sched_step C op s))" "params (fst (sched_step C op s)) = params s"
        using step_same_members [OF None] by blast+
      then show ?thesis
        using b same_members_standing [of s "fst (sched_step C op s)"]
        by (simp add: barred_def members_ok_def same_members_def)
    qed
  qed
qed simp


text \<open>
  C5. A relay that was proven to misbehave stays out until its backoff is over: from the
  moment of the offence, no sequence of events within the backoff, its own registrations
  included, makes it live again, places it in a proposal, or lets the member approve a
  proposal that uses it as a relay or aggregator.
\<close>

theorem barred_relay_stays_out:
  assumes "members_ok s" "fmlookup (integrity_offenders s) pk = Some t"
    and "list_all (\<lambda>op. is_none_or (\<lambda>n. t \<le> n \<and> n < t + integrity_backoff_ms (params s)) (op_time op)) ops"
    and "s' = fst (run_ops (sched_step C) ops s)"
  shows "pk |\<notin>| registered s' \<and> pk \<notin> set (placed_relays s') \<and>
    (\<forall>p n. proposal_acceptable C p s' \<and> n \<in> set (subnets (pr_body p)) \<longrightarrow>
       pk \<notin> set (relays n) \<and> pk \<notin> set (subnet_aggregators n))"
proof -
  have "run_allowed (sched_step C) (\<lambda>op _. is_none_or (\<lambda>n. t \<le> n \<and> n < t + B) (op_time op)) ops s"
    if "list_all (\<lambda>op. is_none_or (\<lambda>n. t \<le> n \<and> n < t + B) (op_time op)) ops" for B s
    using that by (induction ops arbitrary: s) simp_all
  then have run: "run_allowed (sched_step C)
      (\<lambda>op _. is_none_or (\<lambda>n. t \<le> n \<and> n < t + integrity_backoff_ms (params s)) (op_time op)) ops s"
    using assms(3) by blast
  have "barred pk t (integrity_backoff_ms (params s)) s"
    using assms(1,2) by (simp add: barred_def standing_of_def)
  then have "barred pk t (integrity_backoff_ms (params s)) s'"
    unfolding assms(4) by (rule bar.run_inv) (rule run)
  then have "members_ok s'" "pk |\<in>| fmdom (integrity_offenders s')"
    by (auto simp: barred_def standing_of_def intro: fmdomI split: option.splits if_splits)
  then have out: "pk |\<notin>| registered s'" by (auto simp: members_ok_def)
  then have "pk \<notin> set (placed_relays s')"
    by (auto simp: placed_relays_def sorted_list_of_fset.rep_eq dest!: in_set_takeD)
  moreover have "pk \<notin> set (relays n) \<and> pk \<notin> set (subnet_aggregators n)"
    if "proposal_acceptable C p s'" "n \<in> set (subnets (pr_body p))" for p n
  proof -
    have "subnet_acceptable s' n"
      using that by (auto simp: proposal_acceptable_def validate_body_def list_all_iff)
    then show ?thesis
      using out
      by (auto simp: subnet_acceptable_def aggregation_valid_def subnet_aggregators_def
          subnet_aggregation_def list_all_iff split: option.splits protocol_config.splits)
  qed
  ultimately show ?thesis using out by blast
qed

definition demo_offender :: core where
  "demo_offender =
     apply_observed_faults 0 [\<lparr>kind = Integrity,
        fault_attribution = Peers [identity_pubkey demo_sched_codecs (demo_identity 2)], evidence = []\<rparr>] 5000
       (fst (run_ops (sched_step demo_sched_codecs) demo_registrations demo_core))"

theorem barred_relay_stays_out_witness:
  "identity_pubkey demo_sched_codecs (demo_identity 2) |\<notin>|
     registered (fst (run_ops (sched_step demo_sched_codecs)
       (OpTick 9 6000 6000 # demo_registrations) demo_offender))"
proof -
  have ok: "members_ok demo_offender" by code_simp
  have off: "fmlookup (integrity_offenders demo_offender) (identity_pubkey demo_sched_codecs (demo_identity 2))
      = Some 5000" by code_simp
  have time: "list_all (\<lambda>op. is_none_or (\<lambda>n. 5000 \<le> n \<and>
      n < 5000 + integrity_backoff_ms (params demo_offender)) (op_time op))
      (OpTick 9 6000 6000 # demo_registrations)" by code_simp
  show ?thesis using barred_relay_stays_out [OF ok off time refl] by blast
qed


section \<open>Fault reports\<close>

lemma culprit_signed:
  assumes "integrity_culprit_from_evidence C ev peers = Some culprit"
  shows "culprit \<in> set peers \<and>
    (\<exists>r i clients ao as ss lo sig. pan_wire_of_bytes C ev = Some (ServerPublic r i clients ao as ss lo sig) \<and>
       slice_get peers i = Some culprit \<and>
       verify C culprit (server_public_signing_bytes C r i clients ao as ss lo) sig \<and>
       \<not> server_public_consistent C ao as)"
  using assms
  by (auto simp: integrity_culprit_from_evidence_def slice_get_in_set
      split: option.splits panetiere_wire.splits if_splits)

lemma apply_observed_faults_frame:
  "current_subnets_sig (apply_observed_faults i fs now s) = current_subnets_sig s \<and>
   observers (apply_observed_faults i fs now s) = observers s \<and>
   seen_integrity_faults (apply_observed_faults i fs now s) = seen_integrity_faults s"
proof -
  define same where "same = (\<lambda>(s :: core) (s' :: core). current_subnets_sig s' = current_subnets_sig s \<and>
      observers s' = observers s \<and> seen_integrity_faults s' = seen_integrity_faults s)"
  have peers: "same s (fold (sideline_peer b now) pks s)" for b pks and s :: core
    by (rule fold_rel [where R = same]) (auto simp: same_def sideline_peer_def Let_def)
  have "same s (apply_fault now f s)" for f and s :: core
    using peers [of s] by (auto simp: apply_fault_def same_def split: attribution.splits)
  then have "same s (fold (apply_fault now) fs s)"
    by (rule fold_rel [where R = same]) (auto simp: same_def)
  then show ?thesis by (simp add: apply_observed_faults_def same_def)
qed

text \<open>
  C22. A fault report hurts only a relay that proved itself guilty: if a report changes
  anything, then it came from a relay of the subnet, its evidence is a message of another
  relay of that subnet, signed by that relay itself, whose share and opening disagree; only
  the standing of that culprit changes, and the same report again changes nothing more.
\<close>

theorem fault_report_blames_culprit:
  assumes "members_ok s" "s' = on_fault_report C from report now s" "s' \<noteq> s"
  shows "\<exists>peers proto culprit r i clients ao as ss lo sig.
    (fr_subnet report, peers, proto) \<in> set (current_subnets_sig s) \<and> from \<in> set peers \<and> culprit \<in> set peers \<and>
    pan_wire_of_bytes C (evidence (fr_fault report)) = Some (ServerPublic r i clients ao as ss lo sig) \<and>
    verify C culprit (server_public_signing_bytes C r i clients ao as ss lo) sig \<and>
    \<not> server_public_consistent C ao as \<and>
    (\<forall>pk. pk \<noteq> culprit \<longrightarrow> standing_of s' pk = standing_of s pk) \<and>
    on_fault_report C from report now' s' = s'"
proof (cases rule: on_fault_report_cases [of C "from" report now s])
  case (applied peers proto culprit)
  let ?s1 = "s\<lparr>seen_integrity_faults := finsert (fr_subnet report, fr_round report, culprit)
      (seen_integrity_faults s)\<rparr>"
  have s': "s' = apply_observed_faults (fr_subnet report) [fr_fault report] now ?s1"
    using applied(7) assms(2) by simp
  have "members_ok ?s1" "standing_of ?s1 = standing_of s" using assms(1)
    by (simp_all add: members_ok_def standing_of_def fun_eq_iff)
  then have others: "standing_of s' pk = standing_of s pk" if "pk \<noteq> culprit" for pk
    using that applied(5) unfolding s'
    by (simp add: apply_observed_faults_standing blame_fault_def blame_def)
  have same: "current_subnets_sig s' = current_subnets_sig s"
    "seen_integrity_faults s' = seen_integrity_faults ?s1"
    using apply_observed_faults_frame [of "fr_subnet report" "[fr_fault report]" now ?s1]
    by (simp_all add: s')
  have again: "on_fault_report C from report now' s' = s'"
  proof (cases rule: on_fault_report_cases [of C "from" report now' s'])
    case (applied peers' proto' culprit')
    have "culprit' = culprit" using applied(5) \<open>fault_attribution (fr_fault report) = Peers [culprit]\<close> by simp
    with applied(6) same(2) show ?thesis by simp
  qed
  have "(fr_subnet report, peers, proto) \<in> set (current_subnets_sig s)"
    using applied(2) by (auto simp: find_Some_iff) (metis nth_mem)
  then show ?thesis
    using applied(3) culprit_signed [OF applied(4)] others again by blast
qed (use assms in simp)

definition demo_evidence :: bytes where
  "demo_evidence = [0, 3, 1, 5, 9] @ ed_sign demo_crypto (replicate 32 2) SIGN_NAMESPACE
     (server_public_signing_bytes demo_sched_codecs 3 1 [] [5] [9] [] [])"

definition demo_report :: "round \<Rightarrow> fault_report" where
  "demo_report r =
     \<lparr>fr_round = r, fr_subnet = 0, fr_reporter = identity_pubkey demo_sched_codecs (demo_identity 1),
      fr_fault = \<lparr>kind = Integrity,
        fault_attribution = Peers [identity_pubkey demo_sched_codecs (demo_identity 2)],
        evidence = demo_evidence\<rparr>\<rparr>"

definition demo_running :: core where
  "demo_running = fst (run_ops (sched_step demo_sched_codecs)
     (demo_registrations @ [OpDecodedBody (demo_proposal 1)]) demo_core)"

lemma demo_running_ok: "members_ok demo_running"
  by code_simp

theorem fault_report_blames_culprit_witness:
  "\<exists>s'. s' = on_fault_report demo_sched_codecs (identity_pubkey demo_sched_codecs (demo_identity 1))
       (demo_report 3) 5000 demo_running \<and>
     standing_of s' (identity_pubkey demo_sched_codecs (demo_identity 2)) = Barred 5000 \<and>
     on_fault_report demo_sched_codecs (identity_pubkey demo_sched_codecs (demo_identity 1))
       (demo_report 3) 6000 s' = s'"
proof -
  let ?s' = "on_fault_report demo_sched_codecs (identity_pubkey demo_sched_codecs (demo_identity 1))
       (demo_report 3) 5000 demo_running"
  have barred: "standing_of ?s' (identity_pubkey demo_sched_codecs (demo_identity 2)) = Barred 5000"
    by code_simp
  have "standing_of demo_running (identity_pubkey demo_sched_codecs (demo_identity 2)) = Live"
    by code_simp
  then have changed: "?s' \<noteq> demo_running" using barred by (intro notI) simp
  from barred fault_report_blames_culprit [OF demo_running_ok refl changed, of 6000] show ?thesis by blast
qed

text \<open>
  C29. Evidence of a fault is not bound to the round it is reported for: whenever a report
  would be applied, the same evidence under any other round number that is still unused (and
  in the subnet's window) is applied again, and bars the relay from the new moment on. One
  misbehaviour can so be replayed after the bar is over, round number by round number.
\<close>

theorem fault_evidence_replayable:
  assumes "members_ok s" "sideline (params s)" "renegotiate_on_fault (params s)"
    and "find (\<lambda>(i, _, _). i = fr_subnet report) (current_subnets_sig s) = Some (fr_subnet report, peers, proto)"
    and "from \<in> set peers" "kind (fr_fault report) = Integrity"
    and "integrity_culprit_from_evidence C (evidence (fr_fault report)) peers = Some culprit"
    and "fault_attribution (fr_fault report) = Peers [culprit]"
    and "is_none_or (report_in_window r) (Option.bind (fmlookup (observers s) (fr_subnet report)) po_share_frontier)"
    and "(fr_subnet report, r, culprit) |\<notin>| seen_integrity_faults s"
  shows "standing_of (on_fault_report C from (report\<lparr>fr_round := r\<rparr>) now s) culprit = Barred now"
proof -
  let ?s1 = "s\<lparr>seen_integrity_faults := finsert (fr_subnet report, r, culprit) (seen_integrity_faults s)\<rparr>"
  have "peers \<noteq> []" using assms(5) by auto
  then have "on_fault_report C from (report\<lparr>fr_round := r\<rparr>) now s =
      apply_observed_faults (fr_subnet report) [fr_fault report] now ?s1"
    using assms(4-10) by (simp add: on_fault_report_def cong del: option.case_cong_weak)
  moreover have "members_ok ?s1" using assms(1) by (simp add: members_ok_def)
  ultimately show ?thesis
    using assms(2,3,6,8) by (simp add: apply_observed_faults_standing blame_fault_def blame_def)
qed

definition demo_paroled :: core where
  "demo_paroled = fst (run_ops (sched_step demo_sched_codecs)
     [OpFaultReport (identity_pubkey demo_sched_codecs (demo_identity 1)) (demo_report 3) 5000,
      OpTick 9 (5000 + INTEGRITY_BACKOFF_MS) 0, OpRegistration (demo_relay 2)] demo_running)"

definition demo_replayable :: "core \<Rightarrow> bool" where
  "demo_replayable s \<longleftrightarrow>
     members_ok s \<and> sideline (params s) \<and> renegotiate_on_fault (params s) \<and>
     find (\<lambda>(i, _, _). i = 0) (current_subnets_sig s) = Some (0, sort demo_committee, Some SpNoop) \<and>
     is_none_or (report_in_window 4) (Option.bind (fmlookup (observers s) 0) po_share_frontier) \<and>
     (0, 4, identity_pubkey demo_sched_codecs (demo_identity 2)) |\<notin>| seen_integrity_faults s \<and>
     standing_of s (identity_pubkey demo_sched_codecs (demo_identity 2)) = Live"

theorem fault_evidence_replayable_witness:
  "standing_of demo_paroled (identity_pubkey demo_sched_codecs (demo_identity 2)) = Live \<and>
   standing_of (on_fault_report demo_sched_codecs (identity_pubkey demo_sched_codecs (demo_identity 1))
     ((demo_report 3)\<lparr>fr_round := 4\<rparr>) 400000 demo_paroled)
     (identity_pubkey demo_sched_codecs (demo_identity 2)) = Barred 400000"
proof -
  have ready: "demo_replayable demo_paroled" by code_simp
  have report: "fr_subnet (demo_report 3) = 0" "kind (fr_fault (demo_report 3)) = Integrity"
    "fault_attribution (fr_fault (demo_report 3)) = Peers [identity_pubkey demo_sched_codecs (demo_identity 2)]"
    by (simp_all add: demo_report_def)
  have reporter: "identity_pubkey demo_sched_codecs (demo_identity 1) \<in> set (sort demo_committee)" by code_simp
  have culprit: "integrity_culprit_from_evidence demo_sched_codecs (evidence (fr_fault (demo_report 3)))
      (sort demo_committee) = Some (identity_pubkey demo_sched_codecs (demo_identity 2))" by code_simp
  have "standing_of (on_fault_report demo_sched_codecs (identity_pubkey demo_sched_codecs (demo_identity 1))
     ((demo_report 3)\<lparr>fr_round := 4\<rparr>) 400000 demo_paroled)
     (identity_pubkey demo_sched_codecs (demo_identity 2)) = Barred 400000"
    by (rule fault_evidence_replayable [OF _ _ _ _ reporter report(2) culprit report(3)])
       (use ready in \<open>simp_all only: demo_replayable_def report(1), auto\<close>)
  then show ?thesis using ready unfolding demo_replayable_def by blast
qed

section \<open>Progress\<close>

text \<open>Signatures collected for a body: all by committee members, all over its approval bytes.\<close>

definition valid_entry :: "'z codecs_scheme \<Rightarrow> pubkey list \<Rightarrow> config_body \<Rightarrow> (pubkey, bytes) fmap \<Rightarrow> bool" where
  "valid_entry C cs b m \<longleftrightarrow>
     (\<forall>pk sg. fmlookup m pk = Some sg \<longrightarrow> pk \<in> set cs \<and> verify C pk (approve_bytes C b) sg)"

definition entry_config :: "config_body \<Rightarrow> (pubkey, bytes) fmap \<Rightarrow> configuration" where
  "entry_config b m = \<lparr>body = b, signatures = map (\<lambda>(pk, sg). \<lparr>signer = pk, signature_bytes = sg\<rparr>) (fm_items m)\<rparr>"

lemma valid_entry_signers:
  assumes "valid_entry C cs b m"
  shows "valid_signers C cs (entry_config b m) = fmdom' m"
proof
  show "valid_signers C cs (entry_config b m) \<subseteq> fmdom' m"
    by (auto simp: valid_signers_def entry_config_def set_fm_items intro: fmdom'I)
  show "fmdom' m \<subseteq> valid_signers C cs (entry_config b m)"
  proof
    fix pk
    assume "pk \<in> fmdom' m"
    then obtain sg where sg: "fmlookup m pk = Some sg" by (auto simp: fmlookup_dom'_iff)
    then have "\<lparr>signer = pk, signature_bytes = sg\<rparr> \<in> set (signatures (entry_config b m))"
      by (force simp: entry_config_def set_fm_items)
    moreover have "pk \<in> set cs" "verify C pk (approve_bytes C b) sg"
      using assms sg by (simp_all add: valid_entry_def)
    ultimately show "pk \<in> valid_signers C cs (entry_config b m)"
      unfolding valid_signers_def by (force simp: entry_config_def)
  qed
qed

lemma valid_entry_verifies:
  assumes "valid_entry C cs b m" "0 < t" "t \<le> fm_size m" "length cs \<le> U32_MAX"
  shows "verify_multisig C (entry_config b m) cs t = Inr () \<and> fm_size m \<le> length cs"
proof -
  have size: "card (valid_signers C cs (entry_config b m)) = fm_size m"
    unfolding valid_entry_signers [OF assms(1)] by (simp add: fm_size_def fcard.rep_eq fmdom'_alt_def)
  then have "fm_size m \<le> length cs" using card_valid_signers_le by metis
  then show ?thesis
    using assms(2-4) size by (simp add: verify_multisig_def Let_def length_multisig_seen)
qed

lemma fm_size_upd_new: "k |\<notin>| fmdom m \<Longrightarrow> fm_size (fmupd k v m) = fm_size m + 1"
  by (simp add: fm_size_def fcard_finsert_disjoint)

definition collected :: "'z codecs_scheme \<Rightarrow> config_body \<Rightarrow> core \<Rightarrow> (pubkey, bytes) fmap" where
  "collected C b s = (case fmlookup (sigs s) (canonical_bytes C b) of Some m \<Rightarrow> m | None \<Rightarrow> fmempty)"

definition valid_approval :: "'z codecs_scheme \<Rightarrow> config_body \<Rightarrow> core \<Rightarrow> committee_sig \<Rightarrow> bool" where
  "valid_approval C b s m \<longleftrightarrow>
     cs_body_bytes m = canonical_bytes C b \<and> cs_signer m \<in> set (committee s) \<and>
     verify C (cs_signer m) (approve_bytes C b) (cs_signature m)"

lemma committee_sig_collects:
  assumes "from_canonical_bytes C (canonical_bytes C b) = Some b" "valid_approval C b s m"
    and "canonical_bytes C b |\<notin>| published s" "0 < sc_threshold s" "length (committee s) \<le> U32_MAX"
    and "valid_entry C (committee s) b (collected C b s)" "cs_signer m |\<notin>| fmdom (collected C b s)"
  defines "m' \<equiv> fmupd (cs_signer m) (cs_signature m) (collected C b s)"
  shows "valid_entry C (committee s) b m' \<and> fm_size m' = fm_size (collected C b s) + 1 \<and>
    (if fm_size m' < sc_threshold s
     then sched_step C (OpCommitteeSig m) s = (add_sig (canonical_bytes C b) (cs_signer m) (cs_signature m) s, [])
     else snd (sched_step C (OpCommitteeSig m) s) = [Publish TopicConfig (config_bytes C (entry_config b m'))] \<and>
       verify_multisig C (entry_config b m') (committee s) (sc_threshold s) = Inr ())"
proof -
  let ?k = "canonical_bytes C b"
  let ?s1 = "add_sig ?k (cs_signer m) (cs_signature m) s"
  have entry: "fmlookup (sigs ?s1) ?k = Some m'" by (simp add: add_sig_def m'_def collected_def)
  have valid: "valid_entry C (committee s) b m'"
    using assms(2,6) by (auto simp: valid_entry_def m'_def valid_approval_def)
  have size: "fm_size m' = fm_size (collected C b s) + 1" using assms(7) by (simp add: m'_def fm_size_upd_new)
  have small: "fm_size m' \<le> length (committee s)"
    using valid_entry_verifies [OF valid, of 1] size assms(5) by simp
  have step: "sched_step C (OpCommitteeSig m) s =
      (fst (try_assemble C b ?s1), case snd (try_assemble C b ?s1) of Some a \<Rightarrow> [a] | None \<Rightarrow> [])"
    using assms(1,2) by (simp add: sched_step_def on_committee_sig_def valid_approval_def Let_def)
  show ?thesis
  proof (cases "fm_size m' < sc_threshold s")
    case True
    then have "try_assemble C b ?s1 = (?s1, None)"
      using entry small assms(5) by (simp add: try_assemble_def Let_def add_sig_frame)
    with True valid size step show ?thesis by simp
  next
    case False
    then have ok: "verify_multisig C (entry_config b m') (committee s) (sc_threshold s) = Inr ()"
      using valid_entry_verifies [OF valid assms(4) _ assms(5)] by simp
    have "snd (try_assemble C b ?s1) = Some (Publish TopicConfig (config_bytes C (entry_config b m')))"
      using False entry small assms(3,5) ok
      by (simp add: try_assemble_def Let_def add_sig_frame entry_config_def)
    with False valid size step ok show ?thesis by simp
  qed
qed


lemma collected_add_sig:
  "collected C b (add_sig (canonical_bytes C b) pk sg s) = fmupd pk sg (collected C b s)"
  by (simp add: collected_def add_sig_def)

lemma approvals_publish:
  assumes "from_canonical_bytes C (canonical_bytes C b) = Some b" "list_all (valid_approval C b s) ms"
    and "canonical_bytes C b |\<notin>| published s" "0 < sc_threshold s" "length (committee s) \<le> U32_MAX"
    and "valid_entry C (committee s) b (collected C b s)" "distinct (map cs_signer ms)"
    and "list_all (\<lambda>m. cs_signer m |\<notin>| fmdom (collected C b s)) ms"
    and "fm_size (collected C b s) < sc_threshold s" "sc_threshold s \<le> fm_size (collected C b s) + length ms"
  shows "\<exists>cfg. Publish TopicConfig (config_bytes C cfg) \<in>
      set (snd (run_ops (sched_step C) (map OpCommitteeSig ms) s)) \<and>
    body cfg = b \<and> verify_multisig C cfg (committee s) (sc_threshold s) = Inr ()"
  using assms
proof (induction ms arbitrary: s)
  case (Cons m ms)
  let ?m' = "fmupd (cs_signer m) (cs_signature m) (collected C b s)"
  let ?s1 = "add_sig (canonical_bytes C b) (cs_signer m) (cs_signature m) s"
  have first: "valid_approval C b s m" "cs_signer m |\<notin>| fmdom (collected C b s)"
    using Cons.prems(2,8) by simp_all
  note c = committee_sig_collects [OF Cons.prems(1) first(1) Cons.prems(3-6) first(2)]
  show ?case
  proof (cases "fm_size ?m' < sc_threshold s")
    case True
    then have step: "sched_step C (OpCommitteeSig m) s = (?s1, [])" using c by simp
    have same: "committee ?s1 = committee s" "sc_threshold ?s1 = sc_threshold s" "published ?s1 = published s"
      by (simp_all add: add_sig_def)
    have "list_all (valid_approval C b ?s1) ms"
      using Cons.prems(2) by (simp add: valid_approval_def same list_all_iff)
    moreover have "list_all (\<lambda>m'. cs_signer m' |\<notin>| fmdom (collected C b ?s1)) ms"
    proof -
      have "cs_signer m' \<noteq> cs_signer m" if "m' \<in> set ms" for m'
        using Cons.prems(7) that by (metis distinct.simps(2) image_eqI list.set_map list.simps(9))
      then show ?thesis using Cons.prems(8) by (simp add: collected_add_sig list_all_iff)
    qed
    ultimately obtain cfg where "Publish TopicConfig (config_bytes C cfg) \<in>
        set (snd (run_ops (sched_step C) (map OpCommitteeSig ms) ?s1))" "body cfg = b"
        "verify_multisig C cfg (committee s) (sc_threshold s) = Inr ()"
      using Cons.IH [of ?s1] Cons.prems(1,3-5,7,10) c True
      by (auto simp: same collected_add_sig)
    then show ?thesis using step by auto
  next
    case False
    moreover have "body (entry_config b ?m') = b" by (simp add: entry_config_def)
    ultimately show ?thesis using c by (intro exI [of _ "entry_config b ?m'"]) simp
  qed
qed simp

text \<open>
  C6. Enough approvals always publish: a member with a usable threshold that has neither
  published a body nor collected signatures for it publishes a configuration with that body,
  certified by the committee, once it is fed the valid approvals of at least the threshold of
  distinct committee members, in whatever order they come. The encoding of bodies has to
  decode what it encoded.
\<close>

theorem threshold_approvals_publish:
  assumes "from_canonical_bytes C (canonical_bytes C b) = Some b"
    and "canonical_bytes C b |\<notin>| published s" "fmlookup (sigs s) (canonical_bytes C b) = None"
    and "0 < sc_threshold s" "length (committee s) \<le> U32_MAX"
    and "list_all (valid_approval C b s) ms" "distinct (map cs_signer ms)" "sc_threshold s \<le> length ms"
  shows "\<exists>cfg. Publish TopicConfig (config_bytes C cfg) \<in>
      set (snd (run_ops (sched_step C) (map OpCommitteeSig ms) s)) \<and>
    body cfg = b \<and> verify_multisig C cfg (committee s) (sc_threshold s) = Inr ()"
proof -
  have empty: "collected C b s = fmempty" using assms(3) by (simp add: collected_def)
  show ?thesis
    using assms by (intro approvals_publish) (simp_all add: empty valid_entry_def list_all_iff)
qed

theorem threshold_approvals_publish_witness:
  "\<exists>cfg. Publish TopicConfig (config_bytes demo_sched_codecs cfg) \<in>
      set (snd (run_ops (sched_step demo_sched_codecs)
        (map OpCommitteeSig [demo_approval 3 7, demo_approval 2 7]) demo_core)) \<and>
    body cfg = demo_body 7"
proof -
  have "from_canonical_bytes demo_sched_codecs (canonical_bytes demo_sched_codecs (demo_body 7)) = Some (demo_body 7)"
    by code_simp
  moreover have "canonical_bytes demo_sched_codecs (demo_body 7) |\<notin>| published demo_core" by code_simp
  moreover have "fmlookup (sigs demo_core) (canonical_bytes demo_sched_codecs (demo_body 7)) = None" by code_simp
  moreover have "0 < sc_threshold demo_core" "length (committee demo_core) \<le> U32_MAX" by code_simp+
  moreover have "list_all (valid_approval demo_sched_codecs (demo_body 7) demo_core)
      [demo_approval 3 7, demo_approval 2 7]" by code_simp
  moreover have "distinct (map cs_signer [demo_approval 3 7, demo_approval 2 7])" by code_simp
  moreover have "sc_threshold demo_core \<le> length [demo_approval 3 7, demo_approval 2 7]" by code_simp
  ultimately show ?thesis
    using threshold_approvals_publish [of demo_sched_codecs "demo_body 7" demo_core
        "[demo_approval 3 7, demo_approval 2 7]"] by blast
qed

section \<open>What is not checked\<close>

text \<open>
  The client addresses and the watchers of a proposal are not checked against the
  registrations: replacing either leaves the verdict of the validation as it was, so one lead
  can send the clients of every relay anywhere with the honest members' signatures.
\<close>

theorem client_addresses_unchecked:
  "validate_body C (b\<lparr>relay_client_addrs := addrs, watchers := ws\<rparr>) s \<longleftrightarrow> validate_body C b s"
  by (simp add: validate_body_def validate_structure_def cong del: option.case_cong_weak)

lemma validate_body_same:
  assumes "same_members s s'" "params s' = params s" "sc_epoch_unix_ms s' = Some (epoch_unix_ms b)"
    and "validate_body C b s"
  shows "validate_body C b s'"
proof -
  have "aggregation_valid agg s' = aggregation_valid agg s" for agg
    using assms(1) by (simp add: aggregation_valid_def same_members_def cong del: option.case_cong_weak)
  then have "subnet_acceptable s' n = subnet_acceptable s n" for n
    using assms(1,2) by (simp add: subnet_acceptable_def same_members_def cong: protocol_config.case_cong)
  then have "subnet_acceptable s' = subnet_acceptable s" by (rule ext)
  then show ?thesis
    using assms unfolding validate_body_def same_members_def exchange_keys_match_def by simp
qed

text \<open>
  C30. A member signs more than one body for a round: after it approved a proposal, any other
  proposal of the lead with the same round and epoch that it would have approved before is
  still approved, so a lead can have two conflicting configurations of one round certified.
\<close>

theorem same_round_approved_twice:
  assumes "proposal_acceptable C p s" "proposal_acceptable C q s"
    and "body_round (pr_body q) = body_round (pr_body p)" "epoch_unix_ms (pr_body q) = epoch_unix_ms (pr_body p)"
    and "on_decoded_body C p s = Some (s', acts)"
  shows "proposal_acceptable C q s'"
proof (cases rule: on_decoded_body_cases [of C p s])
  case (approved s1 s2)
  let ?b = "pr_body p"
  have s': "s' = fst (try_assemble C ?b s2)" using approved(4) assms(5) by simp
  have grow: "governance_grows s s'"
    using step_grows [of s C "OpDecodedBody p"] assms(5) by (simp add: sched_step_def)
  have mem: "same_members s s'"
    using step_same_members [of "OpDecodedBody p" s C] assms(5) by (simp add: sched_step_def)
  have last: "last_accepted_round s' = raise_to (last_accepted_round s) (body_round ?b)"
    using learn_config_frame [OF approved(3)]
    by (simp add: s' try_assemble_frame same_governance_def approved(2) add_sig_def)
  have epoch: "sc_epoch_unix_ms s' = Some (epoch_unix_ms ?b)"
  proof -
    have "sc_epoch_unix_ms (fst (try_assemble C ?b s2)) = sc_epoch_unix_ms s2"
      by (simp add: try_assemble_def Let_def split: option.splits sum.splits)
    moreover have "sc_epoch_unix_ms s2 = Some (epoch_unix_ms ?b)"
      using approved(3) by (auto simp: learn_config_def Let_def split: if_splits)
    ultimately show ?thesis by (simp add: s')
  qed
  have "validate_body C (pr_body q) s'"
    using assms(2,4) mem epoch grow
    by (intro validate_body_same [of s s']) (simp_all add: proposal_acceptable_def governance_grows_def)
  moreover have "\<not> is_some_and (\<lambda>l. body_round (pr_body q) < l) (last_accepted_round s')"
    using assms(1,3) by (auto simp: last raise_to_def proposal_acceptable_def split: option.splits)
  moreover have "body_round (pr_body q) \<le> established s'"
    using assms(3) by (simp add: established_def last raise_to_def le_max_iff_disj split: option.splits)
  moreover have "saturating_add (established s') MAX_ROUND_ADVANCE \<ge> min (established s') U64_MAX"
    by (simp add: saturating_add_def)
  moreover have "proposer q = lead s'" "verify C (proposer q) (propose_bytes C (pr_body q)) (pr_signature q)"
    using assms(2) grow unfolding proposal_acceptable_def governance_grows_def by metis+
  moreover have "body_round (pr_body q) \<le> U64_MAX"
    using assms(2) unfolding proposal_acceptable_def saturating_add_def by linarith
  ultimately show ?thesis by (auto simp: proposal_acceptable_def)
qed (use assms(1) in simp)

definition demo_rival :: signed_proposal where
  "demo_rival =
     (let b = (demo_body 1)\<lparr>watchers := [Pubkey [9]]\<rparr>
      in \<lparr>pr_body = b, proposer = identity_pubkey demo_sched_codecs (demo_identity 1),
          pr_signature = sign demo_sched_codecs (demo_identity 1) (propose_bytes demo_sched_codecs b)\<rparr>)"

definition demo_registered :: core where
  "demo_registered = fst (run_ops (sched_step demo_sched_codecs) demo_registrations demo_core)"

theorem same_round_approved_twice_witness:
  "\<exists>s' acts. on_decoded_body demo_sched_codecs (demo_proposal 1) demo_registered = Some (s', acts) \<and>
     proposal_acceptable demo_sched_codecs demo_rival s' \<and>
     watchers (pr_body demo_rival) \<noteq> watchers (pr_body (demo_proposal 1))"
proof -
  obtain s' acts where run: "on_decoded_body demo_sched_codecs (demo_proposal 1) demo_registered = Some (s', acts)"
    using handle_total [of demo_sched_codecs "OpDecodedBody (demo_proposal 1)" demo_registered] by auto
  have "proposal_acceptable demo_sched_codecs (demo_proposal 1) demo_registered"
    "proposal_acceptable demo_sched_codecs demo_rival demo_registered"
    "body_round (pr_body demo_rival) = body_round (pr_body (demo_proposal 1))"
    "epoch_unix_ms (pr_body demo_rival) = epoch_unix_ms (pr_body (demo_proposal 1))"
    by code_simp+
  from same_round_approved_twice [OF this run]
  have "proposal_acceptable demo_sched_codecs demo_rival s'" .
  moreover have "watchers (pr_body demo_rival) \<noteq> watchers (pr_body (demo_proposal 1))" by code_simp
  ultimately show ?thesis using run by blast
qed

end
