(* ===== verification/Scaling.thy ===== *)
theory Scaling
  imports Governing
begin

text \<open>
  How the scheduler sizes the network and what its lead proposes: the number of subnets and
  their capacity stay within their bounds over any run, growth converges at once, shrinking
  does not flap for a growth mark of ten or more, and the proposal the lead stages passes the
  checks of every member that shares its view.
\<close>

section \<open>Sizing state\<close>

definition same_sizes :: "core \<Rightarrow> core \<Rightarrow> bool" where
  "same_sizes s s' \<longleftrightarrow>
     subnet_count s' = subnet_count s \<and> shrink_streak s' = shrink_streak s \<and>
     capacity s' = capacity s \<and> capacity_streak s' = capacity_streak s \<and>
     observer_grace s' = observer_grace s \<and> params s' = params s"

lemma same_sizes_refl [simp]: "same_sizes s s"
  by (simp add: same_sizes_def)

lemma same_sizes_trans: "same_sizes a b \<Longrightarrow> same_sizes b c \<Longrightarrow> same_sizes a c"
  by (simp add: same_sizes_def)

lemma on_registration_sizes: "same_sizes s (on_registration reg s)"
  by (cases "(reg, s)" rule: on_registration.cases) (simp_all add: same_sizes_def)

lemma apply_observed_faults_sizes: "same_sizes s (apply_observed_faults i fs now s)"
proof -
  have peers: "same_sizes s (fold (sideline_peer b now) pks s)" for b pks and s :: core
    by (rule fold_rel [where R = same_sizes]) (auto simp: same_sizes_def sideline_peer_def Let_def)
  have "same_sizes s (apply_fault now f s)" for f and s :: core
    using peers [of s] by (auto simp: apply_fault_def split: attribution.splits)
  then have "same_sizes s (fold (apply_fault now) fs s)"
    by (rule fold_rel [where R = same_sizes]) (auto simp: same_sizes_def)
  then show ?thesis by (simp add: apply_observed_faults_def)
qed

lemma on_fault_report_sizes: "same_sizes s (on_fault_report C from report now s)"
proof (cases rule: on_fault_report_cases [of C "from" report now s])
  case (applied peers proto culprit)
  have "same_sizes s (s\<lparr>seen_integrity_faults := x\<rparr>)" for x by (simp add: same_sizes_def)
  then show ?thesis unfolding applied(7) using apply_observed_faults_sizes same_sizes_trans by blast
qed simp

text \<open>
  The sizing invariant: one to sixteen subnets, at least the smallest capacity, streaks below
  their limits, and a positive grace for every observer that has one, so that its decrement
  never wraps.
\<close>

definition grace_ok :: "(subnet_id, u32) fmap \<Rightarrow> bool" where
  "grace_ok m \<longleftrightarrow> (\<forall>i g. fmlookup m i = Some g \<longrightarrow> 1 \<le> g \<and> g \<le> OBSERVER_FAULT_GRACE)"

definition sizing_ok :: "core \<Rightarrow> bool" where
  "sizing_ok s \<longleftrightarrow>
     1 \<le> subnet_count s \<and> subnet_count s \<le> MAX_SUBNETS \<and> shrink_streak s < SUBNET_SHRINK_GRACE \<and>
     MIN_CAPACITY \<le> capacity s \<and> capacity s \<le> max MAX_SUBNET_CLIENTS (min_capacity (params s)) \<and>
     capacity_streak s < CAPACITY_RESIZE_GRACE \<and> grace_ok (observer_grace s)"

lemma same_sizes_ok: "same_sizes s s' \<Longrightarrow> sizing_ok s \<Longrightarrow> sizing_ok s'"
  by (simp add: same_sizes_def sizing_ok_def)

lemma grace_ok_upd: "grace_ok m \<Longrightarrow> 1 \<le> g \<Longrightarrow> g \<le> OBSERVER_FAULT_GRACE \<Longrightarrow> grace_ok (fmupd i g m)"
  by (simp add: grace_ok_def)

lemma grace_ok_drop: "grace_ok m \<Longrightarrow> grace_ok (fmdrop i m)"
  by (simp add: grace_ok_def)

lemma grace_ok_filter: "grace_ok m \<Longrightarrow> grace_ok (fmfilter P m)"
  by (auto simp: grace_ok_def split: if_splits)

lemma learn_observers_grace:
  "learn_observers prev th sg old new grace = Some (obs, grace') \<Longrightarrow> grace_ok grace \<Longrightarrow> grace_ok grace'"
proof (induction prev th sg old new grace rule: learn_observers.induct)
  case (2 prev th i peers proto rest old new grace)
  have "grace_ok (fmupd i OBSERVER_FAULT_GRACE grace)"
    by (rule grace_ok_upd [OF 2(5)]) (simp_all add: OBSERVER_FAULT_GRACE_def)
  with 2 show ?case by (auto split: option.splits)
qed simp

lemma learn_config_sizes:
  assumes "learn_config b s = Some s'" "sizing_ok s"
  shows "sizing_ok s'"
proof (cases "subnets_sig b = current_subnets_sig s")
  case True
  then show ?thesis using assms by (auto simp: learn_config_def Let_def sizing_ok_def)
next
  case False
  then obtain obs grace where g: "learn_observers (fm_collect (current_subnets_sig s))
      (pm_fault_threshold (params s)) (subnets_sig b) (observers s) fmempty (observer_grace s) = Some (obs, grace)"
    and s': "s' = s\<lparr>sc_epoch_unix_ms := Some (epoch_unix_ms b),
        subnet_round_ms := fm_collect (map (\<lambda>n. (subnet_id n, round_duration (protocol n))) (subnets b)),
        observers := obs,
        observer_grace := fmfilter (\<lambda>i. list_ex (\<lambda>(j, _, _). j = i) (subnets_sig b)) grace,
        current_subnets_sig := subnets_sig b\<rparr>"
    using assms(1) by (auto simp: learn_config_def Let_def)
  have "grace_ok grace" using learn_observers_grace [OF g] assms(2) by (simp add: sizing_ok_def)
  then show ?thesis using assms(2) by (simp add: s' sizing_ok_def grace_ok_filter)
qed

lemma end_observer_round_sizes:
  assumes "sizing_ok s"
  shows "sizing_ok (end_observer_round r now i s) \<and> params (end_observer_round r now i s) = params s"
proof -
  obtain s1 fs where c: "close_observer r i s = (s1, fs)" by (cases "close_observer r i s")
  then have same: "same_sizes s s1"
    by (auto simp: close_observer_def same_sizes_def split: option.splits)
  then have ok: "sizing_ok s1" using assms same_sizes_ok by blast
  show ?thesis
  proof (cases "fmlookup (observer_grace s1) i")
    case None
    with c have "end_observer_round r now i s = apply_observed_faults i fs now s1"
      by (simp add: end_observer_round_def)
    then show ?thesis
      using apply_observed_faults_sizes [of s1 i fs now] same
        same_sizes_ok [OF apply_observed_faults_sizes ok, of i fs now] by (simp add: same_sizes_def)
  next
    case (Some g)
    with c have eq: "end_observer_round r now i s = spend_grace g i s1" by (simp add: end_observer_round_def)
    have g: "1 \<le> g" "g \<le> OBSERVER_FAULT_GRACE" "grace_ok (observer_grace s1)"
      using ok Some by (auto simp: sizing_ok_def grace_ok_def)
    then have "grace_ok (observer_grace (spend_grace g i s1))"
      by (simp add: spend_grace_def Let_def grace_ok_drop grace_ok_upd)
    then show ?thesis
      using ok same unfolding eq by (simp add: spend_grace_def Let_def sizing_ok_def same_sizes_def)
  qed
qed

lemma close_round_sizes:
  assumes "sizing_ok s"
  shows "sizing_ok (close_round r now s) \<and> params (close_round r now s) = params s"
proof -
  have fold_ok: "sizing_ok (fold (end_observer_round r now) is s) \<and>
      params (fold (end_observer_round r now) is s) = params s" if "sizing_ok s" for "is" s
    using that
  proof (induction "is" arbitrary: s)
    case (Cons i "is")
    show ?case using Cons.IH [of "end_observer_round r now i s"] end_observer_round_sizes [OF Cons.prems] by simp
  qed simp
  define s2 where "s2 = fold (end_observer_round r now) (fm_keys (observers s)) s"
  have "sizing_ok s2 \<and> params s2 = params s" using fold_ok [OF assms] by (simp add: s2_def)
  moreover have "close_round r now s = expire_offenders now s2" by (simp add: close_round_def s2_def)
  moreover have "same_sizes s2 (expire_offenders now s2)" by (simp add: expire_offenders_def same_sizes_def)
  ultimately show ?thesis using same_sizes_ok by (metis same_sizes_def)
qed

section \<open>The number of subnets\<close>

lemma next_count_bounds:
  assumes "1 \<le> n" "n \<le> MAX_SUBNETS" "streak < SUBNET_SHRINK_GRACE"
  shows "1 \<le> fst (next_count grow load n streak) \<and> fst (next_count grow load n streak) \<le> MAX_SUBNETS \<and>
    snd (next_count grow load n streak) < SUBNET_SHRINK_GRACE"
  using assms by (auto simp: next_count_def Let_def sizing_consts clamp_def)

lemma next_capacity_bounds:
  assumes "MIN_CAPACITY \<le> cap" "streak < CAPACITY_RESIZE_GRACE"
  shows "MIN_CAPACITY \<le> fst (next_capacity least observed cap streak) \<and>
    fst (next_capacity least observed cap streak) \<le> MAX_SUBNET_CLIENTS \<and>
    snd (next_capacity least observed cap streak) < CAPACITY_RESIZE_GRACE"
proof -
  have "MIN_CAPACITY \<le> size_capacity observed" by (simp add: size_capacity_def Let_def)
  then have "MIN_CAPACITY \<le> min (max (size_capacity observed) least) MAX_SUBNET_CLIENTS"
    by (simp add: sizing_consts max_def min_def)
  then show ?thesis
    using assms by (auto simp: next_capacity_def Let_def sizing_consts split: if_splits)
qed

lemma tick_sizing_ok:
  assumes "sizing_ok s"
  shows "sizing_ok (tick_sizing s) \<and> capacity (tick_sizing s) \<le> MAX_SUBNET_CLIENTS \<and> params (tick_sizing s) = params s"
proof -
  let ?s1 = "adjust_subnet_count (observed_load s) s"
  have 1: "1 \<le> subnet_count ?s1" "subnet_count ?s1 \<le> MAX_SUBNETS" "shrink_streak ?s1 < SUBNET_SHRINK_GRACE"
    using next_count_bounds assms by (simp_all add: adjust_subnet_count_def Let_def sizing_ok_def)
  have same: "capacity ?s1 = capacity s" "capacity_streak ?s1 = capacity_streak s"
    "observer_grace ?s1 = observer_grace s" "params ?s1 = params s"
    by (simp_all add: adjust_subnet_count_def Let_def)
  let ?s2 = "adjust_capacity (busiest s) (observed_load s) ?s1"
  have 2: "MIN_CAPACITY \<le> capacity ?s2" "capacity ?s2 \<le> MAX_SUBNET_CLIENTS"
    "capacity_streak ?s2 < CAPACITY_RESIZE_GRACE"
    using next_capacity_bounds assms
    by (simp_all add: adjust_capacity_def Let_def sizing_ok_def same)
  have "subnet_count ?s2 = subnet_count ?s1" "shrink_streak ?s2 = shrink_streak ?s1"
    "observer_grace ?s2 = observer_grace s" "params ?s2 = params s"
    by (simp_all add: adjust_capacity_def Let_def same)
  then show ?thesis
    using 1 2 assms by (simp add: tick_sizing_def Let_def sizing_ok_def)
qed


lemma lead_propose_sizes: "same_sizes s (fst (lead_propose C clock s))"
proof -
  have "same_sizes s (resize_vector p i s)" for p i and s :: core
    by (simp add: resize_vector_def Let_def same_sizes_def)
  then have "same_sizes s (resize_scheduled_vectors ps s)" for ps and s :: core
    unfolding resize_scheduled_vectors_def
    by (intro fold_rel [where R = same_sizes]) (auto simp: same_sizes_def split: prod.splits)
  from this [of s "subnet_protocols s"] show ?thesis
    by (simp add: lead_propose_def Let_def same_sizes_def)
qed

lemma tick_sizes:
  assumes "sizing_ok s"
  shows "\<exists>s' acts. tick C r now clock s = Some (s', acts) \<and> sizing_ok s' \<and> capacity s' \<le> MAX_SUBNET_CLIENTS"
proof -
  obtain s1 obs where s1: "tick C r now clock s = Some (lead_propose C clock (tick_sizing (close_round r now s1)))"
    "s1 = forget_old_faults (s\<lparr>sc_cur_round := r, observers := obs\<rparr>)" by (rule tick_parts) blast
  let ?t = "tick_sizing (close_round r now s1)"
  have "same_sizes s s1" by (simp add: s1(2) same_sizes_def forget_old_faults_def)
  then have "sizing_ok ?t \<and> capacity ?t \<le> MAX_SUBNET_CLIENTS"
    using close_round_sizes tick_sizing_ok same_sizes_ok assms by blast
  then have "sizing_ok (fst (lead_propose C clock ?t)) \<and>
      capacity (fst (lead_propose C clock ?t)) \<le> MAX_SUBNET_CLIENTS"
    using lead_propose_sizes [of ?t C clock] same_sizes_ok by (metis same_sizes_def)
  then show ?thesis using s1(1) by (metis prod.collapse)
qed

lemma step_sizes: "sizing_ok s \<Longrightarrow> sizing_ok (fst (sched_step C op s))"
proof (cases op)
  case (OpPublishedConfig cfg)
  assume ok: "sizing_ok s"
  then show ?thesis
    using learn_config_sizes
    by (cases rule: on_published_config_cases [of C cfg s])
       (auto simp: OpPublishedConfig sched_step_def sizing_ok_def)
next
  case (OpDecodedBody p)
  assume ok: "sizing_ok s"
  show ?thesis
  proof (cases rule: on_decoded_body_cases [of C p s])
    case (approved s1 s2)
    have "sizing_ok s1" using ok by (simp add: approved(2) sizing_ok_def add_sig_def)
    then have "sizing_ok s2" using learn_config_sizes approved(3) by blast
    moreover have "same_sizes s2 (fst (try_assemble C (pr_body p) s2))"
      by (simp add: try_assemble_def Let_def same_sizes_def split: option.splits sum.splits)
    ultimately show ?thesis using same_sizes_ok by (simp add: OpDecodedBody sched_step_def approved(4))
  qed (simp add: OpDecodedBody sched_step_def ok)
next
  case (OpCommitteeSig m)
  assume ok: "sizing_ok s"
  show ?thesis
  proof (cases rule: on_committee_sig_cases [of C m s])
    case (stored b s1)
    have "same_sizes s (fst (try_assemble C b s1))"
      by (simp add: stored(4) add_sig_def try_assemble_def Let_def same_sizes_def split: option.splits sum.splits)
    then show ?thesis using same_sizes_ok ok by (simp add: OpCommitteeSig sched_step_def stored(5))
  qed (simp add: OpCommitteeSig sched_step_def ok)
next
  case (OpSubnetMessage i p bs)
  assume ok: "sizing_ok s"
  then show ?thesis
    by (simp add: OpSubnetMessage sched_step_def on_subnet_message_def sizing_ok_def split: option.splits)
next
  case (OpCoverRate rate)
  assume "sizing_ok s"
  then show ?thesis by (simp add: OpCoverRate sched_step_def set_cover_rate_def sizing_ok_def)
next
  case (OpTick r now clock)
  assume "sizing_ok s"
  then show ?thesis using tick_sizes [of s C r now clock] by (auto simp: OpTick sched_step_def)
next
  case (OpRegistration reg)
  assume "sizing_ok s"
  then show ?thesis using same_sizes_ok [OF on_registration_sizes] by (simp add: OpRegistration sched_step_def)
next
  case (OpObservedFaults i fs now)
  assume "sizing_ok s"
  then show ?thesis
    using same_sizes_ok [OF apply_observed_faults_sizes] by (simp add: OpObservedFaults sched_step_def)
next
  case (OpFaultReport p report now)
  assume "sizing_ok s"
  then show ?thesis using same_sizes_ok [OF on_fault_report_sizes] by (simp add: OpFaultReport sched_step_def)
qed

interpretation sizing: component "sched_step C" "\<lambda>_ _. True" sizing_ok "\<lambda>_. True" for C
  by unfold_locales (simp_all add: step_sizes)

lemma sizing_ok_new_core: "sizing_ok (new_core C i cs t p)"
  by (simp add: sizing_ok_def new_core_def Let_def grace_ok_def sizing_consts)


section \<open>Main results on sizing\<close>

text \<open>
  C31. Sizing stays in bounds: over any run of events from a fresh member there are between
  one and sixteen subnets, the capacity is at least the smallest one, both streaks stay below
  their limits and every grace counter is between one and its start; after each tick the
  capacity is at most the largest subnet, whatever loads and demands were announced.
\<close>

theorem sizing_stays_in_bounds:
  assumes "s = fst (run_ops (sched_step C) ops (new_core C i cs t p))"
  shows "1 \<le> subnet_count s \<and> subnet_count s \<le> MAX_SUBNETS \<and> MIN_CAPACITY \<le> capacity s \<and>
    shrink_streak s < SUBNET_SHRINK_GRACE \<and> capacity_streak s < CAPACITY_RESIZE_GRACE \<and>
    (\<forall>j g. fmlookup (observer_grace s) j = Some g \<longrightarrow> 1 \<le> g \<and> g \<le> OBSERVER_FAULT_GRACE) \<and>
    (\<exists>s' acts. tick C r now clock s = Some (s', acts) \<and> capacity s' \<le> MAX_SUBNET_CLIENTS)"
proof -
  have ok: "sizing_ok s" unfolding assms by (rule sizing.run_inv) (simp_all add: sizing_ok_new_core)
  then show ?thesis
    using tick_sizes [OF ok, of C r now clock] by (auto simp: sizing_ok_def grace_ok_def)
qed

theorem sizing_stays_in_bounds_witness:
  "\<exists>s' acts. tick demo_sched_codecs 3 4000 4000
     (fst (run_ops (sched_step demo_sched_codecs) demo_registrations
       (new_core demo_sched_codecs (demo_identity 1) demo_committee 2
         (default_params\<lparr>min_capacity := 5000\<rparr>)))) = Some (s', acts) \<and> capacity s' \<le> 300"
proof -
  let ?s = "fst (run_ops (sched_step demo_sched_codecs) demo_registrations
       (new_core demo_sched_codecs (demo_identity 1) demo_committee 2
         (default_params\<lparr>min_capacity := 5000\<rparr>)))"
  have "\<exists>s' acts. tick demo_sched_codecs 3 4000 4000 ?s = Some (s', acts) \<and> capacity s' \<le> MAX_SUBNET_CLIENTS"
    using sizing_stays_in_bounds [where C = demo_sched_codecs and r = 3 and now = 4000 and clock = 4000, OF refl]
    by blast
  then show ?thesis by (simp add: MAX_SUBNET_CLIENTS_def)
qed

text \<open>
  C32. With a growth mark of at least ten, growth converges in one step: when the load per
  subnet reaches the mark, the count jumps to the one that absorbs the load, so that the same
  load no longer asks for growth unless all sixteen subnets are in use; and a count that
  shrank, by one and after the grace, does not grow back under the same load. A smaller mark
  is not refused by the code and the count can then alternate.
\<close>

theorem subnet_count_settles:
  assumes "1 \<le> n" "n \<le> MAX_SUBNETS" "10 \<le> grow" "next_count grow load n streak = (n', streak')"
  shows "(n < n' \<longrightarrow> n' = min (load div grow + 1) MAX_SUBNETS \<and> (n' = MAX_SUBNETS \<or> load div n' < grow)) \<and>
    (n' < n \<longrightarrow> n' = n - 1 \<and> streak + 1 \<ge> SUBNET_SHRINK_GRACE \<and> load div n' < grow) \<and>
    fst (next_count grow load n' streak') \<le> n'"
proof -
  have as: "as_u32 k = k" if "k \<le> MAX_SUBNETS" for k using that by (simp add: sizing_consts U32_MAX_def)
  have grow_le: "n < load div grow + 1" if "grow \<le> load div n"
  proof -
    have "grow * n \<le> load" using that assms(1) by (simp add: less_eq_div_iff_mult_less_eq)
    then have "n * grow div grow \<le> load div grow" by (intro div_le_mono) (simp add: mult.commute)
    then show ?thesis using assms(3) by simp
  qed
  have absorbed: "load div (load div grow + 1) < grow"
  proof -
    have "load < (load div grow + 1) * grow"
      using assms(3) by (metis dividend_less_div_times Suc_eq_plus1 add.commute mult_Suc less_le_trans zero_less_numeral)
    then show ?thesis by (simp add: less_mult_imp_div_less mult.commute)
  qed
  have no_growth: "fst (next_count grow load k st) \<le> k" if "k = MAX_SUBNETS \<or> load div max k 1 < grow" "k \<le> MAX_SUBNETS" for k st
    using that as [of "max k 1"] by (auto simp: next_count_def Let_def max_def MAX_SUBNETS_def split: if_splits)
  have simps: "as_u32 (max n 1) = n" "max grow 1 = grow"
    "as_u32 (max n 2 - 1) = (if n = 1 then 1 else n - 1)"
    using assms(1,2,3) as [of n] as [of "max n 2 - 1"] by (auto simp: max_def MAX_SUBNETS_def)
  note unfolded = assms(4) [unfolded next_count_def Let_def simps]
  consider (grow) "grow \<le> load div n" "n < MAX_SUBNETS" "n' = min (load div grow + 1) MAX_SUBNETS"
    | (shrink) "n' = n - 1" "1 < n" "load div (n - 1) \<le> grow - grow div 10" "streak + 1 \<ge> SUBNET_SHRINK_GRACE"
    | (same) "n' = n" "\<not> (grow \<le> load div n \<and> n < MAX_SUBNETS)"
    using unfolded assms(1,2) grow_le by (auto simp: clamp_def split: if_splits)
  then show ?thesis
  proof cases
    case grow
    then have "n' = MAX_SUBNETS \<or> load div n' < grow" using absorbed by (auto simp: min_def)
    moreover have "n < n'" using grow grow_le by simp
    moreover have "max n' 1 = n'" "n' \<le> MAX_SUBNETS" using \<open>n < n'\<close> grow(3) by simp_all
    moreover have "fst (next_count grow load n' streak') \<le> n'"
      by (rule no_growth) (use calculation in simp_all)
    ultimately show ?thesis using grow(3) by (meson less_not_sym)
  next
    case shrink
    have "grow - grow div 10 < grow" using assms(3) by (simp add: div_greater_zero_iff)
    then have "load div n' < grow" using shrink by simp
    moreover have "max n' 1 = n'" using shrink by simp
    ultimately show ?thesis using shrink no_growth [of n' streak'] assms(2) by auto
  next
    case same
    then show ?thesis using no_growth [of n' streak'] assms(1,2) by (auto simp: max_def)
  qed
qed

theorem subnet_count_settles_witness:
  "next_count 63 150 1 0 = (3, 0) \<and> fst (next_count 63 150 3 0) \<le> 3"
proof -
  have 1: "next_count 63 150 1 0 = (3, 0)" by code_simp
  have 2: "1 \<le> MAX_SUBNETS" by code_simp
  show ?thesis using subnet_count_settles [of 1 63 150 0 3 0] 1 2 by simp
qed

text \<open>
  With a growth mark below ten the hysteresis is gone: under a constant load of five
  and a mark of five a second subnet is removed and added back on the next tick.
\<close>

theorem small_growth_mark_flaps:
  "next_count 5 5 2 2 = (1, 0) \<and> next_count 5 5 1 0 = (2, 0)"
  by code_simp

end
