(* ===== verification/Client_Set.thy ===== *)
theory Client_Set
  imports Keys "HOL-Library.Monad_Syntax"
begin

text \<open>
  Canonical client-set selection (\<open>anymone-core/src/client_set.rs\<close>): the messages relays
  exchange about the clients they hold, their packed forms, the client's repair fragments,
  and the server that collects receipts, relays them in Dolev-Strong rounds and fixes the
  set. Polynomials, share paths, Reed-Solomon coding, sealing and the signature scheme are
  those of the panetiere crate: the fields of the record \<open>set_codecs\<close>, with \<open>codecs_ok\<close> for
  what the module relies on. A verifying key is its SEC1 encoding. An \<open>expect\<close> or assertion
  that fails is \<open>None\<close>.
\<close>

section \<open>Functions of the panetiere crate\<close>

type_synonym client_id = u32
type_synonym server_id = u32

record rs_params =
  rs_k :: usize
  rs_n :: usize

record share_commitment_params =
  block_len :: usize
  n_lanes :: usize

record protocol_params =
  pp_rs :: "rs_params option"
  n_servers :: usize
  share_comm :: "share_commitment_params option"

record 'q share_path =
  lane_index :: usize
  nodes :: "'q list"

text \<open>
  \<open>'p\<close> is the type of coded polynomials, \<open>'q\<close> that of path nodes, \<open>'o\<close> that of openings.
  \<open>node_bytes\<close> is the concatenation of a node's coefficients in little-endian form.
\<close>

record ('p, 'q, 'o) set_codecs = crypto +
  poly_slots :: usize
  poly_packed_len :: usize
  pack_share :: "'p list \<Rightarrow> bytes"
  unpack_share :: "bytes \<Rightarrow> usize \<Rightarrow> 'p list option"
  from_ntt_slots :: "u64 list \<Rightarrow> 'p option"
  ntt_slots :: "'p \<Rightarrow> u64 list"
  node_bytes :: "'q \<Rightarrow> bytes"
  path_to_bytes :: "'q share_path \<Rightarrow> bytes option"
  path_from_bytes :: "share_commitment_params \<Rightarrow> usize \<Rightarrow> bytes \<Rightarrow> 'q share_path option"
  path_packed_len :: "usize \<Rightarrow> usize"
  rs_encode :: "rs_params \<Rightarrow> 'p list \<Rightarrow> 'p list list"
  rs_reconstruct :: "rs_params \<Rightarrow> usize \<Rightarrow> (usize \<times> 'p list) list \<Rightarrow> 'p list option"
  sig_key_valid :: "bytes \<Rightarrow> bool"
  sig_public :: "bytes \<Rightarrow> bytes"
  sig_sign :: "bytes \<Rightarrow> bytes \<Rightarrow> bytes"
  sig_verify :: "bytes \<Rightarrow> bytes \<Rightarrow> bytes \<Rightarrow> bool"
  sig_pubkey_len :: usize
  sig_len :: usize
  unseal_opening :: "bytes \<Rightarrow> bytes \<Rightarrow> client_id \<Rightarrow> server_id \<Rightarrow> bytes \<Rightarrow> 'o option"

definition code :: "protocol_params \<Rightarrow> rs_params option" where
  "code pp = (case pp_rs pp of
     None \<Rightarrow> None
   | Some rs \<Rightarrow> if rs_n rs = n_servers pp then Some rs else None)"

definition relay_rounds :: "protocol_params \<Rightarrow> usize option" where
  "relay_rounds pp = map_option (\<lambda>rs. rs_n rs - rs_k rs + 1) (code pp)"

definition sha :: "'z crypto_scheme \<Rightarrow> bytes list \<Rightarrow> bytes" where
  "sha C parts = sha256 C (concat parts)"

definition hash_share :: "('p, 'q, 'o, 'z) set_codecs_scheme \<Rightarrow> 'p list \<Rightarrow> bytes" where
  "hash_share C share = sha256 C (pack_share C share)"

definition hash_path :: "('p, 'q, 'o, 'z) set_codecs_scheme \<Rightarrow> 'q share_path \<Rightarrow> bytes" where
  "hash_path C path =
     sha256 C (le_bytes 4 (as_u32 (lane_index path)) @ concat (map (node_bytes C) (nodes path)))"


section \<open>Bundles\<close>

record ('p, 'q) client_bundle =
  b_client :: client_id
  b_lane :: usize
  b_share :: "'p list"
  b_path :: "'q share_path"
  b_envelope :: bytes
  b_pubkey :: bytes
  b_sig :: bytes

definition bundle_signing_bytes ::
    "('p, 'q, 'o, 'z) set_codecs_scheme \<Rightarrow> bytes \<Rightarrow> client_id \<Rightarrow> usize \<Rightarrow> 'p list \<Rightarrow> 'q share_path \<Rightarrow>
     bytes \<Rightarrow> bytes" where
  "bundle_signing_bytes C sid cid lane share path envelope =
     ascii ''panetiere/client-set/bundle/v3'' @ sid @ le_bytes 4 cid @ le_bytes 4 (as_u32 lane) @
     hash_share C share @ hash_path C path @ sha C [envelope]"

definition bundle_packed_len ::
    "('p, 'q, 'o, 'z) set_codecs_scheme \<Rightarrow> share_commitment_params \<Rightarrow> usize \<Rightarrow> usize" where
  "bundle_packed_len C scp envelope_len =
     8 + block_len scp * poly_packed_len C + path_packed_len C (n_lanes scp) + envelope_len +
     sig_pubkey_len C + sig_len C"

definition bundle_hash_of :: "('p, 'q, 'o, 'z) set_codecs_scheme \<Rightarrow> ('p, 'q) client_bundle \<Rightarrow> bytes" where
  "bundle_hash_of C b =
     sha C [hash_share C (b_share b), hash_path C (b_path b), b_envelope b, b_pubkey b, b_sig b]"

definition bundle_verify ::
    "('p, 'q, 'o, 'z) set_codecs_scheme \<Rightarrow> bytes \<Rightarrow> usize \<Rightarrow> ('p, 'q) client_bundle \<Rightarrow> bool" where
  "bundle_verify C sid lanes b \<longleftrightarrow>
     \<not> (lanes \<le> b_lane b \<or> lane_index (b_path b) \<noteq> b_lane b) \<and>
     sig_key_valid C (b_pubkey b) \<and>
     sig_verify C (b_pubkey b)
       (bundle_signing_bytes C sid (b_client b) (b_lane b) (b_share b) (b_path b) (b_envelope b))
       (b_sig b)"

definition bundle_pack ::
    "('p, 'q, 'o, 'z) set_codecs_scheme \<Rightarrow> ('p, 'q) client_bundle \<Rightarrow> bytes option" where
  "bundle_pack C b =
     do {
       path \<leftarrow> path_to_bytes C (b_path b);
       Some (le_bytes 4 (as_u32 (b_lane b)) @ pack_share C (b_share b) @ path @
             le_bytes 4 (as_u32 (length (b_envelope b))) @ b_envelope b @ b_pubkey b @ b_sig b)
     }"

text \<open>\<open>word(at)\<close>: the little-endian integer in four bytes at an offset.\<close>

definition word_at :: "bytes \<Rightarrow> usize \<Rightarrow> usize option" where
  "word_at bs at = map_option from_le_bytes (slice_range bs at (at + 4))"

definition bundle_unpack ::
    "('p, 'q, 'o, 'z) set_codecs_scheme \<Rightarrow> share_commitment_params \<Rightarrow> client_id \<Rightarrow> bytes \<Rightarrow>
     (('p, 'q) client_bundle \<times> usize) option" where
  "bundle_unpack C scp cid bs =
     do {
       lane \<leftarrow> word_at bs 0;
       let share_len = block_len scp * poly_packed_len C;
       share_bytes \<leftarrow> slice_range bs 4 (4 + share_len);
       share \<leftarrow> unpack_share C share_bytes (block_len scp);
       let at1 = 4 + share_len;
       let path_len = path_packed_len C (n_lanes scp);
       path_bytes \<leftarrow> slice_range bs at1 (at1 + path_len);
       path \<leftarrow> path_from_bytes C scp lane path_bytes;
       let at2 = at1 + path_len;
       env_len \<leftarrow> word_at bs at2;
       let at3 = at2 + 4;
       envelope \<leftarrow> slice_range bs at3 (at3 + env_len);
       let at4 = at3 + env_len;
       pubkey \<leftarrow> slice_range bs at4 (at4 + sig_pubkey_len C);
       let at5 = at4 + sig_pubkey_len C;
       sg \<leftarrow> slice_range bs at5 (at5 + sig_len C);
       Some (\<lparr>b_client = cid, b_lane = lane, b_share = share, b_path = path, b_envelope = envelope,
              b_pubkey = pubkey, b_sig = sg\<rparr>, at5 + sig_len C)
     }"


section \<open>Receipts\<close>

record receipt =
  r_client :: client_id
  pk_c :: bytes
  bundle_hash :: bytes

definition receipt_packed_len :: "('p, 'q, 'o, 'z) set_codecs_scheme \<Rightarrow> usize" where
  "receipt_packed_len C = 4 + sig_pubkey_len C + 32"

definition receipt_pack :: "receipt \<Rightarrow> bytes" where
  "receipt_pack r = le_bytes 4 (r_client r) @ pk_c r @ bundle_hash r"

definition receipt_unpack :: "('p, 'q, 'o, 'z) set_codecs_scheme \<Rightarrow> bytes \<Rightarrow> receipt option" where
  "receipt_unpack C bs =
     do {
       cid \<leftarrow> slice_range bs 0 4;
       pk \<leftarrow> slice_range bs 4 (4 + sig_pubkey_len C);
       h \<leftarrow> slice_range bs (4 + sig_pubkey_len C) (receipt_packed_len C);
       Some \<lparr>r_client = from_le_bytes cid, pk_c = pk, bundle_hash = h\<rparr>
     }"

record receipt_batch =
  rb_server :: server_id
  rb_receipts :: "receipt list"
  rb_sig :: bytes

definition batch_signing_bytes :: "bytes \<Rightarrow> server_id \<Rightarrow> receipt list \<Rightarrow> bytes" where
  "batch_signing_bytes sid server rs =
     ascii ''panetiere/client-set/batch/v1'' @ sid @ le_bytes 4 server @
     le_bytes 4 (as_u32 (length rs)) @ concat (map receipt_pack rs)"

definition batch_packed_len :: "('p, 'q, 'o, 'z) set_codecs_scheme \<Rightarrow> usize \<Rightarrow> usize" where
  "batch_packed_len C n = 8 + sig_len C + n * receipt_packed_len C"

definition batch_pack :: "receipt_batch \<Rightarrow> bytes" where
  "batch_pack b =
     le_bytes 4 (rb_server b) @ rb_sig b @ le_bytes 4 (as_u32 (length (rb_receipts b))) @
     concat (map receipt_pack (rb_receipts b))"

text \<open>The loop over the receipts: \<open>n\<close> of them from offset \<open>at\<close>, with the offset after them.\<close>

primrec unpack_receipts ::
    "('p, 'q, 'o, 'z) set_codecs_scheme \<Rightarrow> bytes \<Rightarrow> usize \<Rightarrow> usize \<Rightarrow> (receipt list \<times> usize) option" where
  "unpack_receipts C bs 0 at = Some ([], at)"
| "unpack_receipts C bs (Suc n) at =
     do {
       piece \<leftarrow> slice_range bs at (at + receipt_packed_len C);
       r \<leftarrow> receipt_unpack C piece;
       (rs, end) \<leftarrow> unpack_receipts C bs n (at + receipt_packed_len C);
       Some (r # rs, end)
     }"

definition batch_unpack :: "('p, 'q, 'o, 'z) set_codecs_scheme \<Rightarrow> bytes \<Rightarrow> receipt_batch option" where
  "batch_unpack C bs =
     do {
       server \<leftarrow> word_at bs 0;
       sg \<leftarrow> slice_range bs 4 (4 + sig_len C);
       n \<leftarrow> word_at bs (4 + sig_len C);
       let at = 4 + sig_len C + 4;
       if (length bs - at) div receipt_packed_len C < n then None
       else do {
         (rs, end) \<leftarrow> unpack_receipts C bs n at;
         if end = length bs
         then Some \<lparr>rb_server = server, rb_receipts = rs, rb_sig = sg\<rparr> else None
       }
     }"

definition batch_verify ::
    "('p, 'q, 'o, 'z) set_codecs_scheme \<Rightarrow> bytes \<Rightarrow> bytes list \<Rightarrow> receipt_batch \<Rightarrow> bool" where
  "batch_verify C sid pks b \<longleftrightarrow>
     is_some_and (\<lambda>vk. sig_verify C vk (batch_signing_bytes sid (rb_server b) (rb_receipts b)) (rb_sig b))
       (slice_get pks (rb_server b))"


section \<open>Fragments and relayed items\<close>

record 'p set_fragment =
  f_client :: client_id
  f_idx :: usize
  f_data :: "'p list"
  f_sig :: bytes

definition set_fragment_signing_bytes ::
    "('p, 'q, 'o, 'z) set_codecs_scheme \<Rightarrow> bytes \<Rightarrow> client_id \<Rightarrow> usize \<Rightarrow> 'p list \<Rightarrow> bytes" where
  "set_fragment_signing_bytes C sid cid idx dat =
     ascii ''panetiere/client-set/fragment/v1'' @ sid @ le_bytes 4 cid @ le_bytes 4 (as_u32 idx) @
     hash_share C dat"

definition fragment_pack :: "('p, 'q, 'o, 'z) set_codecs_scheme \<Rightarrow> 'p set_fragment \<Rightarrow> bytes" where
  "fragment_pack C f =
     le_bytes 4 (f_client f) @ le_bytes 4 (as_u32 (f_idx f)) @ le_bytes 4 (as_u32 (length (f_data f))) @
     pack_share C (f_data f) @ f_sig f"

definition fragment_unpack ::
    "('p, 'q, 'o, 'z) set_codecs_scheme \<Rightarrow> bytes \<Rightarrow> 'p set_fragment option" where
  "fragment_unpack C bs =
     do {
       cid \<leftarrow> word_at bs 0;
       idx \<leftarrow> word_at bs 4;
       n_polys \<leftarrow> word_at bs 8;
       let body_end = 12 + n_polys * poly_packed_len C;
       if (length bs - 12) div poly_packed_len C < n_polys \<or> length bs \<noteq> body_end + sig_len C then None
       else do {
         body_bytes \<leftarrow> slice_range bs 12 body_end;
         dat \<leftarrow> unpack_share C body_bytes n_polys;
         sg \<leftarrow> slice_range bs body_end (length bs);
         Some \<lparr>f_client = cid, f_idx = idx, f_data = dat, f_sig = sg\<rparr>
       }
     }"

definition fragment_item_hash ::
    "('p, 'q, 'o, 'z) set_codecs_scheme \<Rightarrow> bytes \<Rightarrow> 'p set_fragment \<Rightarrow> bytes" where
  "fragment_item_hash C sid f =
     sha C [ascii ''panetiere/client-set/fragment-id/v1'',
            set_fragment_signing_bytes C sid (f_client f) (f_idx f) (f_data f)]"

definition relay_signing_bytes :: "bytes \<Rightarrow> bytes \<Rightarrow> bytes" where
  "relay_signing_bytes sid item_hash = ascii ''panetiere/client-set/relay/v1'' @ sid @ item_hash"

datatype 'p relay_item = ItemBatch receipt_batch | ItemFragment "'p set_fragment"

fun item_hash :: "('p, 'q, 'o, 'z) set_codecs_scheme \<Rightarrow> bytes \<Rightarrow> 'p relay_item \<Rightarrow> bytes" where
  "item_hash C sid (ItemBatch b) =
     sha C [ascii ''panetiere/client-set/batch-id/v1'',
            batch_signing_bytes sid (rb_server b) (rb_receipts b)]"
| "item_hash C sid (ItemFragment f) = fragment_item_hash C sid f"

record 'p relay_msg =
  item :: "'p relay_item"
  chain :: "(server_id \<times> bytes) list"

definition CHAIN_ENTRY :: "('p, 'q, 'o, 'z) set_codecs_scheme \<Rightarrow> usize" where
  "CHAIN_ENTRY C = 4 + sig_len C"

definition relay_pack :: "('p, 'q, 'o, 'z) set_codecs_scheme \<Rightarrow> 'p relay_msg \<Rightarrow> bytes" where
  "relay_pack C r =
     (let (tag, it) = (case item r of
            ItemBatch b \<Rightarrow> (0, batch_pack b)
          | ItemFragment f \<Rightarrow> (1, fragment_pack C f))
      in [tag] @ le_bytes 4 (as_u32 (length it)) @ it @ le_bytes 4 (as_u32 (length (chain r))) @
         concat (map (\<lambda>(s, sg). le_bytes 4 s @ sg) (chain r)))"

primrec unpack_chain ::
    "('p, 'q, 'o, 'z) set_codecs_scheme \<Rightarrow> bytes \<Rightarrow> usize \<Rightarrow> usize \<Rightarrow>
     ((server_id \<times> bytes) list \<times> usize) option" where
  "unpack_chain C bs 0 at = Some ([], at)"
| "unpack_chain C bs (Suc n) at =
     do {
       s \<leftarrow> word_at bs at;
       sg \<leftarrow> slice_range bs (at + 4) (at + CHAIN_ENTRY C);
       (rest, end) \<leftarrow> unpack_chain C bs n (at + CHAIN_ENTRY C);
       Some ((s, sg) # rest, end)
     }"

definition relay_unpack :: "('p, 'q, 'o, 'z) set_codecs_scheme \<Rightarrow> bytes \<Rightarrow> 'p relay_msg option" where
  "relay_unpack C bs =
     do {
       tag \<leftarrow> slice_get bs 0;
       item_len \<leftarrow> word_at bs 1;
       body_bytes \<leftarrow> slice_range bs 5 (5 + item_len);
       it \<leftarrow> (if tag = 0 then map_option ItemBatch (batch_unpack C body_bytes)
             else if tag = 1 then map_option ItemFragment (fragment_unpack C body_bytes)
             else None);
       let at = 5 + item_len;
       n_chain \<leftarrow> word_at bs at;
       if (length bs - (at + 4)) div CHAIN_ENTRY C < n_chain then None
       else do {
         (ch, end) \<leftarrow> unpack_chain C bs n_chain (at + 4);
         if end \<noteq> length bs then None else Some \<lparr>item = it, chain = ch\<rparr>
       }
     }"


section \<open>The client's side\<close>

definition BYTES_PER_COEFF :: usize where "BYTES_PER_COEFF = 5"

text \<open>The slots of polynomial \<open>p\<close>: each takes up to five bytes of the blob, the rest are zero.\<close>

definition blob_slots :: "usize \<Rightarrow> bytes \<Rightarrow> usize \<Rightarrow> u64 list" where
  "blob_slots slots blob p =
     map (\<lambda>i. from_le_bytes (take BYTES_PER_COEFF (drop ((p * slots + i) * BYTES_PER_COEFF) blob)))
       [0..<slots]"

definition blob_to_polys :: "('p, 'q, 'o, 'z) set_codecs_scheme \<Rightarrow> bytes \<Rightarrow> 'p list option" where
  "blob_to_polys C blob =
     (let coeffs = max (div_ceil (length blob) BYTES_PER_COEFF) 1
      in those (map (\<lambda>p. from_ntt_slots C (blob_slots (poly_slots C) blob p))
                 [0..<div_ceil coeffs (poly_slots C)]))"

definition polys_to_blob :: "('p, 'q, 'o, 'z) set_codecs_scheme \<Rightarrow> 'p list \<Rightarrow> usize \<Rightarrow> bytes" where
  "polys_to_blob C polys blob_len =
     take blob_len
       (concat (map (\<lambda>p. concat (map (\<lambda>c. take BYTES_PER_COEFF (le_bytes 8 c)) (ntt_slots C p))) polys))"

text \<open>
  The code of the fragments. \<open>RsParams::new\<close> belongs to the panetiere crate; a parameter
  check it may make (for \<open>k = n\<close> there is no fragment) is not modelled.
\<close>

definition fragment_params :: "protocol_params \<Rightarrow> rs_params option" where
  "fragment_params pp = map_option (\<lambda>rs. \<lparr>rs_k = rs_n rs - rs_k rs, rs_n = rs_n rs\<rparr>) (code pp)"

text \<open>What a client round of the panetiere crate hands over, less its bulletin entry.\<close>

record ('p, 'q) rs_round_output =
  ro_client :: client_id
  rs_shares :: "'p list list"
  share_paths :: "'q share_path list"
  sealed_openings :: "(server_id \<times> bytes) list"

record ('p, 'q) client_set_round =
  csr_client :: client_id
  csr_bundles :: "('p, 'q) client_bundle list"

definition round_bundle ::
    "('p, 'q, 'o, 'z) set_codecs_scheme \<Rightarrow> bytes \<Rightarrow> ('p, 'q) rs_round_output \<Rightarrow> bytes \<Rightarrow> usize \<Rightarrow>
     ('p, 'q) client_bundle option" where
  "round_bundle C sid round_out sk lane =
     do {
       share \<leftarrow> slice_get (rs_shares round_out) lane;
       path \<leftarrow> slice_get (share_paths round_out) lane;
       (_, envelope) \<leftarrow> slice_get (sealed_openings round_out) lane;
       Some \<lparr>b_client = ro_client round_out, b_lane = lane, b_share = share, b_path = path,
             b_envelope = envelope, b_pubkey = sig_public C sk,
             b_sig = sig_sign C sk
               (bundle_signing_bytes C sid (ro_client round_out) lane share path envelope)\<rparr>
     }"

definition client_set_round_from_rs ::
    "('p, 'q, 'o, 'z) set_codecs_scheme \<Rightarrow> protocol_params \<Rightarrow> bytes \<Rightarrow> ('p, 'q) rs_round_output \<Rightarrow> bytes \<Rightarrow>
     ('p, 'q) client_set_round option" where
  "client_set_round_from_rs C pp sid round_out sk =
     do {
       rs \<leftarrow> code pp;
       if length (sealed_openings round_out) \<noteq> rs_n rs then None
       else do {
         bs \<leftarrow> those (map (round_bundle C sid round_out sk) [0..<rs_n rs]);
         Some \<lparr>csr_client = ro_client round_out, csr_bundles = bs\<rparr>
       }
     }"

text \<open>
  The repair fragments of a client: the bundles of the lanes not covered, packed one after
  the other and coded, one signed fragment per lane. \<open>Some []\<close> when there is nothing to
  repair or too few lanes are covered.
\<close>

definition missing_lanes :: "usize \<Rightarrow> usize list \<Rightarrow> usize list" where
  "missing_lanes n covered = filter (\<lambda>l. l \<notin> set covered) [0..<n]"

definition pack_lane ::
    "('p, 'q, 'o, 'z) set_codecs_scheme \<Rightarrow> ('p, 'q) client_set_round \<Rightarrow> usize \<Rightarrow> bytes option" where
  "pack_lane C cr l = Option.bind (slice_get (csr_bundles cr) l) (bundle_pack C)"

definition signed_fragment ::
    "('p, 'q, 'o, 'z) set_codecs_scheme \<Rightarrow> bytes \<Rightarrow> client_id \<Rightarrow> bytes \<Rightarrow> usize \<times> 'p list \<Rightarrow> 'p set_fragment" where
  "signed_fragment C sid cid sk = (\<lambda>(idx, dat).
     \<lparr>f_client = cid, f_idx = idx, f_data = dat,
      f_sig = sig_sign C sk (set_fragment_signing_bytes C sid cid idx dat)\<rparr>)"

definition build_fragments ::
    "('p, 'q, 'o, 'z) set_codecs_scheme \<Rightarrow> protocol_params \<Rightarrow> bytes \<Rightarrow> ('p, 'q) client_set_round \<Rightarrow>
     usize list \<Rightarrow> bytes \<Rightarrow> 'p set_fragment list option" where
  "build_fragments C pp sid cr covered sk =
     do {
       rs \<leftarrow> code pp;
       let missing = missing_lanes (rs_n rs) covered;
       if missing = [] \<or> length covered < rs_n rs - rs_k rs then Some []
       else do {
         scp \<leftarrow> share_comm pp;
         pieces \<leftarrow> those (map (pack_lane C cr) missing);
         polys \<leftarrow> blob_to_polys C (concat pieces);
         fp \<leftarrow> fragment_params pp;
         Some (map (signed_fragment C sid (csr_client cr) sk) (List.enumerate 0 (rs_encode C fp polys)))
       }
     }"


section \<open>The server's side\<close>

definition MAX_BUNDLES :: usize where "MAX_BUNDLES = 4"

record ('p, 'q) set_server =
  ss_server_id :: server_id
  ss_n_lanes :: usize
  ss_k :: usize
  ss_signer :: bytes
  ss_server_pks :: "bytes list"
  relaying :: bool
  accepted :: "bytes fset"
  held :: "(client_id, (bytes, ('p, 'q) client_bundle) fmap) fmap"
  batches :: "(server_id, receipt_batch) fmap"
  ss_fragments :: "(client_id, (usize, 'p set_fragment) fmap) fmap"
  bulletins :: "(client_id, bytes fset) fmap"

definition new_set_server ::
    "protocol_params \<Rightarrow> server_id \<Rightarrow> bytes \<Rightarrow> bytes list \<Rightarrow> ('p, 'q) set_server option" where
  "new_set_server pp i sk pks =
     do {
       rs \<leftarrow> code pp;
       if length pks \<noteq> rs_n rs \<or> \<not> i < rs_n rs then None
       else Some \<lparr>ss_server_id = i, ss_n_lanes = rs_n rs, ss_k = rs_k rs, ss_signer = sk,
                  ss_server_pks = pks, relaying = False, accepted = {||}, held = fmempty,
                  batches = fmempty, ss_fragments = fmempty, bulletins = fmempty\<rparr>
     }"

text \<open>\<open>m.entry(k).or_default()\<close> of a map of maps or sets.\<close>

definition entry_map :: "('k, ('a, 'b) fmap) fmap \<Rightarrow> 'k \<Rightarrow> ('a, 'b) fmap" where
  "entry_map m k = (case fmlookup m k of Some x \<Rightarrow> x | None \<Rightarrow> fmempty)"

definition entry_set :: "('k, 'a fset) fmap \<Rightarrow> 'k \<Rightarrow> 'a fset" where
  "entry_set m k = (case fmlookup m k of Some x \<Rightarrow> x | None \<Rightarrow> {||})"

definition receive ::
    "('p, 'q, 'o, 'z) set_codecs_scheme \<Rightarrow> bytes \<Rightarrow> ('p, 'q) client_bundle \<Rightarrow> ('p, 'q) set_server \<Rightarrow>
     ('p, 'q) set_server \<times> bool" where
  "receive C sid b s =
     (if relaying s \<or> b_lane b \<noteq> ss_server_id s \<or> \<not> bundle_verify C sid (ss_n_lanes s) b then (s, False)
      else
        (let h = bundle_hash_of C b;
             mine = entry_map (held s) (b_client b)
         in if MAX_BUNDLES \<le> fm_size mine \<and> h |\<notin>| fmdom mine
            then (s, False)
            else (s\<lparr>held := fmupd (b_client b) (fmupd h b mine) (held s)\<rparr>, True)))"

definition receipt_of :: "client_id \<times> (bytes, ('p, 'q) client_bundle) fmap \<Rightarrow> receipt option" where
  "receipt_of = (\<lambda>(cid, bs).
     case fm_items bs of
       [] \<Rightarrow> None
     | (h, b) # _ \<Rightarrow> Some \<lparr>r_client = cid, pk_c = b_pubkey b, bundle_hash = h\<rparr>)"

definition batch_of ::
    "('p, 'q, 'o, 'z) set_codecs_scheme \<Rightarrow> bytes \<Rightarrow> ('p, 'q) set_server \<Rightarrow> receipt_batch" where
  "batch_of C sid s =
     (let rs = List.map_filter receipt_of (fm_items (held s))
      in \<lparr>rb_server = ss_server_id s, rb_receipts = rs,
          rb_sig = sig_sign C (ss_signer s) (batch_signing_bytes sid (ss_server_id s) rs)\<rparr>)"

definition reported_key :: "client_id \<Rightarrow> ('p, 'q) set_server \<Rightarrow> bytes option" where
  "reported_key cid s =
     (case fmlookup (bulletins s) cid of
        None \<Rightarrow> None
      | Some posted \<Rightarrow>
          (case sorted_list_of_fset posted of [pk] \<Rightarrow> Some pk | _ \<Rightarrow> None))"

definition note_bulletin :: "client_id \<Rightarrow> bytes \<Rightarrow> ('p, 'q) set_server \<Rightarrow> ('p, 'q) set_server" where
  "note_bulletin cid pk s =
     s\<lparr>bulletins := fmupd cid (finsert pk (entry_set (bulletins s) cid)) (bulletins s)\<rparr>"

definition accept_batch ::
    "('p, 'q, 'o, 'z) set_codecs_scheme \<Rightarrow> bytes \<Rightarrow> receipt_batch \<Rightarrow> ('p, 'q) set_server \<Rightarrow>
     ('p, 'q) set_server \<times> bool" where
  "accept_batch C sid b s =
     (if \<not> batch_verify C sid (ss_server_pks s) b then (s, False)
      else (s\<lparr>batches := (if rb_server b |\<in>| fmdom (batches s) then batches s
                          else fmupd (rb_server b) b (batches s))\<rparr>, True))"

text \<open>The checks of \<open>accept_fragments\<close> on one fragment, and the insertion of one that passed.\<close>

definition fragment_admissible ::
    "('p, 'q, 'o, 'z) set_codecs_scheme \<Rightarrow> bytes \<Rightarrow> ('p, 'q) set_server \<Rightarrow> 'p set_fragment \<Rightarrow> bool" where
  "fragment_admissible C sid s f \<longleftrightarrow>
     f_idx f < ss_n_lanes s \<and>
     \<not> is_some_and (\<lambda>m. f_idx f |\<in>| fmdom m) (fmlookup (ss_fragments s) (f_client f)) \<and>
     is_some_and (\<lambda>pk. sig_key_valid C pk \<and>
         sig_verify C pk (set_fragment_signing_bytes C sid (f_client f) (f_idx f) (f_data f)) (f_sig f))
       (reported_key (f_client f) s)"

definition insert_fragment ::
    "('p, 'q, 'o, 'z) set_codecs_scheme \<Rightarrow> bytes \<Rightarrow> 'p set_fragment \<Rightarrow>
     ('p, 'q) set_server \<times> 'p set_fragment list \<Rightarrow> ('p, 'q) set_server \<times> 'p set_fragment list" where
  "insert_fragment C sid f = (\<lambda>(s, fresh).
     (let h = fragment_item_hash C sid f;
          old = entry_map (ss_fragments s) (f_client f);
          s1 = s\<lparr>ss_fragments := fmupd (f_client f) (fmupd (f_idx f) f old) (ss_fragments s)\<rparr>
      in if fmlookup old (f_idx f) \<noteq> None then (s1, fresh)
         else if h |\<in>| accepted s then (s1, fresh)
         else (s1\<lparr>accepted := finsert h (accepted s)\<rparr>, fresh @ [f])))"

definition accept_fragments ::
    "('p, 'q, 'o, 'z) set_codecs_scheme \<Rightarrow> bytes \<Rightarrow> 'p set_fragment list \<Rightarrow> ('p, 'q) set_server \<Rightarrow>
     ('p, 'q) set_server \<times> 'p set_fragment list" where
  "accept_fragments C sid fs s =
     fold (insert_fragment C sid) (filter (fragment_admissible C sid s) fs) (s, [])"

definition first_relay ::
    "('p, 'q, 'o, 'z) set_codecs_scheme \<Rightarrow> bytes \<Rightarrow> ('p, 'q) set_server \<Rightarrow> 'p relay_item \<Rightarrow> 'p relay_msg" where
  "first_relay C sid s it =
     \<lparr>item = it,
      chain = [(ss_server_id s, sig_sign C (ss_signer s) (relay_signing_bytes sid (item_hash C sid it)))]\<rparr>"

definition submit ::
    "('p, 'q, 'o, 'z) set_codecs_scheme \<Rightarrow> bytes \<Rightarrow> 'p set_fragment list \<Rightarrow> ('p, 'q) set_server \<Rightarrow>
     ('p, 'q) set_server \<times> 'p relay_msg list" where
  "submit C sid fs s =
     (let (s1, fresh) = accept_fragments C sid fs s
      in (s1, map (first_relay C sid s1 \<circ> ItemFragment) fresh))"

definition originate ::
    "('p, 'q, 'o, 'z) set_codecs_scheme \<Rightarrow> bytes \<Rightarrow> ('p, 'q) set_server \<Rightarrow>
     ('p, 'q) set_server \<times> 'p relay_msg list" where
  "originate C sid s =
     (let own = batch_of C sid s;
          items = ItemBatch own # map ItemFragment (concat (map fm_values (fm_values (ss_fragments s))))
      in (s\<lparr>relaying := True, batches := fmupd (ss_server_id s) own (batches s),
            accepted := accepted s |\<union>| fset_of_list (map (item_hash C sid) items)\<rparr>,
          map (first_relay C sid s) items))"

text \<open>Distinct lanes with a valid chain signature.\<close>

fun chain_seen ::
    "('p, 'q, 'o, 'z) set_codecs_scheme \<Rightarrow> bytes list \<Rightarrow> bytes \<Rightarrow> (server_id \<times> bytes) list \<Rightarrow> usize fset \<Rightarrow>
     usize fset" where
  "chain_seen C pks msg [] seen = seen"
| "chain_seen C pks msg ((j, sg) # ch) seen =
     chain_seen C pks msg ch
       (if j < length pks \<and> j |\<notin>| seen \<and> sig_verify C (pks ! j) msg sg then finsert j seen else seen)"

definition chain_len ::
    "('p, 'q, 'o, 'z) set_codecs_scheme \<Rightarrow> bytes \<Rightarrow> bytes \<Rightarrow> (server_id \<times> bytes) list \<Rightarrow>
     ('p, 'q) set_server \<Rightarrow> usize" where
  "chain_len C sid h ch s = fcard (chain_seen C (ss_server_pks s) (relay_signing_bytes sid h) ch {||})"

text \<open>Accepting one relayed item, and the loop body of \<open>absorb\<close>.\<close>

definition accept_item ::
    "('p, 'q, 'o, 'z) set_codecs_scheme \<Rightarrow> bytes \<Rightarrow> 'p relay_item \<Rightarrow> ('p, 'q) set_server \<Rightarrow>
     ('p, 'q) set_server" where
  "accept_item C sid it s =
     (case it of
        ItemBatch b \<Rightarrow>
          (let (s1, ok) = accept_batch C sid b s
           in if ok then s1\<lparr>accepted := finsert (item_hash C sid it) (accepted s1)\<rparr> else s1)
      | ItemFragment f \<Rightarrow> fst (accept_fragments C sid [f] s))"

definition absorb_one ::
    "('p, 'q, 'o, 'z) set_codecs_scheme \<Rightarrow> bytes \<Rightarrow> usize \<Rightarrow> 'p relay_msg \<Rightarrow> ('p, 'q) set_server \<Rightarrow>
     ('p, 'q) set_server \<times> 'p relay_msg list" where
  "absorb_one C sid rnd r s =
     (let h = item_hash C sid (item r)
      in if h |\<in>| accepted s \<or> chain_len C sid h (chain r) s < rnd then (s, [])
         else
           (let s1 = accept_item C sid (item r) s
            in if h |\<in>| accepted s1
               then (s1, [\<lparr>item = item r,
                           chain = filter (\<lambda>(i, _). i \<noteq> ss_server_id s1) (chain r) @
                             [(ss_server_id s1, sig_sign C (ss_signer s1) (relay_signing_bytes sid h))]\<rparr>])
               else (s1, [])))"

definition is_batch :: "'p relay_msg \<Rightarrow> bool" where
  "is_batch r \<longleftrightarrow> (case item r of ItemBatch _ \<Rightarrow> True | ItemFragment _ \<Rightarrow> False)"

definition absorb ::
    "('p, 'q, 'o, 'z) set_codecs_scheme \<Rightarrow> bytes \<Rightarrow> usize \<Rightarrow> 'p relay_msg list \<Rightarrow> ('p, 'q) set_server \<Rightarrow>
     ('p, 'q) set_server \<times> 'p relay_msg list" where
  "absorb C sid rnd incoming s =
     run_ops (absorb_one C sid rnd)
       (filter is_batch incoming @ filter (\<lambda>r. \<not> is_batch r) incoming) s"



section \<open>Fixing the set\<close>

record ('p, 'q, 'o) set_round =
  sr_set :: "client_id list"
  inbox_items :: "(client_id \<times> 'o) list"
  lane_items :: "(client_id \<times> 'p list \<times> 'q share_path) list"
  excluded :: "client_id list"
  conflicted :: "client_id list"
  repaired :: "client_id list"

definition covered_lanes :: "client_id \<Rightarrow> bytes \<Rightarrow> ('p, 'q) set_server \<Rightarrow> usize list" where
  "covered_lanes cid pk s =
     sort (map rb_server
       (filter (\<lambda>b. list_ex (\<lambda>r. r_client r = cid \<and> pk_c r = pk) (rb_receipts b)) (fm_values (batches s))))"

definition own_bundle :: "client_id \<Rightarrow> ('p, 'q) set_server \<Rightarrow> ('p, 'q) client_bundle option" where
  "own_bundle cid s =
     do {
       own \<leftarrow> fmlookup (batches s) (ss_server_id s);
       r \<leftarrow> find (\<lambda>r. r_client r = cid) (rb_receipts own);
       mine \<leftarrow> fmlookup (held s) cid;
       fmlookup mine (bundle_hash r)
     }"

text \<open>The loop of \<open>rebuild\<close> over the missing lanes: one bundle each, from offset \<open>at\<close>.\<close>

primrec unpack_lanes ::
    "('p, 'q, 'o, 'z) set_codecs_scheme \<Rightarrow> share_commitment_params \<Rightarrow> bytes \<Rightarrow> usize \<Rightarrow> client_id \<Rightarrow> bytes \<Rightarrow>
     bytes \<Rightarrow> usize list \<Rightarrow> usize \<Rightarrow> ('p, 'q) client_bundle list option" where
  "unpack_lanes C scp sid lanes cid pk blob [] at = Some []"
| "unpack_lanes C scp sid lanes cid pk blob (l # ls) at =
     do {
       rest \<leftarrow> slice_range blob at (length blob);
       (b, used) \<leftarrow> bundle_unpack C scp cid rest;
       if b_lane b \<noteq> l \<or> b_pubkey b \<noteq> pk \<or> \<not> bundle_verify C sid lanes b then None
       else do {
         bs \<leftarrow> unpack_lanes C scp sid lanes cid pk blob ls (at + used);
         Some (b # bs)
       }
     }"

definition rebuild_from ::
    "('p, 'q, 'o, 'z) set_codecs_scheme \<Rightarrow> protocol_params \<Rightarrow> bytes \<Rightarrow> client_id \<Rightarrow> bytes \<Rightarrow> usize list \<Rightarrow>
     rs_params \<Rightarrow> ('p, 'q) set_server \<Rightarrow> ('p, 'q) client_bundle list option" where
  "rebuild_from C pp sid cid pk missing fp s =
     do {
       have_frags \<leftarrow> fmlookup (ss_fragments s) cid;
       if fm_size have_frags < rs_k fp then None
       else do {
         let samples = take (rs_k fp) (map (\<lambda>f. (f_idx f, f_data f)) (fm_values have_frags));
         (_, front) \<leftarrow> slice_get samples 0;
         let n_polys = rs_k fp * length front;
         recovered \<leftarrow> rs_reconstruct C fp n_polys samples;
         let blob = polys_to_blob C recovered (length recovered * poly_slots C * BYTES_PER_COEFF);
         scp \<leftarrow> share_comm pp;
         unpack_lanes C scp sid (ss_n_lanes s) cid pk blob missing 0
       }
     }"

text \<open>The outer option is the panic of \<open>fragment_params\<close>.\<close>

definition rebuild ::
    "('p, 'q, 'o, 'z) set_codecs_scheme \<Rightarrow> protocol_params \<Rightarrow> bytes \<Rightarrow> client_id \<Rightarrow> bytes \<Rightarrow> usize list \<Rightarrow>
     usize list \<Rightarrow> ('p, 'q) set_server \<Rightarrow> ('p, 'q) client_bundle list option option" where
  "rebuild C pp sid cid pk covered missing s =
     (if length covered < ss_n_lanes s - ss_k s then Some None
      else map_option (\<lambda>fp. rebuild_from C pp sid cid pk missing fp s) (fragment_params pp))"

text \<open>The accumulators of the loop over the clients.\<close>

record ('p, 'q) tally =
  abstaining :: "usize fset"
  rebuilt_for :: "(client_id, ('p, 'q) client_bundle) fmap"
  admitted :: "(client_id \<times> usize list) list"
  t_excluded :: "client_id list"
  t_conflicted :: "client_id list"

definition empty_tally :: "('p, 'q) tally" where
  "empty_tally = \<lparr>abstaining = {||}, rebuilt_for = fmempty, admitted = [], t_excluded = [], t_conflicted = []\<rparr>"

definition exclude :: "client_id \<Rightarrow> ('p, 'q) tally \<Rightarrow> ('p, 'q) tally" where
  "exclude cid t = t\<lparr>t_excluded := t_excluded t @ [cid]\<rparr>"

definition admit :: "client_id \<Rightarrow> usize list \<Rightarrow> ('p, 'q) tally \<Rightarrow> ('p, 'q) tally" where
  "admit cid unrepaired t = t\<lparr>admitted := admitted t @ [(cid, unrepaired)]\<rparr>"

definition judge_client ::
    "('p, 'q, 'o, 'z) set_codecs_scheme \<Rightarrow> protocol_params \<Rightarrow> bytes \<Rightarrow> ('p, 'q) set_server \<Rightarrow> client_id \<Rightarrow>
     ('p, 'q) tally \<Rightarrow> ('p, 'q) tally option" where
  "judge_client C pp sid s cid t =
     (case reported_key cid s of
        None \<Rightarrow>
          Some (exclude cid
            (if is_some_and (\<lambda>p. 1 < fcard p) (fmlookup (bulletins s) cid)
             then t\<lparr>t_conflicted := t_conflicted t @ [cid]\<rparr> else t))
      | Some pk \<Rightarrow>
          (let covered = covered_lanes cid pk s;
               missing = missing_lanes (ss_n_lanes s) covered
           in if missing = [] then Some (admit cid [] t)
              else
                map_option
                  (\<lambda>res. case res of
                     Some bs \<Rightarrow>
                       admit cid []
                         (case find (\<lambda>b. b_lane b = ss_server_id s) bs of
                            Some mine \<Rightarrow> t\<lparr>rebuilt_for := fmupd cid mine (rebuilt_for t)\<rparr>
                          | None \<Rightarrow> t)
                   | None \<Rightarrow>
                       (let cost = abstaining t |\<union>| fset_of_list missing
                        in if fcard cost \<le> ss_n_lanes s - ss_k s
                           then admit cid missing (t\<lparr>abstaining := cost\<rparr>)
                           else exclude cid t))
                  (rebuild C pp sid cid pk covered missing s)))"

primrec judge_clients ::
    "('p, 'q, 'o, 'z) set_codecs_scheme \<Rightarrow> protocol_params \<Rightarrow> bytes \<Rightarrow> ('p, 'q) set_server \<Rightarrow> client_id list \<Rightarrow>
     ('p, 'q) tally \<Rightarrow> ('p, 'q) tally option" where
  "judge_clients C pp sid s [] t = Some t"
| "judge_clients C pp sid s (cid # cids) t =
     Option.bind (judge_client C pp sid s cid t) (judge_clients C pp sid s cids)"

definition reported_clients :: "('p, 'q) set_server \<Rightarrow> client_id list" where
  "reported_clients s = sort_dedup (concat (map (map r_client \<circ> rb_receipts) (fm_values (batches s))))"

text \<open>
  One admitted client. Each client is admitted once, so reading \<open>rebuilt_for\<close> instead of
  removing from it makes no difference. The debug assertion is not part of an optimised
  build.
\<close>

definition serve_client ::
    "('p, 'q, 'o, 'z) set_codecs_scheme \<Rightarrow> bytes \<Rightarrow> bytes \<Rightarrow> ('p, 'q) set_server \<Rightarrow>
     (client_id, ('p, 'q) client_bundle) fmap \<Rightarrow> client_id \<Rightarrow> ('p, 'q, 'o) set_round \<Rightarrow> ('p, 'q, 'o) set_round" where
  "serve_client C key sid s rebuilt cid out =
     (let out1 = out\<lparr>sr_set := sr_set out @ [cid]\<rparr>;
          (out2, bundle) = (case fmlookup rebuilt cid of
              Some b \<Rightarrow> (out1\<lparr>repaired := repaired out1 @ [cid]\<rparr>, Some b)
            | None \<Rightarrow> (out1, own_bundle cid s))
      in case bundle of
           None \<Rightarrow> out2
         | Some b \<Rightarrow>
             (let out3 = (case unseal_opening C key sid cid (ss_server_id s) (b_envelope b) of
                   Some opening \<Rightarrow> out2\<lparr>inbox_items := inbox_items out2 @ [(cid, opening)]\<rparr>
                 | None \<Rightarrow> out2)
              in out3\<lparr>lane_items := lane_items out3 @ [(cid, b_share b, b_path b)]\<rparr>))"

definition finalize ::
    "('p, 'q, 'o, 'z) set_codecs_scheme \<Rightarrow> protocol_params \<Rightarrow> bytes \<Rightarrow> bytes \<Rightarrow> ('p, 'q) set_server \<Rightarrow>
     ('p, 'q, 'o) set_round option" where
  "finalize C pp key sid s =
     map_option
       (\<lambda>t. fold (serve_client C key sid s (rebuilt_for t)) (map fst (admitted t))
              \<lparr>sr_set = [], inbox_items = [], lane_items = [], excluded = t_excluded t,
               conflicted = t_conflicted t, repaired = []\<rparr>)
       (judge_clients C pp sid s (reported_clients s) empty_tally)"

text \<open>The set most servers published; ties go to the larger, then to the greater one.\<close>

definition set_votes :: "client_id list list \<Rightarrow> client_id list \<Rightarrow> nat" where
  "set_votes outputs cs = length (filter (\<lambda>x. x = cs) outputs)"

definition plurality_set :: "client_id list list \<Rightarrow> client_id list" where
  "plurality_set outputs =
     (if outputs = [] then []
      else snd (snd (Max ((\<lambda>cs. (set_votes outputs cs, length cs, cs)) ` set outputs))))"



section \<open>A concrete instance\<close>

text \<open>
  An instance of the crate's functions for concrete runs: a polynomial is one 40-bit slot,
  the erasure code repeats, the hash is the end of the message, a signature is the public key and
  the end of the message.
\<close>

definition demo_sign :: "bytes \<Rightarrow> bytes \<Rightarrow> bytes" where
  "demo_sign pk msg = pk @ take 8 (rev msg @ replicate 8 0)"

primrec demo_unpack :: "nat \<Rightarrow> bytes \<Rightarrow> 40 word list" where
  "demo_unpack 0 bs = []"
| "demo_unpack (Suc n) bs = word_of_nat (from_le_bytes (take 5 bs)) # demo_unpack n (drop 5 bs)"

definition demo_set_codecs :: "(40 word, unit, unit) set_codecs" where
  "demo_set_codecs = crypto.extend (demo_crypto\<lparr>sha256 := \<lambda>b. take 8 (rev b)\<rparr>)
     \<lparr>poly_slots = 1, poly_packed_len = 5,
      pack_share = concat \<circ> map (le_bytes 5 \<circ> unat),
      unpack_share = (\<lambda>bs n. Some (demo_unpack n bs)),
      from_ntt_slots = (\<lambda>xs. Some (word_of_nat (hd xs))),
      ntt_slots = (\<lambda>p. [unat p]),
      node_bytes = (\<lambda>_. []),
      path_to_bytes = (\<lambda>_. Some []),
      path_from_bytes = (\<lambda>_ lane _. Some \<lparr>lane_index = lane, nodes = []\<rparr>),
      path_packed_len = (\<lambda>_. 0),
      rs_encode = (\<lambda>fp polys. replicate (rs_n fp) polys),
      rs_reconstruct = (\<lambda>fp n samples. Some (snd (hd samples))),
      sig_key_valid = (\<lambda>_. True),
      sig_public = (\<lambda>sk. [hd (sk @ [0])]),
      sig_sign = (\<lambda>sk. demo_sign [hd (sk @ [0])]),
      sig_verify = (\<lambda>pk msg sg. sg = demo_sign pk msg),
      sig_pubkey_len = 1, sig_len = 9,
      unseal_opening = (\<lambda>_ _ _ _ _. Some ())\<rparr>"

definition demo_params :: "usize \<Rightarrow> usize \<Rightarrow> protocol_params" where
  "demo_params k n =
     \<lparr>pp_rs = Some \<lparr>rs_k = k, rs_n = n\<rparr>, n_servers = n, share_comm = Some \<lparr>block_len = 1, n_lanes = n\<rparr>\<rparr>"

end
