(* ===== verification/Set_Codecs.thy ===== *)
theory Set_Codecs
  imports Client_Set
begin

text \<open>
  The packed forms of client-set messages: receipt batches, fragments, relays, bundles, and
  the blob codec of repair data. Each decoder accepts exactly what the encoder writes.
\<close>

section \<open>Slices of packed messages\<close>

lemma slice_range_iff:
  "slice_range xs a b = Some ys \<longleftrightarrow> a \<le> b \<and> b \<le> length xs \<and> ys = take (b - a) (drop a xs)"
  by (auto simp: slice_range_def)

lemma slice_range_mid:
  "a = length xs \<Longrightarrow> b = a + length ys \<Longrightarrow> slice_range (xs @ ys @ zs) a b = Some ys"
  by (simp add: slice_range_def)

lemma word_at_mid:
  "a = length xs \<Longrightarrow> n < 256 ^ 4 \<Longrightarrow> word_at (xs @ le_bytes 4 n @ zs) a = Some n"
  by (simp add: word_at_def slice_range_mid from_le_bytes_le_bytes del: power_numeral)

lemma word_at_iff:
  "word_at bs a = Some n \<longleftrightarrow> a + 4 \<le> length bs \<and> n < 256 ^ 4 \<and> take 4 (drop a bs) = le_bytes 4 n"
proof -
  have "from_le_bytes ys = n \<longleftrightarrow> n < 256 ^ 4 \<and> ys = le_bytes 4 n" if "length ys = 4" for ys
    using that from_le_bytes_bound [of ys] by (auto simp: from_le_bytes_le_bytes le_bytes_from_le_bytes simp del: power_numeral)
  then show ?thesis by (auto simp: word_at_def slice_range_def)
qed

lemma take_drop_append: "take n (drop a xs) @ drop (a + n) xs = drop a xs"
  by (metis add.commute append_take_drop_id drop_drop)

lemma prefix_split: "take n xs @ drop n xs = xs"
  by (rule append_take_drop_id)


section \<open>Receipt batches\<close>

definition wf_receipt :: "('p, 'q, 'o, 'z) set_codecs_scheme \<Rightarrow> receipt \<Rightarrow> bool" where
  "wf_receipt C r \<longleftrightarrow> r_client r < 256 ^ 4 \<and> length (pk_c r) = sig_pubkey_len C \<and> length (bundle_hash r) = 32"

definition wf_batch :: "('p, 'q, 'o, 'z) set_codecs_scheme \<Rightarrow> receipt_batch \<Rightarrow> bool" where
  "wf_batch C b \<longleftrightarrow> rb_server b < 256 ^ 4 \<and> length (rb_sig b) = sig_len C \<and>
     list_all (wf_receipt C) (rb_receipts b) \<and> length (rb_receipts b) < 256 ^ 4"

lemma length_receipt_pack: "wf_receipt C r \<Longrightarrow> length (receipt_pack r) = receipt_packed_len C"
  by (simp add: wf_receipt_def receipt_pack_def receipt_packed_len_def)

lemma length_receipts_pack:
  "list_all (wf_receipt C) rs \<Longrightarrow> length (concat (map receipt_pack rs)) = length rs * receipt_packed_len C"
  by (induction rs) (simp_all add: length_receipt_pack)

lemma receipt_unpack_iff:
  assumes "length bs = receipt_packed_len C"
  shows "receipt_unpack C bs = Some r \<longleftrightarrow> wf_receipt C r \<and> bs = receipt_pack r"
proof
  assume "receipt_unpack C bs = Some r"
  then have r: "r = \<lparr>r_client = from_le_bytes (take 4 bs), pk_c = take (sig_pubkey_len C) (drop 4 bs),
      bundle_hash = take 32 (drop (4 + sig_pubkey_len C) bs)\<rparr>"
    using assms by (auto simp: receipt_unpack_def slice_range_iff receipt_packed_len_def split: bind_splits)
  have "take 4 bs @ take (sig_pubkey_len C) (drop 4 bs) @ drop (4 + sig_pubkey_len C) bs = bs"
    by (simp only: take_drop_append prefix_split)
  then show "wf_receipt C r \<and> bs = receipt_pack r"
    using assms from_le_bytes_bound [of "take 4 bs"]
    by (simp add: r wf_receipt_def receipt_pack_def receipt_packed_len_def le_bytes_from_le_bytes)
next
  assume "wf_receipt C r \<and> bs = receipt_pack r"
  then show "receipt_unpack C bs = Some r"
    by (auto simp: receipt_unpack_def slice_range_def receipt_pack_def wf_receipt_def receipt_packed_len_def
        from_le_bytes_le_bytes simp del: power_numeral)
qed

lemma unpack_receipts_iff:
  assumes "at \<le> length bs"
  shows "unpack_receipts C bs n at = Some (rs, e) \<longleftrightarrow>
    length rs = n \<and> list_all (wf_receipt C) rs \<and> e = at + n * receipt_packed_len C \<and> e \<le> length bs \<and>
    take (n * receipt_packed_len C) (drop at bs) = concat (map receipt_pack rs)"
  using assms
proof (induction n arbitrary: "at" rs)
  case (Suc n)
  let ?L = "receipt_packed_len C"
  show ?case
  proof (cases "at + ?L \<le> length bs")
    case True
    let ?p = "take ?L (drop at bs)"
    have len: "length ?p = ?L" using True by simp
    have step: "unpack_receipts C bs (Suc n) at = Some (rs, e) \<longleftrightarrow>
        (\<exists>r rs'. rs = r # rs' \<and> receipt_unpack C ?p = Some r \<and> unpack_receipts C bs n (at + ?L) = Some (rs', e))"
      using True by (auto simp: slice_range_def split: bind_splits)
    have split: "take (Suc n * ?L) (drop at bs) = ?p @ take (n * ?L) (drop (at + ?L) bs)"
      by (simp add: take_add add.commute)
    show ?thesis
      unfolding step Suc.IH [OF True] receipt_unpack_iff [OF len] split
      by (cases rs) (auto simp: length_receipt_pack len)
  next
    case False
    then show ?thesis by (auto simp: slice_range_def)
  qed
qed auto

text \<open>
  The decoder of receipt batches accepts exactly the packed well-formed batches: no two
  byte strings decode to the same batch, and no batch is refused.
\<close>

lemma batch_unpack_iff: "batch_unpack C bs = Some b \<longleftrightarrow> wf_batch C b \<and> bs = batch_pack b"
proof
  assume *: "batch_unpack C bs = Some b"
  let ?at = "4 + sig_len C + 4"
  from * obtain n rs e where n: "word_at bs 0 = Some (rb_server b)" "word_at bs (4 + sig_len C) = Some n"
    and sg: "slice_range bs 4 (4 + sig_len C) = Some (rb_sig b)"
    and rs: "unpack_receipts C bs n ?at = Some (rb_receipts b, length bs)"
    by (auto simp: batch_unpack_def Let_def split: bind_splits if_splits)
  have at: "?at \<le> length bs" using n(2) by (simp add: word_at_iff)
  note rs' = rs [unfolded unpack_receipts_iff [OF at]]
  have "bs = take 4 bs @ take (sig_len C) (drop 4 bs) @ take 4 (drop (4 + sig_len C) bs) @ drop ?at bs"
    by (simp only: take_drop_append prefix_split)
  moreover have "drop ?at bs = concat (map receipt_pack (rb_receipts b))"
    using rs' take_all [of "drop ?at bs" "n * receipt_packed_len C"] by simp
  ultimately have "bs = batch_pack b"
    using n sg rs' unfolding batch_pack_def
    by (simp add: word_at_iff slice_range_iff as_u32_def U32_MAX_def)
  then show "wf_batch C b \<and> bs = batch_pack b"
    using n sg rs' by (auto simp: wf_batch_def word_at_iff slice_range_iff)
next
  assume *: "wf_batch C b \<and> bs = batch_pack b"
  let ?at = "4 + sig_len C + 4"
  have wf: "wf_batch C b" and bs: "bs = batch_pack b" using * by auto
  let ?n = "length (rb_receipts b)"
  let ?body = "concat (map receipt_pack (rb_receipts b))"
  have n: "as_u32 ?n = ?n" using wf by (simp add: wf_batch_def as_u32_def U32_MAX_def)
  have len: "length ?body = ?n * receipt_packed_len C" using wf by (simp add: wf_batch_def length_receipts_pack)
  have "word_at bs 0 = Some (rb_server b)"
    using wf word_at_mid [of 0 "[]" "rb_server b"] by (simp add: bs batch_pack_def wf_batch_def)
  moreover have "slice_range bs 4 (4 + sig_len C) = Some (rb_sig b)"
    using wf by (simp add: bs batch_pack_def wf_batch_def slice_range_def)
  moreover have "word_at bs (4 + sig_len C) = Some ?n"
    using wf word_at_mid [of "4 + sig_len C" "le_bytes 4 (rb_server b) @ rb_sig b" ?n ?body]
    by (simp add: bs batch_pack_def wf_batch_def n)
  moreover have lbs: "length bs = ?at + length ?body" using wf by (simp add: bs batch_pack_def wf_batch_def)
  moreover have "unpack_receipts C bs ?n ?at = Some (rb_receipts b, length bs)"
    using wf lbs by (subst unpack_receipts_iff) (simp_all add: bs batch_pack_def wf_batch_def len [symmetric])
  ultimately show "batch_unpack C bs = Some b"
    by (simp add: batch_unpack_def Let_def len receipt_packed_len_def)
qed



section \<open>Fragments and relays\<close>

text \<open>What the share codec of the panetiere crate promises.\<close>

definition share_codec_ok :: "('p, 'q, 'o, 'z) set_codecs_scheme \<Rightarrow> bool" where
  "share_codec_ok C \<longleftrightarrow> 0 < poly_packed_len C \<and>
     (\<forall>ps. length (pack_share C ps) = length ps * poly_packed_len C \<and>
           unpack_share C (pack_share C ps) (length ps) = Some ps)"

definition wf_fragment :: "('p, 'q, 'o, 'z) set_codecs_scheme \<Rightarrow> 'p set_fragment \<Rightarrow> bool" where
  "wf_fragment C f \<longleftrightarrow> f_client f < 256 ^ 4 \<and> f_idx f < 256 ^ 4 \<and> length (f_data f) < 256 ^ 4 \<and>
     length (f_sig f) = sig_len C"

lemma as_u32_below: "n < 256 ^ 4 \<Longrightarrow> as_u32 n = n"
  by (simp add: as_u32_def U32_MAX_def)

lemma fragment_unpack_pack:
  assumes "share_codec_ok C" "wf_fragment C f"
  shows "fragment_unpack C (fragment_pack C f) = Some f"
proof -
  let ?bs = "fragment_pack C f" and ?n = "length (f_data f)"
  have share: "length (pack_share C (f_data f)) = ?n * poly_packed_len C"
    "unpack_share C (pack_share C (f_data f)) ?n = Some (f_data f)" "0 < poly_packed_len C"
    using assms(1) by (simp_all add: share_codec_ok_def)
  have wf: "f_client f < 256 ^ 4" "f_idx f < 256 ^ 4" "?n < 256 ^ 4" "length (f_sig f) = sig_len C"
    using assms(2) by (auto simp: wf_fragment_def)
  have u32: "as_u32 (f_idx f) = f_idx f" "as_u32 ?n = ?n" using wf by (simp_all add: as_u32_below)
  have bs: "?bs = le_bytes 4 (f_client f) @ le_bytes 4 (f_idx f) @ le_bytes 4 ?n @ pack_share C (f_data f) @ f_sig f"
    by (simp add: fragment_pack_def u32)
  have "word_at ?bs 0 = Some (f_client f)" "word_at ?bs 4 = Some (f_idx f)" "word_at ?bs 8 = Some ?n"
    using wf by (simp_all add: bs word_at_iff)
  moreover have "length ?bs = 12 + ?n * poly_packed_len C + sig_len C" by (simp add: bs share wf)
  moreover have "slice_range ?bs 12 (12 + ?n * poly_packed_len C) = Some (pack_share C (f_data f))"
    using share(1) by (simp add: bs slice_range_def)
  moreover have "slice_range ?bs (12 + ?n * poly_packed_len C) (12 + ?n * poly_packed_len C + sig_len C) = Some (f_sig f)"
    using share(1) wf(4) by (simp add: bs slice_range_def)
  moreover have "?n \<le> (?n * poly_packed_len C + sig_len C) div poly_packed_len C"
    using share(3) by (simp add: less_eq_div_iff_mult_less_eq)
  ultimately show ?thesis by (simp add: fragment_unpack_def Let_def share(2))
qed

definition wf_relay :: "('p, 'q, 'o, 'z) set_codecs_scheme \<Rightarrow> 'p relay_msg \<Rightarrow> bool" where
  "wf_relay C r \<longleftrightarrow>
     (case item r of
        ItemBatch b \<Rightarrow> wf_batch C b \<and> length (batch_pack b) < 256 ^ 4
      | ItemFragment f \<Rightarrow> wf_fragment C f \<and> length (fragment_pack C f) < 256 ^ 4) \<and>
     length (chain r) < 256 ^ 4 \<and> list_all (\<lambda>(s, sg). s < 256 ^ 4 \<and> length sg = sig_len C) (chain r)"

lemma unpack_chain_pack:
  assumes "list_all (\<lambda>(s, sg). s < 256 ^ 4 \<and> length sg = sig_len C) ch"
  shows "unpack_chain C (pre @ concat (map (\<lambda>(s, sg). le_bytes 4 s @ sg) ch)) (length ch) (length pre) =
    Some (ch, length pre + length ch * CHAIN_ENTRY C)"
  using assms
proof (induction ch arbitrary: pre)
  case (Cons e ch)
  obtain s sg where e: "e = (s, sg)" by (cases e)
  let ?rest = "concat (map (\<lambda>(s, sg). le_bytes 4 s @ sg) ch)"
  have wf: "s < 256 ^ 4" "length sg = sig_len C" using Cons.prems by (simp_all add: e)
  have "unpack_chain C ((pre @ le_bytes 4 s @ sg) @ ?rest) (length ch) (length (pre @ le_bytes 4 s @ sg)) =
      Some (ch, length (pre @ le_bytes 4 s @ sg) + length ch * CHAIN_ENTRY C)"
    using Cons.prems by (intro Cons.IH) simp
  then have rest: "unpack_chain C (pre @ le_bytes 4 s @ sg @ ?rest) (length ch) (length pre + CHAIN_ENTRY C) =
      Some (ch, length pre + CHAIN_ENTRY C + length ch * CHAIN_ENTRY C)"
    using wf by (simp add: CHAIN_ENTRY_def)
  have "word_at (pre @ le_bytes 4 s @ sg @ ?rest) (length pre) = Some s" using wf(1) by (simp add: word_at_mid)
  then show ?case
    using wf rest by (simp add: e slice_range_def CHAIN_ENTRY_def)
qed simp

lemma length_chain_pack:
  "list_all (\<lambda>(s, sg). s < 256 ^ 4 \<and> length sg = sig_len C) ch \<Longrightarrow>
   length (concat (map (\<lambda>(s, sg). le_bytes 4 s @ sg) ch)) = length ch * CHAIN_ENTRY C"
  by (induction ch) (auto simp: CHAIN_ENTRY_def)

lemma relay_unpack_framed:
  assumes "length it < 256 ^ 4" "length ch < 256 ^ 4"
    and "list_all (\<lambda>(s, sg). s < 256 ^ 4 \<and> length sg = sig_len C) ch"
    and "(if tag = 0 then map_option ItemBatch (batch_unpack C it)
          else if tag = 1 then map_option ItemFragment (fragment_unpack C it) else None) = Some i"
  shows "relay_unpack C ([tag] @ le_bytes 4 (as_u32 (length it)) @ it @ le_bytes 4 (as_u32 (length ch)) @
      concat (map (\<lambda>(s, sg). le_bytes 4 s @ sg) ch)) = Some \<lparr>item = i, chain = ch\<rparr>"
proof -
  let ?pre = "[tag] @ le_bytes 4 (length it) @ it @ le_bytes 4 (length ch)"
  let ?tail = "concat (map (\<lambda>(s, sg). le_bytes 4 s @ sg) ch)"
  let ?bs = "?pre @ ?tail"
  have chain: "unpack_chain C ?bs (length ch) (length ?pre) = Some (ch, length ?pre + length ch * CHAIN_ENTRY C)"
    by (rule unpack_chain_pack) (rule assms(3))
  have len: "length ?bs = length ?pre + length ch * CHAIN_ENTRY C" using length_chain_pack [OF assms(3)] by simp
  have pre: "length ?pre = 9 + length it" by simp
  have "slice_get ?bs 0 = Some tag" by (simp add: slice_get_def)
  moreover have "word_at ?bs 1 = Some (length it)" using assms(1) by (simp add: word_at_iff)
  moreover have "slice_range ?bs 5 (5 + length it) = Some it" by (simp add: slice_range_def)
  moreover have "word_at ?bs (5 + length it) = Some (length ch)"
    using assms(2) word_at_mid [of "5 + length it" "[tag] @ le_bytes 4 (length it) @ it" "length ch" ?tail] by simp
  moreover have "length ch \<le> (length ?bs - (9 + length it)) div CHAIN_ENTRY C"
    using len pre by (simp add: less_eq_div_iff_mult_less_eq CHAIN_ENTRY_def)
  ultimately have "relay_unpack C ?bs = Some \<lparr>item = i, chain = ch\<rparr>"
    using chain len assms(4) by (simp add: relay_unpack_def Let_def pre)
  then show ?thesis using assms(1,2) by (simp add: as_u32_below)
qed

lemma relay_unpack_pack:
  assumes "share_codec_ok C" "wf_relay C r"
  shows "relay_unpack C (relay_pack C r) = Some r"
proof (cases r)
  case r: (fields i ch)
  show ?thesis
  proof (cases i)
    case (ItemBatch b)
    then have "batch_unpack C (batch_pack b) = Some b" using assms(2) by (simp add: r wf_relay_def batch_unpack_iff)
    then show ?thesis
      using assms(2) relay_unpack_framed [of "batch_pack b" ch C 0 i]
      by (simp add: wf_relay_def relay_pack_def r ItemBatch)
  next
    case (ItemFragment f)
    then have "fragment_unpack C (fragment_pack C f) = Some f"
      using assms by (simp add: r wf_relay_def fragment_unpack_pack)
    then show ?thesis
      using assms(2) relay_unpack_framed [of "fragment_pack C f" ch C 1 i]
      by (simp add: wf_relay_def relay_pack_def r ItemFragment)
  qed
qed


lemma length_batch_pack: "wf_batch C b \<Longrightarrow> length (batch_pack b) = batch_packed_len C (length (rb_receipts b))"
  by (simp add: batch_pack_def batch_packed_len_def wf_batch_def length_receipts_pack)

end
