(* ===== verification/Set_Repair.thy ===== *)
theory Set_Repair
  imports Set_Codecs
begin

text \<open>
  The repair path of client-set selection: the bundle codec, the blob codec and
  reconstruction. A client whose bundle some lanes never acknowledged codes those bundles
  into fragments; any server that holds enough of them rebuilds exactly the bundles the
  client made.
\<close>

section \<open>Bundles\<close>

text \<open>
  What a bundle looks like under a share-commitment geometry, and what the crate's path
  codec promises about its path.
\<close>

definition path_fits ::
    "('p, 'q, 'o, 'z) set_codecs_scheme \<Rightarrow> share_commitment_params \<Rightarrow> usize \<Rightarrow> 'q share_path \<Rightarrow> bool" where
  "path_fits C scp lane p \<longleftrightarrow>
     lane_index p = lane \<and>
     (case path_to_bytes C p of
        None \<Rightarrow> False
      | Some pb \<Rightarrow> length pb = path_packed_len C (n_lanes scp) \<and> path_from_bytes C scp lane pb = Some p)"

definition bundle_fits ::
    "('p, 'q, 'o, 'z) set_codecs_scheme \<Rightarrow> share_commitment_params \<Rightarrow> ('p, 'q) client_bundle \<Rightarrow> bool" where
  "bundle_fits C scp b \<longleftrightarrow>
     b_lane b < 256 ^ 4 \<and> length (b_share b) = block_len scp \<and> path_fits C scp (b_lane b) (b_path b) \<and>
     length (b_envelope b) < 256 ^ 4 \<and> length (b_pubkey b) = sig_pubkey_len C \<and> length (b_sig b) = sig_len C"

lemma bundle_unpack_pack:
  assumes "share_codec_ok C" "bundle_fits C scp b" "bundle_pack C b = Some bs"
  shows "bundle_unpack C scp (b_client b) (bs @ rest) = Some (b, length bs)"
    and "length bs = bundle_packed_len C scp (length (b_envelope b))"
proof -
  let ?S = "block_len scp * poly_packed_len C" and ?P = "path_packed_len C (n_lanes scp)"
  let ?E = "length (b_envelope b)"
  obtain pb where pb: "path_to_bytes C (b_path b) = Some pb" "length pb = ?P"
    "path_from_bytes C scp (b_lane b) pb = Some (b_path b)"
    using assms(2) by (auto simp: bundle_fits_def path_fits_def split: option.splits)
  have share: "length (pack_share C (b_share b)) = ?S"
    "unpack_share C (pack_share C (b_share b)) (block_len scp) = Some (b_share b)"
    using assms(1,2) unfolding share_codec_ok_def bundle_fits_def by metis+
  have fits: "b_lane b < 256 ^ 4" "?E < 256 ^ 4" "length (b_pubkey b) = sig_pubkey_len C" "length (b_sig b) = sig_len C"
    using assms(2) by (auto simp: bundle_fits_def)
  have bs: "bs = le_bytes 4 (b_lane b) @ pack_share C (b_share b) @ pb @ le_bytes 4 ?E @ b_envelope b @ b_pubkey b @ b_sig b"
    using assms(3) fits by (simp add: bundle_pack_def pb(1) as_u32_below)
  show len: "length bs = bundle_packed_len C scp ?E"
    using fits by (simp add: bs bundle_packed_len_def share(1) pb(2))
  have "word_at (bs @ rest) 0 = Some (b_lane b)"
    using fits(1) word_at_mid [of 0 "[]" "b_lane b"] by (simp add: bs)
  moreover have "slice_range (bs @ rest) 4 (4 + ?S) = Some (pack_share C (b_share b))"
    by (simp add: bs slice_range_def share(1))
  moreover have "slice_range (bs @ rest) (4 + ?S) (4 + ?S + ?P) = Some pb"
    by (simp add: bs slice_range_def share(1) pb(2))
  moreover have "word_at (bs @ rest) (4 + ?S + ?P) = Some ?E"
    using fits(2) word_at_mid [of "4 + ?S + ?P" "le_bytes 4 (b_lane b) @ pack_share C (b_share b) @ pb" ?E
        "b_envelope b @ b_pubkey b @ b_sig b @ rest"]
    by (simp add: bs share(1) pb(2))
  moreover have "slice_range (bs @ rest) (4 + ?S + ?P + 4) (4 + ?S + ?P + 4 + ?E) = Some (b_envelope b)"
    by (simp add: bs slice_range_def share(1) pb(2))
  moreover have "slice_range (bs @ rest) (4 + ?S + ?P + 4 + ?E) (4 + ?S + ?P + 4 + ?E + sig_pubkey_len C) = Some (b_pubkey b)"
    using fits(3) by (simp add: bs slice_range_def share(1) pb(2))
  moreover have "slice_range (bs @ rest) (4 + ?S + ?P + 4 + ?E + sig_pubkey_len C)
      (4 + ?S + ?P + 4 + ?E + sig_pubkey_len C + sig_len C) = Some (b_sig b)"
    using fits(3,4) by (simp add: bs slice_range_def share(1) pb(2))
  moreover have "length bs = 4 + ?S + ?P + 4 + ?E + sig_pubkey_len C + sig_len C"
    by (simp add: len bundle_packed_len_def)
  ultimately show "bundle_unpack C scp (b_client b) (bs @ rest) = Some (b, length bs)"
    by (simp add: bundle_unpack_def Let_def share(2) pb(3))
qed


section \<open>Blobs\<close>

text \<open>What the crate promises of polynomials in slot form: 40-bit slots are kept.\<close>

definition slots_ok :: "('p, 'q, 'o, 'z) set_codecs_scheme \<Rightarrow> bool" where
  "slots_ok C \<longleftrightarrow> 0 < poly_slots C \<and>
     (\<forall>xs. length xs = poly_slots C \<and> list_all (\<lambda>c. c < 2 ^ 40) xs \<longrightarrow>
        (\<exists>p. from_ntt_slots C xs = Some p \<and> ntt_slots C p = xs))"

lemma map_upt_blocks:
  "concat (map (\<lambda>p. map (\<lambda>i. f (p * n + i)) [0..<n]) [0..<m]) = map f [0..<m * n]"
proof (induction m)
  case (Suc m)
  have "[0..<Suc m * n] = [0..<m * n] @ map (\<lambda>i. m * n + i) [0..<n]"
    using upt_add_eq_append [of 0 "m * n" n] map_add_upt [of "m * n" n] by (simp add: add.commute)
  then show ?case by (simp add: Suc comp_def)
qed simp

lemma concat_chunks:
  "concat (map (\<lambda>i. take w (drop (i * w) xs)) [0..<m]) = take (m * w) xs"
proof (induction m)
  case (Suc m)
  have "Suc m * w = m * w + w" by simp
  then show ?case by (simp only: take_add) (simp add: Suc)
qed simp

lemma le_bytes_zero: "le_bytes w 0 = replicate w 0"
  by (induction w) simp_all

lemma le_bytes_pad:
  "length bs \<le> w \<Longrightarrow> le_bytes w (from_le_bytes bs) = bs @ replicate (w - length bs) 0"
proof (induction bs arbitrary: w)
  case (Cons b bs)
  then obtain w' where w: "w = Suc w'" "length bs \<le> w'" by (cases w) auto
  then show ?case using Cons.IH [of w'] unat_byte_less [of b] by simp
qed (simp add: le_bytes_zero)

lemma slot_bytes:
  fixes blob :: bytes
  assumes "Suc i * BYTES_PER_COEFF \<le> m"
  shows "take BYTES_PER_COEFF (le_bytes 8 (from_le_bytes (take BYTES_PER_COEFF (drop (i * BYTES_PER_COEFF) blob)))) =
    take BYTES_PER_COEFF (drop (i * BYTES_PER_COEFF) (blob @ replicate m 0))"
proof -
  let ?c = "take BYTES_PER_COEFF (drop (i * BYTES_PER_COEFF) blob)"
  have len: "length ?c \<le> 5" by (simp add: BYTES_PER_COEFF_def)
  then have "le_bytes 8 (from_le_bytes ?c) = ?c @ replicate (8 - length ?c) 0" by (intro le_bytes_pad) simp
  then show ?thesis using assms by (auto simp: BYTES_PER_COEFF_def min_def)
qed


lemma those_map_Some: "(\<And>x. x \<in> set xs \<Longrightarrow> f x = Some (g x)) \<Longrightarrow> those (map f xs) = Some (map g xs)"
  by (induction xs) simp_all

lemma blob_slots_small: "list_all (\<lambda>c. c < 2 ^ 40) (blob_slots n blob p)"
proof -
  have "from_le_bytes bs < 2 ^ 40" if "length bs \<le> 5" for bs
  proof -
    have "(256 :: nat) ^ length bs \<le> 256 ^ 5" using that by (intro power_increasing) simp_all
    then show ?thesis using from_le_bytes_bound [of bs] by simp
  qed
  then show ?thesis by (simp add: blob_slots_def list_all_iff BYTES_PER_COEFF_def)
qed

text \<open>The bytes of a polynomial, as \<open>polys_to_blob\<close> writes them.\<close>

definition poly_bytes :: "('p, 'q, 'o, 'z) set_codecs_scheme \<Rightarrow> 'p \<Rightarrow> bytes" where
  "poly_bytes C p = concat (map (\<lambda>c. take BYTES_PER_COEFF (le_bytes 8 c)) (ntt_slots C p))"

lemma polys_to_blob_bytes: "polys_to_blob C polys n = take n (concat (map (poly_bytes C) polys))"
  by (simp add: polys_to_blob_def poly_bytes_def [abs_def])

lemma concat_concat_map: "concat (concat (map g xs)) = concat (map (concat \<circ> g) xs)"
  by (induction xs) simp_all

lemma blob_to_polys_bytes:
  assumes "slots_ok C"
  obtains polys where "blob_to_polys C blob = Some polys" "polys \<noteq> []"
    "take (length blob) (concat (map (poly_bytes C) polys)) = blob"
    "length (concat (map (poly_bytes C) polys)) = length polys * (poly_slots C * BYTES_PER_COEFF)"
proof -
  define n where "n = poly_slots C"
  define coeffs where "coeffs = max (div_ceil (length blob) BYTES_PER_COEFF) 1"
  define m where "m = div_ceil coeffs n"
  have n: "0 < n" using assms by (simp add: slots_ok_def n_def)
  have "\<forall>p. \<exists>q. from_ntt_slots C (blob_slots n blob p) = Some q \<and> ntt_slots C q = blob_slots n blob p"
    using assms blob_slots_small [of n blob] by (auto simp: slots_ok_def n_def blob_slots_def)
  then obtain q where q: "\<And>p. from_ntt_slots C (blob_slots n blob p) = Some (q p)"
    "\<And>p. ntt_slots C (q p) = blob_slots n blob p" by metis
  have polys: "blob_to_polys C blob = Some (map q [0..<m])"
    unfolding blob_to_polys_def Let_def
    by (subst those_map_Some [of _ _ q]) (simp_all add: q m_def coeffs_def flip: n_def)
  have "0 < m" using n by (simp add: m_def coeffs_def div_ceil_pos)
  let ?z = "blob @ replicate (m * n * BYTES_PER_COEFF) 0"
  have bytes: "concat (map (poly_bytes C) (map q [0..<m])) = take (m * n * BYTES_PER_COEFF) ?z"
  proof -
    let ?f = "\<lambda>i. take BYTES_PER_COEFF (le_bytes 8 (from_le_bytes (take BYTES_PER_COEFF (drop (i * BYTES_PER_COEFF) blob))))"
    have "concat (map (poly_bytes C) (map q [0..<m])) =
        concat (concat (map (\<lambda>p. map (\<lambda>i. ?f (p * n + i)) [0..<n]) [0..<m]))"
      unfolding concat_concat_map by (simp add: poly_bytes_def [abs_def] q(2) blob_slots_def comp_def)
    also have "\<dots> = concat (map ?f [0..<m * n])" by (rule arg_cong [OF map_upt_blocks])
    also have "map ?f [0..<m * n] = map (\<lambda>i. take BYTES_PER_COEFF (drop (i * BYTES_PER_COEFF) ?z)) [0..<m * n]"
    proof (rule map_cong [OF refl])
      fix i assume "i \<in> set [0..<m * n]"
      then have "Suc i * BYTES_PER_COEFF \<le> m * n * BYTES_PER_COEFF" by (intro mult_le_mono1) simp
      then show "?f i = take BYTES_PER_COEFF (drop (i * BYTES_PER_COEFF) ?z)" by (rule slot_bytes)
    qed
    finally show ?thesis by (simp only: concat_chunks)
  qed
  have "length blob \<le> div_ceil (length blob) BYTES_PER_COEFF * BYTES_PER_COEFF"
    by (rule div_ceil_mult_ge) (simp add: BYTES_PER_COEFF_def)
  also have "\<dots> \<le> coeffs * BYTES_PER_COEFF" by (simp add: coeffs_def)
  also have "\<dots> \<le> m * n * BYTES_PER_COEFF"
    using div_ceil_mult_ge [OF n, of coeffs] by (simp add: m_def)
  finally have len: "length blob \<le> m * n * BYTES_PER_COEFF" .
  show thesis
  proof (rule that [OF polys])
    show "map q [0..<m] \<noteq> []" using \<open>0 < m\<close> by simp
    show "take (length blob) (concat (map (poly_bytes C) (map q [0..<m]))) = blob"
      unfolding bytes using len by simp
    show "length (concat (map (poly_bytes C) (map q [0..<m]))) =
        length (map q [0..<m]) * (poly_slots C * BYTES_PER_COEFF)"
      unfolding bytes by (simp flip: n_def)
  qed
qed



section \<open>Repair\<close>

text \<open>
  Documented behaviour of the crate's erasure code: one share per lane, and any \<open>k\<close> shares
  of distinct lanes give back the polynomials, followed by padding.
\<close>

definition rs_ok :: "('p, 'q, 'o, 'z) set_codecs_scheme \<Rightarrow> bool" where
  "rs_ok C \<longleftrightarrow>
     (\<forall>fp polys. length (rs_encode C fp polys) = rs_n fp) \<and>
     (\<forall>fp polys samples. 0 < rs_k fp \<and> length samples = rs_k fp \<and> distinct (map fst samples) \<and>
        list_all (\<lambda>(i, dat). i < rs_n fp \<and> dat = rs_encode C fp polys ! i) samples \<longrightarrow>
        (\<exists>extra. rs_reconstruct C fp (rs_k fp * length (snd (hd samples))) samples = Some (polys @ extra)))"

text \<open>A signature by a key verifies under its public half, and both have their fixed lengths.\<close>

definition set_signing_ok :: "('p, 'q, 'o, 'z) set_codecs_scheme \<Rightarrow> bool" where
  "set_signing_ok C \<longleftrightarrow>
     (\<forall>sk. sig_key_valid C (sig_public C sk) \<and> length (sig_public C sk) = sig_pubkey_len C) \<and>
     (\<forall>sk msg. sig_verify C (sig_public C sk) msg (sig_sign C sk msg) \<and> length (sig_sign C sk msg) = sig_len C)"

lemma unpack_lanes_pack:
  assumes "share_codec_ok C" "list_all2 (\<lambda>l b. b_lane b = l \<and> b_client b = cid \<and> b_pubkey b = pk \<and>
      bundle_fits C scp b \<and> bundle_verify C sid n b) ls bs"
    and "list_all2 (\<lambda>b piece. bundle_pack C b = Some piece) bs pieces"
  shows "unpack_lanes C scp sid n cid pk (pre @ concat pieces @ pad) ls (length pre) = Some bs"
  using assms(2,3)
proof (induction ls bs arbitrary: pre pieces rule: list_all2_induct)
  case (Cons l ls b bs)
  from Cons.prems obtain piece pieces' where p: "pieces = piece # pieces'" "bundle_pack C b = Some piece"
    "list_all2 (\<lambda>b piece. bundle_pack C b = Some piece) bs pieces'"
    by (auto simp: list_all2_Cons1)
  have "unpack_lanes C scp sid n cid pk ((pre @ piece) @ concat pieces' @ pad) ls (length (pre @ piece)) = Some bs"
    using p(3) by (rule Cons.IH)
  moreover have "bundle_unpack C scp cid (piece @ concat pieces' @ pad) = Some (b, length piece)"
    using bundle_unpack_pack(1) [OF assms(1) _ p(2)] Cons.hyps(1) by auto
  moreover have "slice_range (pre @ concat pieces @ pad) (length pre) (length (pre @ concat pieces @ pad)) =
      Some (piece @ concat pieces' @ pad)" by (simp add: slice_range_def p(1))
  ultimately show ?case using Cons.hyps(1) by (simp add: p(1))
qed (simp add: list_all2_Nil)

lemma round_bundle_lane: "round_bundle C sid out sk l = Some b \<Longrightarrow> b_lane b = l"
  by (auto simp: round_bundle_def split: bind_splits)

lemma round_bundle_ok:
  assumes "set_signing_ok C" "round_bundle C sid out sk l = Some b" "l < n"
    and "path_fits C scp l (b_path b)"
  shows "b_lane b = l \<and> b_client b = ro_client out \<and> b_pubkey b = sig_public C sk \<and> bundle_verify C sid n b"
proof -
  from assms(2) obtain share path env where
    b: "b = \<lparr>b_client = ro_client out, b_lane = l, b_share = share, b_path = path, b_envelope = env,
        b_pubkey = sig_public C sk,
        b_sig = sig_sign C sk (bundle_signing_bytes C sid (ro_client out) l share path env)\<rparr>"
    by (auto simp: round_bundle_def split: bind_splits)
  show ?thesis
    using assms(1,3,4) by (simp add: b bundle_verify_def set_signing_ok_def path_fits_def)
qed

lemma those_Some_nth:
  "those xs = Some ys \<Longrightarrow> length ys = length xs \<and> (\<forall>i < length xs. xs ! i = Some (ys ! i))"
proof (induction xs arbitrary: ys)
  case (Cons x xs)
  then obtain y ys' where "x = Some y" "those xs = Some ys'" "ys = y # ys'" by (auto split: option.splits)
  with Cons.IH [of ys'] show ?case by (auto simp: nth_Cons split: nat.splits)
qed simp

lemma enumerate_nth: "i < length xs \<Longrightarrow> List.enumerate 0 xs ! i = (i, xs ! i)"
  by (simp add: nth_enumerate_eq)

text \<open>The fragments a server kept, when they are those the client built.\<close>

lemma kept_samples:
  assumes "\<And>i f. fmlookup m i = Some f \<Longrightarrow> i < length frs \<and> f = frs ! i" "k \<le> fm_size m"
    and "frs = map (signed_fragment C sid cid sk) (List.enumerate 0 ds)"
  shows "length (take k (map (\<lambda>f. (f_idx f, f_data f)) (fm_values m))) = k \<and>
    distinct (map fst (take k (map (\<lambda>f. (f_idx f, f_data f)) (fm_values m)))) \<and>
    list_all (\<lambda>(i, dat). i < length ds \<and> dat = ds ! i) (take k (map (\<lambda>f. (f_idx f, f_data f)) (fm_values m)))"
proof -
  let ?vs = "map (\<lambda>f. (f_idx f, f_data f)) (fm_values m)"
  have vs: "?vs = map (\<lambda>i. (i, ds ! i)) (fm_keys m)"
    unfolding fm_values_def map_map
  proof (rule map_cong [OF refl])
    fix i assume "i \<in> set (fm_keys m)"
    then obtain f where f: "fmlookup m i = Some f" by (auto simp: fmlookup_dom'_iff)
    from assms(1) [OF f] assms(3) have "i < length ds" "f = signed_fragment C sid cid sk (i, ds ! i)"
      by (auto simp: enumerate_nth)
    then show "((\<lambda>f. (f_idx f, f_data f)) \<circ> (\<lambda>k. the (fmlookup m k))) i = (i, ds ! i)"
      by (simp add: f signed_fragment_def)
  qed
  have "i < length ds" if "i \<in> set (fm_keys m)" for i
    using that assms(1,3) by (auto simp: fmlookup_dom'_iff)
  then have "list_all (\<lambda>(i, dat). i < length ds \<and> dat = ds ! i) ?vs" unfolding vs by (auto simp: list_all_iff)
  moreover have "map fst ?vs = fm_keys m" unfolding vs by (simp add: comp_def)
  moreover have "length ?vs = fm_size m" unfolding vs by (simp add: length_fm_keys)
  ultimately show ?thesis
    using assms(2) by (auto simp: list_all_iff take_map dest: in_set_takeD)
       (metis distinct_fm_keys distinct_take take_map)
qed


lemma build_fragments_inv:
  assumes "build_fragments C pp sid cr covered sk = Some frs" "frs \<noteq> []"
    and "code pp = Some rs" "slots_ok C"
  obtains pieces polys where
    "rs_n rs - rs_k rs \<le> length covered"
    "those (map (pack_lane C cr) (missing_lanes (rs_n rs) covered)) = Some pieces"
    "take (length (concat pieces)) (concat (map (poly_bytes C) polys)) = concat pieces"
    "length (concat (map (poly_bytes C) polys)) = length polys * (poly_slots C * BYTES_PER_COEFF)"
    "frs = map (signed_fragment C sid (csr_client cr) sk) (List.enumerate 0
       (rs_encode C \<lparr>rs_k = rs_n rs - rs_k rs, rs_n = rs_n rs\<rparr> polys))"
proof -
  have fp: "fragment_params pp = Some \<lparr>rs_k = rs_n rs - rs_k rs, rs_n = rs_n rs\<rparr>"
    using assms(3) by (simp add: fragment_params_def)
  from assms(1,2) obtain pieces polys where
    p: "those (map (pack_lane C cr) (missing_lanes (rs_n rs) covered)) = Some pieces"
      "blob_to_polys C (concat pieces) = Some polys" "rs_n rs - rs_k rs \<le> length covered"
      "frs = map (signed_fragment C sid (csr_client cr) sk) (List.enumerate 0
         (rs_encode C \<lparr>rs_k = rs_n rs - rs_k rs, rs_n = rs_n rs\<rparr> polys))"
    by (auto simp: build_fragments_def assms(3) fp Let_def split: bind_splits if_splits)
  obtain polys' where "blob_to_polys C (concat pieces) = Some polys'"
    "take (length (concat pieces)) (concat (map (poly_bytes C) polys')) = concat pieces"
    "length (concat (map (poly_bytes C) polys')) = length polys' * (poly_slots C * BYTES_PER_COEFF)"
    using blob_to_polys_bytes [OF assms(4), of "concat pieces"] by metis
  with p show thesis using that [of pieces polys] by simp
qed

lemma blob_prefix:
  assumes "take (length bs) (concat (map (poly_bytes C) polys)) = bs"
    and "length (concat (map (poly_bytes C) polys)) = length polys * (poly_slots C * BYTES_PER_COEFF)"
  shows "\<exists>pad. polys_to_blob C (polys @ extra) (length (polys @ extra) * poly_slots C * BYTES_PER_COEFF) = bs @ pad"
proof -
  let ?b = "concat (map (poly_bytes C) polys)" and ?n = "length (polys @ extra) * poly_slots C * BYTES_PER_COEFF"
  have "length ?b \<le> ?n" using assms(2) by (simp add: algebra_simps)
  then have "polys_to_blob C (polys @ extra) ?n = ?b @ take (?n - length ?b) (concat (map (poly_bytes C) extra))"
    by (simp add: polys_to_blob_bytes)
  moreover have "?b = bs @ drop (length bs) ?b" by (metis append_take_drop_id assms(1))
  ultimately show ?thesis by (metis append_assoc)
qed

lemma client_round_bundle:
  assumes "client_set_round_from_rs C pp sid out sk = Some cr" "code pp = Some rs" "l < rs_n rs"
  shows "csr_client cr = ro_client out \<and> length (csr_bundles cr) = rs_n rs \<and>
    round_bundle C sid out sk l = Some (csr_bundles cr ! l)"
proof -
  from assms(1,2) obtain bs where bs: "those (map (round_bundle C sid out sk) [0..<rs_n rs]) = Some bs"
    "cr = \<lparr>csr_client = ro_client out, csr_bundles = bs\<rparr>"
    by (auto simp: client_set_round_from_rs_def split: bind_splits if_splits)
  then show ?thesis using those_Some_nth [OF bs(1)] assms(3) by simp
qed

text \<open>
  C20. Repair restores what the client sent: when some lanes did not acknowledge a client's
  bundle, the client builds its fragments for them, and a server that kept at least as many
  of these fragments as the code needs rebuilds exactly the client's bundles for the missing
  lanes, whichever fragments it kept.
\<close>

theorem repair_restores_bundles:
  assumes "share_codec_ok C" "slots_ok C" "rs_ok C" "set_signing_ok C"
    and "code pp = Some rs" "rs_k rs < rs_n rs" "share_comm pp = Some scp"
    and "client_set_round_from_rs C pp sid out sk = Some cr"
    and "list_all (bundle_fits C scp) (csr_bundles cr)"
    and "build_fragments C pp sid cr covered sk = Some frs" "frs \<noteq> []"
    and "ss_n_lanes s = rs_n rs" "ss_k s = rs_k rs"
    and "fmlookup (ss_fragments s) (ro_client out) = Some m" "rs_n rs - rs_k rs \<le> fm_size m"
    and "\<And>i f. fmlookup m i = Some f \<Longrightarrow> i < length frs \<and> f = frs ! i"
  shows "rebuild C pp sid (ro_client out) (sig_public C sk) covered (missing_lanes (rs_n rs) covered) s =
    Some (Some (map ((!) (csr_bundles cr)) (missing_lanes (rs_n rs) covered)))"
proof -
  let ?missing = "missing_lanes (rs_n rs) covered" and ?fp = "\<lparr>rs_k = rs_n rs - rs_k rs, rs_n = rs_n rs\<rparr>"
  let ?bs = "map ((!) (csr_bundles cr)) ?missing"
  obtain pieces polys where p: "rs_n rs - rs_k rs \<le> length covered"
    "those (map (pack_lane C cr) ?missing) = Some pieces"
    "take (length (concat pieces)) (concat (map (poly_bytes C) polys)) = concat pieces"
    "length (concat (map (poly_bytes C) polys)) = length polys * (poly_slots C * BYTES_PER_COEFF)"
    "frs = map (signed_fragment C sid (csr_client cr) sk) (List.enumerate 0 (rs_encode C ?fp polys))"
    by (rule build_fragments_inv [OF assms(10,11,5,2)])
  define samples where "samples = take (rs_k ?fp) (map (\<lambda>f. (f_idx f, f_data f)) (fm_values m))"
  have enc: "length (rs_encode C ?fp polys) = rs_n rs" using assms(3) by (simp add: rs_ok_def)
  have samples: "length samples = rs_k ?fp" "distinct (map fst samples)"
    "list_all (\<lambda>(i, dat). i < rs_n ?fp \<and> dat = rs_encode C ?fp polys ! i) samples"
    using kept_samples [OF assms(16) assms(15) p(5)] by (simp_all add: samples_def enc)
  have "0 < rs_k ?fp" using assms(6) by simp
  obtain extra where extra:
    "rs_reconstruct C ?fp (rs_k ?fp * length (snd (hd samples))) samples = Some (polys @ extra)"
    using assms(3) samples \<open>0 < rs_k ?fp\<close> unfolding rs_ok_def by blast
  have lanes: "list_all2 (\<lambda>l b. b_lane b = l \<and> b_client b = ro_client out \<and> b_pubkey b = sig_public C sk \<and>
      bundle_fits C scp b \<and> bundle_verify C sid (rs_n rs) b) ?missing ?bs"
    unfolding list_all2_map2 list_all2_same
  proof
    fix l assume "l \<in> set ?missing"
    then have l: "l < rs_n rs" by (simp add: missing_lanes_def)
    note b = client_round_bundle [OF assms(8,5) l]
    have fits: "bundle_fits C scp (csr_bundles cr ! l)" using assms(9) b l by (simp add: list_all_iff)
    have lane: "b_lane (csr_bundles cr ! l) = l" using b round_bundle_lane by blast
    show "b_lane (csr_bundles cr ! l) = l \<and> b_client (csr_bundles cr ! l) = ro_client out \<and>
        b_pubkey (csr_bundles cr ! l) = sig_public C sk \<and>
        bundle_fits C scp (csr_bundles cr ! l) \<and> bundle_verify C sid (rs_n rs) (csr_bundles cr ! l)"
      using round_bundle_ok [OF assms(4) _ l, of sid out sk "csr_bundles cr ! l" scp] b fits lane
      by (simp add: bundle_fits_def)
  qed
  have packed: "list_all2 (\<lambda>b piece. bundle_pack C b = Some piece) ?bs pieces"
    unfolding list_all2_conv_all_nth
  proof (intro conjI allI impI)
    show "length ?bs = length pieces" using those_Some_nth [OF p(2)] by simp
    fix i assume i: "i < length ?bs"
    then have "?missing ! i \<in> set ?missing" by simp
    then have "?missing ! i < rs_n rs" by (simp add: missing_lanes_def)
    moreover have "pack_lane C cr (?missing ! i) = Some (pieces ! i)"
      using those_Some_nth [OF p(2)] i by simp
    ultimately show "bundle_pack C (?bs ! i) = Some (pieces ! i)"
      using i client_round_bundle [OF assms(8,5), of "?missing ! i"]
      by (simp add: pack_lane_def slice_get_def)
  qed
  let ?blob = "polys_to_blob C (polys @ extra) (length (polys @ extra) * poly_slots C * BYTES_PER_COEFF)"
  obtain pad where blob: "?blob = concat pieces @ pad"
    using blob_prefix [OF p(3,4)] by blast
  have "unpack_lanes C scp sid (rs_n rs) (ro_client out) (sig_public C sk) ?blob ?missing 0 = Some ?bs"
    unfolding blob using unpack_lanes_pack [OF assms(1) lanes packed, of "[]" pad] by simp
  moreover have "slice_get samples 0 = Some (hd samples)"
    using samples(1) assms(6) by (cases samples) (simp_all add: slice_get_def)
  moreover have "take (rs_n rs - rs_k rs) (map (\<lambda>f. (f_idx f, f_data f)) (fm_values m)) = samples"
    by (simp add: samples_def)
  ultimately show ?thesis
    using p(1) assms(6,7,12-15) extra
    by (simp add: rebuild_def rebuild_from_def fragment_params_def assms(5) Let_def case_prod_beta)
qed


lemma demo_unpack_pack: "demo_unpack (length ps) (concat (map (le_bytes 5 \<circ> unat) ps)) = ps"
proof (induction ps)
  case (Cons p ps)
  have "unat p < 256 ^ 5" using unsigned_less [of p] by simp
  then show ?case using Cons by (simp add: from_le_bytes_le_bytes comp_def del: power_numeral)
qed simp

lemma demo_share_codec_ok: "share_codec_ok demo_set_codecs"
proof -
  have "length (concat (map (le_bytes 5 \<circ> unat) ps)) = length ps * 5" for ps :: "40 word list"
    by (induction ps) simp_all
  then show ?thesis
    using demo_unpack_pack by (simp add: share_codec_ok_def demo_set_codecs_def crypto.defs)
qed

lemma demo_slots_ok: "slots_ok demo_set_codecs"
proof -
  have "unat (word_of_nat c :: 40 word) = c" if "c < 2 ^ 40" for c
    using that by (simp add: unat_of_nat)
  then show ?thesis by (auto simp: slots_ok_def demo_set_codecs_def crypto.defs length_Suc_conv)
qed

lemma demo_rs_ok: "rs_ok demo_set_codecs"
proof -
  have "snd (hd samples) = polys"
    if "0 < length samples" "list_all (\<lambda>(i, dat). i < n \<and> dat = replicate n polys ! i) samples"
    for samples :: "(nat \<times> 40 word list) list" and n polys
    using that by (cases samples) auto
  then have "\<exists>extra. snd (hd samples) = polys @ extra"
    if "0 < length samples" "list_all (\<lambda>(i, dat). i < n \<and> dat = replicate n polys ! i) samples"
    for samples :: "(nat \<times> 40 word list) list" and n polys
    using that by (intro exI [of _ "[]"]) simp
  note repeats = this
  show ?thesis
    unfolding rs_ok_def
  proof (intro conjI allI impI, goal_cases)
    case (2 fp polys samples)
    then show ?case
      using repeats [of samples "rs_n fp" polys] by (simp add: demo_set_codecs_def crypto.defs)
  qed (simp add: demo_set_codecs_def crypto.defs)
qed

lemma demo_set_signing_ok: "set_signing_ok demo_set_codecs"
  by (auto simp: set_signing_ok_def demo_set_codecs_def crypto.defs demo_sign_def)

text \<open>A client of three lanes, two of which acknowledged.\<close>

definition demo_round_output :: "(40 word, unit) rs_round_output" where
  "demo_round_output =
     \<lparr>ro_client = 7, rs_shares = [[10], [20], [30]],
      share_paths = [\<lparr>lane_index = 0, nodes = []\<rparr>, \<lparr>lane_index = 1, nodes = []\<rparr>, \<lparr>lane_index = 2, nodes = []\<rparr>],
      sealed_openings = [(0, [1]), (1, [2, 2]), (2, [3, 3, 3])]\<rparr>"

definition demo_client_round :: "(40 word, unit) client_set_round" where
  "demo_client_round = the (client_set_round_from_rs demo_set_codecs (demo_params 2 3) [9] demo_round_output [5])"

definition demo_fragments :: "40 word set_fragment list" where
  "demo_fragments = the (build_fragments demo_set_codecs (demo_params 2 3) [9] demo_client_round [0, 1] [5])"

definition demo_set_server :: "(40 word, unit) set_server" where
  "demo_set_server = (the (new_set_server (demo_params 2 3) 1 [1] [[0], [1], [2]]))
     \<lparr>ss_fragments := fmupd 7 (fmupd 1 (demo_fragments ! 1) fmempty) fmempty\<rparr>"

theorem repair_restores_bundles_witness:
  "rebuild demo_set_codecs (demo_params 2 3) [9] 7 [5] [0, 1] [2] demo_set_server =
     Some (Some [csr_bundles demo_client_round ! 2])"
proof -
  let ?C = demo_set_codecs and ?pp = "demo_params 2 3"
  have cr: "client_set_round_from_rs ?C ?pp [9] demo_round_output [5] = Some demo_client_round" by code_simp
  have fits: "list_all (bundle_fits ?C \<lparr>block_len = 1, n_lanes = 3\<rparr>) (csr_bundles demo_client_round)" by code_simp
  have "map_option length (build_fragments ?C ?pp [9] demo_client_round [0, 1] [5]) = Some 3" by code_simp
  then have frs: "build_fragments ?C ?pp [9] demo_client_round [0, 1] [5] = Some demo_fragments"
    and len: "length demo_fragments = 3" by (auto simp: demo_fragments_def)
  then have ne: "demo_fragments \<noteq> []" by auto
  have code: "code ?pp = Some \<lparr>rs_k = 2, rs_n = 3\<rparr>" "share_comm ?pp = Some \<lparr>block_len = 1, n_lanes = 3\<rparr>"
    by (simp_all add: demo_params_def code_def)
  have srv: "ss_n_lanes demo_set_server = 3" "ss_k demo_set_server = 2"
    "fmlookup (ss_fragments demo_set_server) (ro_client demo_round_output) =
       Some (fmupd 1 (demo_fragments ! 1) fmempty)"
    by (simp_all add: demo_set_server_def new_set_server_def code demo_round_output_def)
  have "rebuild ?C ?pp [9] (ro_client demo_round_output) (sig_public ?C [5]) [0, 1]
      (missing_lanes (rs_n \<lparr>rs_k = 2, rs_n = 3\<rparr>) [0, 1]) demo_set_server =
    Some (Some (map ((!) (csr_bundles demo_client_round)) (missing_lanes (rs_n \<lparr>rs_k = 2, rs_n = 3\<rparr>) [0, 1])))"
    by (rule repair_restores_bundles [OF demo_share_codec_ok demo_slots_ok demo_rs_ok demo_set_signing_ok
          code(1) _ code(2) cr fits frs ne _ _ srv(3)])
       (auto simp: srv len fm_size_def fcard.rep_eq split: if_splits)
  moreover have "missing_lanes 3 [0, 1] = [2]" by code_simp
  moreover have "sig_public ?C [5] = [5]" by (simp add: demo_set_codecs_def crypto.defs)
  ultimately show ?thesis by (simp add: demo_round_output_def)
qed



section \<open>Packed messages\<close>

text \<open>
  Client-set messages survive packing: the decoder of receipt batches accepts exactly the
  packed well-formed batches and nothing else, and every well-formed relay, batch or
  fragment with its signature chain, is read back as it was written.
\<close>

theorem set_messages_round_trip:
  assumes "share_codec_ok C"
  shows "(batch_unpack C bs = Some b \<longleftrightarrow> wf_batch C b \<and> bs = batch_pack b) \<and>
    (wf_relay C r \<longrightarrow> relay_unpack C (relay_pack C r) = Some r)"
  using relay_unpack_pack [OF assms] batch_unpack_iff by blast

definition demo_chained :: "40 word relay_msg" where
  "demo_chained = \<lparr>item = ItemFragment (demo_fragments ! 1), chain = [(1, demo_sign [1] []), (2, demo_sign [2] [])]\<rparr>"

theorem set_messages_round_trip_witness:
  "relay_unpack demo_set_codecs (relay_pack demo_set_codecs demo_chained) = Some demo_chained"
proof -
  have "wf_relay demo_set_codecs demo_chained" by code_simp
  then show ?thesis using set_messages_round_trip [OF demo_share_codec_ok] by blast
qed

end
