(* ===== verification/Relaying.thy ===== *)
theory Relaying
  imports Set_Repair
begin

text \<open>
  The Dolev-Strong rounds of client-set selection. \<open>relay_state\<close> is a synchronous run: every
  server opens the relay with \<open>originate\<close> and then absorbs, round after round, whatever the
  network delivers to it. The honest servers follow the code; what the others send is
  arbitrary, up to the signatures of honest servers. The run is one of servers that have a
  set when the client window closes; fragments submitted between two relay rounds and relays
  beyond the buffer of a session (\<open>on_set_relay\<close>) are not part of it.
\<close>

section \<open>Chains\<close>

definition chain_signers ::
    "('p, 'q, 'o, 'z) set_codecs_scheme \<Rightarrow> bytes list \<Rightarrow> bytes \<Rightarrow> (server_id \<times> bytes) list \<Rightarrow> server_id set" where
  "chain_signers C pks msg ch = {j. \<exists>sg. (j, sg) \<in> set ch \<and> j < length pks \<and> sig_verify C (pks ! j) msg sg}"

lemma chain_signers_Cons:
  "chain_signers C pks msg ((j, sg) # ch) =
     (if j < length pks \<and> sig_verify C (pks ! j) msg sg then {j} else {}) \<union> chain_signers C pks msg ch"
  by (auto simp: chain_signers_def)

lemma chain_seen_signers: "fset (chain_seen C pks msg ch seen) = fset seen \<union> chain_signers C pks msg ch"
proof (induction ch arbitrary: seen)
  case (Cons e ch)
  obtain j sg where "e = (j, sg)" by (cases e)
  then show ?case by (auto simp: Cons.IH chain_signers_Cons)
qed (simp add: chain_signers_def)

lemma chain_len_signers:
  "chain_len C sid h ch s = card (chain_signers C (ss_server_pks s) (relay_signing_bytes sid h) ch)"
  by (simp add: chain_len_def fcard.rep_eq chain_seen_signers)

lemma finite_chain_signers [simp]: "finite (chain_signers C pks msg ch)"
  by (rule finite_subset [of _ "{..<length pks}"]) (auto simp: chain_signers_def)

lemma chain_signers_extend:
  assumes "j < length pks" "sig_verify C (pks ! j) msg sg"
  shows "chain_signers C pks msg (filter (\<lambda>(i, _). i \<noteq> j) ch @ [(j, sg)]) = insert j (chain_signers C pks msg ch)"
  using assms by (auto simp: chain_signers_def)


section \<open>What a round keeps and adds\<close>

text \<open>A server's identity, which no operation changes.\<close>

definition same_identity :: "('p, 'q) set_server \<Rightarrow> ('p, 'q) set_server \<Rightarrow> bool" where
  "same_identity s s' \<longleftrightarrow>
     ss_server_id s' = ss_server_id s \<and> ss_n_lanes s' = ss_n_lanes s \<and> ss_k s' = ss_k s \<and>
     ss_signer s' = ss_signer s \<and> ss_server_pks s' = ss_server_pks s \<and>
     bulletins s' = bulletins s \<and> held s' = held s"

lemma same_identity_refl [simp]: "same_identity s s"
  by (simp add: same_identity_def)

lemma same_identity_trans: "same_identity s s' \<Longrightarrow> same_identity s' s'' \<Longrightarrow> same_identity s s''"
  by (simp add: same_identity_def)

lemma insert_fragment_frame:
  "same_identity s (fst (insert_fragment C sid f (s, fresh))) \<and>
   batches (fst (insert_fragment C sid f (s, fresh))) = batches s \<and>
   accepted s |\<subseteq>| accepted (fst (insert_fragment C sid f (s, fresh))) \<and>
   accepted (fst (insert_fragment C sid f (s, fresh))) |\<subseteq>| finsert (fragment_item_hash C sid f) (accepted s)"
  by (auto simp: insert_fragment_def same_identity_def Let_def)

lemma accept_item_frame:
  "same_identity s (accept_item C sid it s) \<and> accepted s |\<subseteq>| accepted (accept_item C sid it s) \<and>
   accepted (accept_item C sid it s) |\<subseteq>| finsert (item_hash C sid it) (accepted s)"
proof (cases it)
  case (ItemBatch b)
  then show ?thesis by (auto simp: accept_item_def accept_batch_def same_identity_def)
next
  case (ItemFragment f)
  then show ?thesis
    using insert_fragment_frame [of s C sid f "[]"] by (auto simp: accept_item_def accept_fragments_def)
qed

lemma accept_batch_item:
  "item_hash C sid (ItemBatch b) |\<notin>| accepted s \<Longrightarrow>
   item_hash C sid (ItemBatch b) |\<in>| accepted (accept_item C sid (ItemBatch b) s) \<longleftrightarrow>
   batch_verify C sid (ss_server_pks s) b"
  by (simp add: accept_item_def accept_batch_def)

lemma absorb_one_frame:
  "same_identity s (fst (absorb_one C sid rnd r s)) \<and> accepted s |\<subseteq>| accepted (fst (absorb_one C sid rnd r s))"
  using accept_item_frame [of s C sid "item r"] by (simp add: absorb_one_def Let_def)

lemma run_absorb_frame:
  "same_identity s (fst (run_ops (absorb_one C sid rnd) rs s)) \<and>
   accepted s |\<subseteq>| accepted (fst (run_ops (absorb_one C sid rnd) rs s))"
proof (induction rs arbitrary: s)
  case (Cons r rs)
  from Cons.IH [of "fst (absorb_one C sid rnd r s)"] absorb_one_frame [of s C sid rnd r]
  show ?case by (auto intro: same_identity_trans)
qed simp

lemma absorb_frame:
  "same_identity s (fst (absorb C sid rnd inc s))"
  "accepted s |\<subseteq>| accepted (fst (absorb C sid rnd inc s))"
  using run_absorb_frame [of s C sid rnd] by (simp_all add: absorb_def)

text \<open>
  A relay a server sends on when it accepts the item in round \<open>rnd\<close>: enough valid signers
  before, its own signature after.
\<close>

definition sent_on ::
    "('p, 'q, 'o, 'z) set_codecs_scheme \<Rightarrow> bytes \<Rightarrow> usize \<Rightarrow> ('p, 'q) set_server \<Rightarrow> 'p relay_msg \<Rightarrow> 'p relay_msg \<Rightarrow> bool" where
  "sent_on C sid rnd s r out \<longleftrightarrow>
     item out = item r \<and>
     rnd \<le> chain_len C sid (item_hash C sid (item r)) (chain r) s \<and>
     (\<forall>b. item r = ItemBatch b \<longrightarrow> batch_verify C sid (ss_server_pks s) b) \<and>
     chain out = filter (\<lambda>(i, _). i \<noteq> ss_server_id s) (chain r) @
       [(ss_server_id s, sig_sign C (ss_signer s) (relay_signing_bytes sid (item_hash C sid (item r))))]"

lemma sent_on_identity: "same_identity s s' \<Longrightarrow> sent_on C sid rnd s' r out \<longleftrightarrow> sent_on C sid rnd s r out"
  by (simp add: same_identity_def sent_on_def chain_len_def)

lemma absorb_one_accepts:
  assumes "h |\<notin>| accepted s" "h |\<in>| accepted (fst (absorb_one C sid rnd r s))"
  shows "item_hash C sid (item r) = h \<and> (\<exists>out \<in> set (snd (absorb_one C sid rnd r s)). sent_on C sid rnd s r out)"
proof -
  let ?h = "item_hash C sid (item r)" and ?s1 = "accept_item C sid (item r) s"
  have go: "\<not> (?h |\<in>| accepted s \<or> chain_len C sid ?h (chain r) s < rnd)"
    using assms by (auto simp: absorb_one_def)
  then have s': "fst (absorb_one C sid rnd r s) = ?s1" by (simp add: absorb_one_def Let_def)
  then have h: "?h = h" using assms accept_item_frame [of s C sid "item r"] by auto
  have "batch_verify C sid (ss_server_pks s) b" if "item r = ItemBatch b" for b
    using accept_batch_item [of C sid b s] assms s' h that by simp
  then have "sent_on C sid rnd s r \<lparr>item = item r,
      chain = filter (\<lambda>(i, _). i \<noteq> ss_server_id s) (chain r) @
        [(ss_server_id s, sig_sign C (ss_signer s) (relay_signing_bytes sid ?h))]\<rparr>"
    using go by (simp add: sent_on_def)
  moreover have "ss_server_id ?s1 = ss_server_id s" "ss_signer ?s1 = ss_signer s"
    using accept_item_frame [of s C sid "item r"] by (simp_all add: same_identity_def)
  moreover have "h |\<in>| accepted ?s1" using assms(2) by (simp only: s')
  ultimately show ?thesis using go h by (simp add: absorb_one_def Let_def)
qed

lemma run_absorb_accepts:
  assumes "h |\<notin>| accepted s" "h |\<in>| accepted (fst (run_ops (absorb_one C sid rnd) rs s))"
  shows "\<exists>r \<in> set rs. item_hash C sid (item r) = h \<and>
    (\<exists>out \<in> set (snd (run_ops (absorb_one C sid rnd) rs s)). sent_on C sid rnd s r out)"
  using assms
proof (induction rs arbitrary: s)
  case (Cons r rs)
  let ?s1 = "fst (absorb_one C sid rnd r s)"
  show ?case
  proof (cases "h |\<in>| accepted ?s1")
    case True
    from absorb_one_accepts [OF Cons.prems(1) True] show ?thesis by auto
  next
    case False
    then have "\<exists>r' \<in> set rs. item_hash C sid (item r') = h \<and>
        (\<exists>out \<in> set (snd (run_ops (absorb_one C sid rnd) rs ?s1)). sent_on C sid rnd ?s1 r' out)"
      using Cons.IH [of ?s1] Cons.prems(2) by simp
    then show ?thesis using sent_on_identity absorb_one_frame by (metis (no_types, lifting) Un_iff list.set_intros(2) run_ops_Cons(2) set_append)
  qed
qed simp

lemma absorb_accepts:
  assumes "h |\<notin>| accepted s" "h |\<in>| accepted (fst (absorb C sid rnd inc s))"
  shows "\<exists>r \<in> set inc. item_hash C sid (item r) = h \<and>
    (\<exists>out \<in> set (snd (absorb C sid rnd inc s)). sent_on C sid rnd s r out)"
  using run_absorb_accepts [OF assms(1), of C sid rnd] assms(2) unfolding absorb_def by fastforce

lemma absorb_one_takes:
  assumes "item r = ItemBatch b" "batch_verify C sid (ss_server_pks s) b"
    and "rnd \<le> chain_len C sid (item_hash C sid (item r)) (chain r) s"
  shows "item_hash C sid (item r) |\<in>| accepted (fst (absorb_one C sid rnd r s))"
  using assms accept_batch_item [of C sid b s] by (auto simp: absorb_one_def Let_def)

lemma run_absorb_takes:
  assumes "r \<in> set rs" "item r = ItemBatch b" "batch_verify C sid (ss_server_pks s) b"
    and "rnd \<le> chain_len C sid (item_hash C sid (item r)) (chain r) s"
  shows "item_hash C sid (item r) |\<in>| accepted (fst (run_ops (absorb_one C sid rnd) rs s))"
  using assms
proof (induction rs arbitrary: s)
  case (Cons r' rs)
  let ?s1 = "fst (absorb_one C sid rnd r' s)"
  have frame: "same_identity s ?s1" using absorb_one_frame by blast
  show ?case
  proof (cases "r = r'")
    case True
    then have "item_hash C sid (item r) |\<in>| accepted ?s1" using absorb_one_takes [OF Cons.prems(2-4)] by simp
    then show ?thesis using run_absorb_frame [of ?s1 C sid rnd rs] by auto
  next
    case False
    then show ?thesis
      using Cons.IH [of ?s1] Cons.prems frame by (simp add: same_identity_def chain_len_def)
  qed
qed simp

lemma absorb_takes:
  assumes "r \<in> set inc" "item r = ItemBatch b" "batch_verify C sid (ss_server_pks s) b"
    and "rnd \<le> chain_len C sid (item_hash C sid (item r)) (chain r) s"
  shows "item_hash C sid (item r) |\<in>| accepted (fst (absorb C sid rnd inc s))"
  unfolding absorb_def using assms by (intro run_absorb_takes) (auto simp: is_batch_def)



section \<open>Synchronous runs\<close>

text \<open>
  \<open>inc r i\<close> is what the network delivers to server \<open>i\<close> for round \<open>r\<close>, \<open>pre i\<close> its state when
  the client window closes. \<open>relay_state r i\<close> is its state after round \<open>r\<close> and \<open>relay_sent r i\<close>
  what it sent in it; round 0 is \<open>originate\<close>.
\<close>

primrec relay_state ::
    "('p, 'q, 'o, 'z) set_codecs_scheme \<Rightarrow> bytes \<Rightarrow> (nat \<Rightarrow> server_id \<Rightarrow> 'p relay_msg list) \<Rightarrow>
     (server_id \<Rightarrow> ('p, 'q) set_server) \<Rightarrow> nat \<Rightarrow> server_id \<Rightarrow> ('p, 'q) set_server" where
  "relay_state C sid inc pre 0 i = fst (originate C sid (pre i))"
| "relay_state C sid inc pre (Suc r) i =
     fst (absorb C sid (Suc r) (inc (Suc r) i) (relay_state C sid inc pre r i))"

primrec relay_sent ::
    "('p, 'q, 'o, 'z) set_codecs_scheme \<Rightarrow> bytes \<Rightarrow> (nat \<Rightarrow> server_id \<Rightarrow> 'p relay_msg list) \<Rightarrow>
     (server_id \<Rightarrow> ('p, 'q) set_server) \<Rightarrow> nat \<Rightarrow> server_id \<Rightarrow> 'p relay_msg list" where
  "relay_sent C sid inc pre 0 i = snd (originate C sid (pre i))"
| "relay_sent C sid inc pre (Suc r) i =
     snd (absorb C sid (Suc r) (inc (Suc r) i) (relay_state C sid inc pre r i))"

text \<open>
  The honest servers know the lanes' keys and their own; what one of them sends reaches the
  others in the next round; a chain signature of an honest server is only found on items
  that server accepted in an earlier round; and no fragment in the run has the hash \<open>h\<close>.
\<close>

definition honest_setup ::
    "('p, 'q, 'o, 'z) set_codecs_scheme \<Rightarrow> bytes list \<Rightarrow> (server_id \<Rightarrow> ('p, 'q) set_server) \<Rightarrow>
     server_id list \<Rightarrow> bool" where
  "honest_setup C pks pre honest \<longleftrightarrow> distinct honest \<and>
     list_all (\<lambda>i. i < length pks \<and> ss_server_id (pre i) = i \<and> ss_server_pks (pre i) = pks \<and>
       sig_public C (ss_signer (pre i)) = pks ! i) honest"

definition synchronous ::
    "('p, 'q, 'o, 'z) set_codecs_scheme \<Rightarrow> bytes \<Rightarrow> (nat \<Rightarrow> server_id \<Rightarrow> 'p relay_msg list) \<Rightarrow>
     (server_id \<Rightarrow> ('p, 'q) set_server) \<Rightarrow> server_id list \<Rightarrow> nat \<Rightarrow> bool" where
  "synchronous C sid inc pre honest rounds \<longleftrightarrow>
     list_all (\<lambda>r. list_all (\<lambda>i. list_all (\<lambda>j.
       i = j \<or> set (relay_sent C sid inc pre r i) \<subseteq> set (inc (Suc r) j)) honest) honest) [0..<rounds]"

definition unforged ::
    "('p, 'q, 'o, 'z) set_codecs_scheme \<Rightarrow> bytes list \<Rightarrow> bytes \<Rightarrow> (nat \<Rightarrow> server_id \<Rightarrow> 'p relay_msg list) \<Rightarrow>
     (server_id \<Rightarrow> ('p, 'q) set_server) \<Rightarrow> server_id list \<Rightarrow> nat \<Rightarrow> bool" where
  "unforged C pks sid inc pre honest rounds \<longleftrightarrow>
     list_all (\<lambda>r. list_all (\<lambda>j. list_all (\<lambda>x. list_all (\<lambda>i.
       item_hash C sid (item x) |\<in>| accepted (relay_state C sid inc pre r i) \<or>
       list_all (\<lambda>(i', sg). i' \<noteq> i \<or>
         \<not> sig_verify C (pks ! i) (relay_signing_bytes sid (item_hash C sid (item x))) sg) (chain x))
       honest) (inc (Suc r) j)) honest) [0..<rounds]"

definition fragments_apart ::
    "('p, 'q, 'o, 'z) set_codecs_scheme \<Rightarrow> bytes \<Rightarrow> (nat \<Rightarrow> server_id \<Rightarrow> 'p relay_msg list) \<Rightarrow>
     (server_id \<Rightarrow> ('p, 'q) set_server) \<Rightarrow> server_id list \<Rightarrow> nat \<Rightarrow> bytes \<Rightarrow> bool" where
  "fragments_apart C sid inc pre honest rounds h \<longleftrightarrow>
     list_all (\<lambda>j. h |\<notin>| accepted (pre j) \<and>
       list_all (\<lambda>x. is_batch x \<or> item_hash C sid (item x) \<noteq> h) (snd (originate C sid (pre j))) \<and>
       list_all (\<lambda>r. list_all (\<lambda>x. is_batch x \<or> item_hash C sid (item x) \<noteq> h) (inc (Suc r) j)) [0..<rounds])
     honest"

lemma unforgedD:
  assumes "unforged C pks sid inc pre honest rounds" "r < rounds" "j \<in> set honest" "x \<in> set (inc (Suc r) j)"
    and "g \<in> set honest" "(g, sg) \<in> set (chain x)"
    and "sig_verify C (pks ! g) (relay_signing_bytes sid (item_hash C sid (item x))) sg"
  shows "item_hash C sid (item x) |\<in>| accepted (relay_state C sid inc pre r g)"
proof -
  have r: "r \<in> set [0..<rounds]" using assms(2) by simp
  have "item_hash C sid (item x) |\<in>| accepted (relay_state C sid inc pre r g) \<or>
      (\<forall>(i', sg) \<in> set (chain x). i' \<noteq> g \<or>
         \<not> sig_verify C (pks ! g) (relay_signing_bytes sid (item_hash C sid (item x))) sg)"
    using assms(1) r assms(3-5) unfolding unforged_def list_all_iff by blast
  then show ?thesis using assms(6,7) by blast
qed

lemma same_identity_originate:
  "same_identity s (fst (originate C sid s))"
  by (simp add: originate_def same_identity_def Let_def)

lemma relay_state_identity: "same_identity (pre i) (relay_state C sid inc pre r i)"
  by (induction r) (auto intro: same_identity_trans same_identity_originate absorb_frame)

lemma relay_state_accepted_mono:
  "r \<le> r' \<Longrightarrow> accepted (relay_state C sid inc pre r i) |\<subseteq>| accepted (relay_state C sid inc pre r' i)"
proof (induction r' rule: dec_induct)
  case (step m)
  show ?case using order_trans [OF step.IH absorb_frame(2)] by simp
qed simp

lemma batch_of_verifies:
  assumes "set_signing_ok C" "ss_server_pks s = pks" "ss_server_id s < length pks"
    "sig_public C (ss_signer s) = pks ! ss_server_id s"
  shows "batch_verify C sid pks (batch_of C sid s)"
proof -
  have "sig_verify C (sig_public C (ss_signer s)) msg (sig_sign C (ss_signer s) msg)" for msg
    using assms(1) by (simp add: set_signing_ok_def)
  then show ?thesis using assms(3,4) by (simp add: batch_verify_def batch_of_def Let_def slice_get_def)
qed

lemma originate_accepts:
  assumes "h |\<in>| accepted (fst (originate C sid s))" "h |\<notin>| accepted s"
  obtains it where "first_relay C sid s it \<in> set (snd (originate C sid s))" "item_hash C sid it = h"
    "it = ItemBatch (batch_of C sid s) \<or> \<not> is_batch (first_relay C sid s it)"
proof -
  define items where "items = ItemBatch (batch_of C sid s) #
    map ItemFragment (concat (map fm_values (fm_values (ss_fragments s))))"
  have orig: "accepted (fst (originate C sid s)) = accepted s |\<union>| fset_of_list (map (item_hash C sid) items)"
    "snd (originate C sid s) = map (first_relay C sid s) items"
    by (simp_all add: originate_def Let_def items_def)
  then obtain it where it: "it \<in> set items" "item_hash C sid it = h"
    using assms by (auto simp: fset_of_list_elem)
  then have "it = ItemBatch (batch_of C sid s) \<or> \<not> is_batch (first_relay C sid s it)"
    by (auto simp: items_def is_batch_def first_relay_def)
  with it show thesis using that [of it] orig(2) by simp
qed

text \<open>An honest server passed every batch it accepted on, with one signature more than rounds.\<close>

lemma accepted_forwarded:
  assumes "set_signing_ok C" "honest_setup C pks pre honest" "unforged C pks sid inc pre honest rounds"
    and "fragments_apart C sid inc pre honest rounds h" "i \<in> set honest"
    and "r \<le> rounds" "h |\<in>| accepted (relay_state C sid inc pre r i)"
  shows "\<exists>r' \<le> r. \<exists>out \<in> set (relay_sent C sid inc pre r' i). \<exists>b. item out = ItemBatch b \<and>
    item_hash C sid (item out) = h \<and> batch_verify C sid pks b \<and>
    Suc r' \<le> card (chain_signers C pks (relay_signing_bytes sid h) (chain out))"
  using assms(6,7)
proof (induction r)
  case 0
  have me: "i < length pks" "ss_server_id (pre i) = i" "ss_server_pks (pre i) = pks"
      "sig_public C (ss_signer (pre i)) = pks ! i"
    using assms(2,5) by (auto simp: honest_setup_def list_all_iff)
  have sig: "sig_verify C (pks ! i) msg (sig_sign C (ss_signer (pre i)) msg)" for msg
    using assms(1) me(4) by (metis set_signing_ok_def)
  have "h |\<notin>| accepted (pre i)" using assms(4,5) by (simp add: fragments_apart_def list_all_iff)
  with 0(2) obtain it where it: "first_relay C sid (pre i) it \<in> set (snd (originate C sid (pre i)))"
    "item_hash C sid it = h"
    "it = ItemBatch (batch_of C sid (pre i)) \<or> \<not> is_batch (first_relay C sid (pre i) it)"
    by (auto elim: originate_accepts)
  let ?out = "first_relay C sid (pre i) it"
  have out: "?out \<in> set (relay_sent C sid inc pre 0 i)" "item_hash C sid (item ?out) = h"
    using it by (simp_all add: first_relay_def)
  have "is_batch ?out"
    using assms(4,5) it(1) out(2) unfolding fragments_apart_def list_all_iff by blast
  then have "item ?out = ItemBatch (batch_of C sid (pre i))"
    using it(3) by (simp add: first_relay_def)
  moreover have "batch_verify C sid pks (batch_of C sid (pre i))"
    using batch_of_verifies [of C "pre i" pks sid] assms(1) me by simp
  moreover have "chain_signers C pks (relay_signing_bytes sid h) (chain ?out) = {i}"
    using me(1,2) sig by (auto simp: chain_signers_def first_relay_def it(2))
  ultimately show ?case using out by (intro exI [of _ 0] conjI bexI [of _ ?out]) auto
next
  case (Suc r)
  let ?s = "relay_state C sid inc pre r i"
  show ?case
  proof (cases "h |\<in>| accepted ?s")
    case True
    then show ?thesis using Suc.IH Suc.prems(1) by (meson Suc_leD le_SucI)
  next
    case False
    have me: "i < length pks" "ss_server_id ?s = i" "ss_server_pks ?s = pks" "sig_public C (ss_signer ?s) = pks ! i"
      using assms(2,5) relay_state_identity [of pre i C sid inc r]
      by (auto simp: honest_setup_def list_all_iff same_identity_def)
    have sig: "sig_verify C (pks ! i) msg (sig_sign C (ss_signer ?s) msg)" for msg
      using assms(1) me(4) by (metis set_signing_ok_def)
    obtain x out where x: "x \<in> set (inc (Suc r) i)" "item_hash C sid (item x) = h"
      "out \<in> set (relay_sent C sid inc pre (Suc r) i)" "sent_on C sid (Suc r) ?s x out"
      using absorb_accepts [OF False, of C sid "Suc r" "inc (Suc r) i"] Suc.prems(2) by auto
    have r: "r \<in> set [0..<rounds]" using Suc.prems(1) by simp
    have "is_batch x" using x(1,2) assms(4,5) r unfolding fragments_apart_def list_all_iff by blast
    then obtain b where b: "item x = ItemBatch b" by (auto simp: is_batch_def split: relay_item.splits)
    let ?m = "relay_signing_bytes sid h"
    have "i \<notin> chain_signers C pks ?m (chain x)"
      using False x(1,2) r unforgedD [OF assms(3) _ assms(5) x(1) assms(5)] by (auto simp: chain_signers_def)
    moreover have "chain_signers C pks ?m (chain out) = insert i (chain_signers C pks ?m (chain x))"
      using x(4) me sig chain_signers_extend [of i pks C ?m] by (simp add: sent_on_def x(2))
    moreover have "Suc r \<le> card (chain_signers C pks ?m (chain x))"
      using x(4) by (simp add: sent_on_def chain_len_signers x(2) me(3))
    ultimately have "Suc (Suc r) \<le> card (chain_signers C pks ?m (chain out))" by simp
    moreover have "item out = ItemBatch b" "batch_verify C sid pks b"
      using x(4) b me(3) by (auto simp: sent_on_def)
    moreover have "item_hash C sid (item out) = h" using x(2) b \<open>item out = ItemBatch b\<close> by simp
    ultimately show ?thesis using x(3) by blast
  qed
qed


lemma accepted_spreads:
  assumes "set_signing_ok C" "honest_setup C pks pre honest" "unforged C pks sid inc pre honest rounds"
    and "fragments_apart C sid inc pre honest rounds h" "synchronous C sid inc pre honest rounds"
    and "i \<in> set honest" "j \<in> set honest"
    and "r < rounds" "h |\<in>| accepted (relay_state C sid inc pre r i)"
  shows "h |\<in>| accepted (relay_state C sid inc pre rounds j)"
proof -
  obtain r' out b where out: "r' \<le> r" "out \<in> set (relay_sent C sid inc pre r' i)" "item out = ItemBatch b"
    "item_hash C sid (item out) = h" "batch_verify C sid pks b"
    "Suc r' \<le> card (chain_signers C pks (relay_signing_bytes sid h) (chain out))"
    using accepted_forwarded [OF assms(1-4,6) less_imp_le [OF assms(8)] assms(9)] by blast
  show ?thesis
  proof (cases "i = j")
    case True
    then show ?thesis using relay_state_accepted_mono [of r rounds C sid inc pre i] assms(8,9) by auto
  next
    case False
    have r': "r' \<in> set [0..<rounds]" using out(1) assms(8) by simp
    then have "out \<in> set (inc (Suc r') j)"
      using assms(5-7) out(2) False unfolding synchronous_def list_all_iff by blast
    moreover have "ss_server_pks (relay_state C sid inc pre r' j) = pks"
      using relay_state_identity [of pre j C sid inc r'] assms(2,7)
      by (auto simp: same_identity_def honest_setup_def list_all_iff)
    ultimately have "h |\<in>| accepted (relay_state C sid inc pre (Suc r') j)"
      using absorb_takes [of out "inc (Suc r') j" b C sid "relay_state C sid inc pre r' j" "Suc r'"] out
      by (simp add: chain_len_signers)
    then show ?thesis using relay_state_accepted_mono [of "Suc r'" rounds C sid inc pre j] r' by auto
  qed
qed

lemma relay_agreement:
  assumes "set_signing_ok C" "code pp = Some rs" "relay_rounds pp = Some rounds"
    and "honest_setup C pks pre honest" "length pks = rs_n rs" "rs_k rs \<le> length honest"
    and "synchronous C sid inc pre honest rounds" "unforged C pks sid inc pre honest rounds"
    and "fragments_apart C sid inc pre honest rounds (item_hash C sid (ItemBatch b))"
    and "i \<in> set honest" "j \<in> set honest"
    and "item_hash C sid (ItemBatch b) |\<in>| accepted (relay_state C sid inc pre rounds i)"
  shows "item_hash C sid (ItemBatch b) |\<in>| accepted (relay_state C sid inc pre rounds j)"
proof -
  let ?h = "item_hash C sid (ItemBatch b)"
  note spread = accepted_spreads [OF assms(1,4,8,9,7)]
  have rounds: "rounds = Suc (rs_n rs - rs_k rs)" using assms(2,3) by (simp add: relay_rounds_def)
  let ?s = "relay_state C sid inc pre (rs_n rs - rs_k rs) i"
  show ?thesis
  proof (cases "?h |\<in>| accepted ?s")
    case True
    show ?thesis by (rule spread [OF assms(10,11) _ True]) (simp add: rounds)
  next
    case False
    obtain x out where x: "x \<in> set (inc rounds i)" "item_hash C sid (item x) = ?h" "sent_on C sid rounds ?s x out"
      using absorb_accepts [OF False, of C sid rounds "inc rounds i"] assms(12) by (auto simp: rounds)
    have pks: "ss_server_pks ?s = pks"
      using relay_state_identity [of pre i C sid inc] assms(4,10)
      by (auto simp: same_identity_def honest_setup_def list_all_iff)
    let ?V = "chain_signers C pks (relay_signing_bytes sid ?h) (chain x)"
    have many: "rounds \<le> card ?V" using x(2,3) by (simp add: sent_on_def chain_len_signers pks)
    have sub: "set honest \<union> ?V \<subseteq> {..<rs_n rs}"
      using assms(4,5) by (auto simp: honest_setup_def list_all_iff chain_signers_def)
    have "card (set honest) = length honest" using assms(4) by (simp add: honest_setup_def distinct_card)
    moreover have "card (set honest \<union> ?V) \<le> rs_n rs" using card_mono [OF _ sub] by simp
    ultimately have "set honest \<inter> ?V \<noteq> {}"
      using many assms(6) card_Un_disjoint [of "set honest" ?V] rounds by force
    then obtain g sg where g: "g \<in> set honest" "(g, sg) \<in> set (chain x)"
      "sig_verify C (pks ! g) (relay_signing_bytes sid ?h) sg"
      by (auto simp: chain_signers_def)
    then have early: "?h |\<in>| accepted (relay_state C sid inc pre (rs_n rs - rs_k rs) g)"
      using unforgedD [OF assms(8) _ assms(10) _ g(1,2)] g(3) x(1,2) by (simp add: rounds)
    show ?thesis by (rule spread [OF g(1) assms(11) _ early]) (simp add: rounds)
  qed
qed

text \<open>
  C8. The relay rounds reach agreement: whatever the network and up to \<open>n - k\<close> misbehaving
  servers do, after the number of rounds the code runs, two honest servers have accepted the
  same receipt batches. It needs what the code assumes: messages between honest servers
  arrive in the next round, signatures of honest servers are not forged, and a batch does
  not share its hash with a fragment.
\<close>

theorem dolev_strong_agreement:
  assumes "set_signing_ok C" "code pp = Some rs" "relay_rounds pp = Some rounds"
    and "honest_setup C pks pre honest" "length pks = rs_n rs" "rs_k rs \<le> length honest"
    and "synchronous C sid inc pre honest rounds" "unforged C pks sid inc pre honest rounds"
    and "fragments_apart C sid inc pre honest rounds (item_hash C sid (ItemBatch b))"
    and "i \<in> set honest" "j \<in> set honest"
    and "item_hash C sid (ItemBatch b) |\<in>| accepted (relay_state C sid inc pre rounds i)"
  shows "item_hash C sid (ItemBatch b) |\<in>| accepted (relay_state C sid inc pre rounds j)"
  by (rule relay_agreement [OF assms])


section \<open>An equivocating lane\<close>

text \<open>
  Which of a lane's batches a server keeps depends on which came first. \<open>keyed_for\<close>: the
  server is a lane of the roster, knows the keys and signs with its own.
\<close>

definition keyed_for ::
    "('p, 'q, 'o, 'z) set_codecs_scheme \<Rightarrow> bytes list \<Rightarrow> ('p, 'q) set_server \<Rightarrow> bool" where
  "keyed_for C pks s \<longleftrightarrow>
     ss_server_pks s = pks \<and> ss_server_id s < length pks \<and>
     sig_public C (ss_signer s) = pks ! ss_server_id s"

definition reports :: "receipt_batch \<Rightarrow> client_id \<Rightarrow> bytes \<Rightarrow> bool" where
  "reports b cid pk \<longleftrightarrow> list_ex (\<lambda>r. r_client r = cid \<and> pk_c r = pk) (rb_receipts b)"

text \<open>A lane sends a batch with its own signature as the chain.\<close>

definition opening_relay :: "receipt_batch \<Rightarrow> bytes \<Rightarrow> 'p relay_msg" where
  "opening_relay b sg = \<lparr>item = ItemBatch b, chain = [(rb_server b, sg)]\<rparr>"

definition signs_relay ::
    "('p, 'q, 'o, 'z) set_codecs_scheme \<Rightarrow> bytes \<Rightarrow> bytes list \<Rightarrow> receipt_batch \<Rightarrow> bytes \<Rightarrow> bool" where
  "signs_relay C sid pks b sg \<longleftrightarrow>
     batch_verify C sid pks b \<and> rb_server b < length pks \<and>
     sig_verify C (pks ! rb_server b) (relay_signing_bytes sid (item_hash C sid (ItemBatch b))) sg"

lemma absorb_batch:
  assumes "item x = ItemBatch b" "batch_verify C sid (ss_server_pks s) b"
    and "h = item_hash C sid (ItemBatch b)" "h |\<notin>| accepted s" "rnd \<le> chain_len C sid h (chain x) s"
  shows "absorb C sid rnd [x] s =
    (s\<lparr>batches := (if rb_server b |\<in>| fmdom (batches s) then batches s else fmupd (rb_server b) b (batches s)),
       accepted := finsert h (accepted s)\<rparr>,
     [\<lparr>item = ItemBatch b, chain = filter (\<lambda>(i, _). i \<noteq> ss_server_id s) (chain x) @
        [(ss_server_id s, sig_sign C (ss_signer s) (relay_signing_bytes sid h))]\<rparr>])"
  using assms
  by (simp add: prod_eq_iff absorb_def is_batch_def absorb_one_def accept_item_def accept_batch_def
      Let_def del: item_hash.simps)

lemma opening_absorbed:
  fixes s :: "('p, 'q) set_server"
  assumes "set_signing_ok C" "keyed_for C pks s" "signs_relay C sid pks b sg"
    and "ss_server_id s \<noteq> rb_server b" "rb_server b |\<notin>| fmdom (batches s)"
    and "h = item_hash C sid (ItemBatch b)" "h |\<notin>| accepted s"
  shows "\<exists>out. absorb C sid 1 [opening_relay b sg] s =
      (s\<lparr>batches := fmupd (rb_server b) b (batches s), accepted := finsert h (accepted s)\<rparr>, [out]) \<and>
    item out = ItemBatch b \<and> card (chain_signers C pks (relay_signing_bytes sid h) (chain out)) = 2"
proof -
  let ?x = "opening_relay b sg :: 'p relay_msg" and ?msg = "relay_signing_bytes sid h"
  have pks: "ss_server_pks s = pks" using assms(2) by (simp add: keyed_for_def)
  have one: "chain_signers C pks ?msg (chain ?x) = {rb_server b}"
    using assms(3,6)
    by (auto simp: opening_relay_def signs_relay_def chain_signers_def simp del: item_hash.simps)
  have own: "sig_verify C (pks ! ss_server_id s) ?msg (sig_sign C (ss_signer s) ?msg)"
    using assms(1,2) unfolding set_signing_ok_def keyed_for_def by metis
  let ?out = "\<lparr>item = ItemBatch b, chain = filter (\<lambda>(i, _). i \<noteq> ss_server_id s) (chain ?x) @
    [(ss_server_id s, sig_sign C (ss_signer s) ?msg)]\<rparr>"
  have "card (chain_signers C pks ?msg (chain ?out)) = 2"
    using chain_signers_extend [OF _ own, of "chain ?x"] one assms(2,4) by (simp add: keyed_for_def)
  moreover have "absorb C sid 1 [?x] s =
      (s\<lparr>batches := fmupd (rb_server b) b (batches s), accepted := finsert h (accepted s)\<rparr>, [?out])"
    using absorb_batch [of ?x b C sid s h 1] assms(3,5,6,7) one
    by (simp add: opening_relay_def signs_relay_def pks chain_len_signers del: item_hash.simps)
  ultimately show ?thesis by auto
qed

lemma covered_lanes_iff:
  assumes "fmlookup (batches s) l = Some b" "rb_server b = l" "fmpred (\<lambda>k b. rb_server b = k) (batches s)"
  shows "l \<in> set (covered_lanes cid pk s) \<longleftrightarrow> reports b cid pk"
proof -
  have vals: "b' \<in> set (fm_values (batches s)) \<longleftrightarrow> (\<exists>k. fmlookup (batches s) k = Some b')" for b'
    by (simp add: set_fm_values fmran'_alt_def fmlookup_ran_iff)
  have only: "b' = b" if "fmlookup (batches s) k = Some b'" "rb_server b' = l" for k b'
  proof -
    have "rb_server b' = k" using assms(3) that(1) by (simp add: fmpred_iff)
    then show ?thesis using that assms(1) by simp
  qed
  have "l \<in> set (covered_lanes cid pk s) \<longleftrightarrow>
      (\<exists>b' \<in> set (fm_values (batches s)). rb_server b' = l \<and> reports b' cid pk)"
    unfolding covered_lanes_def reports_def by (simp add: image_iff Bex_def) blast
  then show ?thesis using vals only assms(1,2) by metis
qed

text \<open>
  C25. A lane that signs two batches splits what honest servers decide over. Let two servers,
  neither of which holds a batch of the lane, get the lane's two batches in the first relay
  round, one each, and let each pass on in the second round what it accepted in the first.
  Then both have accepted both batches, which is what the relay rounds agree on, but each
  keeps the batch that came first; so a client that only one of the batches reports is
  covered by the lane at one server and not at the other. The closed instance carries this
  to the end: the one server fixes a set with the client, the other the empty set.
\<close>

theorem equivocating_lane_splits_rows:
  fixes s t :: "('p, 'q) set_server"
  assumes "set_signing_ok C" "keyed_for C pks s" "keyed_for C pks t"
    and "signs_relay C sid pks b sg" "signs_relay C sid pks b' sg'"
    and "rb_server b = l" "rb_server b' = l" "ss_server_id s \<noteq> l" "ss_server_id t \<noteq> l"
    and "h = item_hash C sid (ItemBatch b)" "h' = item_hash C sid (ItemBatch b')" "h \<noteq> h'"
    and "h |\<notin>| accepted s" "h' |\<notin>| accepted s" "h |\<notin>| accepted t" "h' |\<notin>| accepted t"
    and "l |\<notin>| fmdom (batches s)" "l |\<notin>| fmdom (batches t)"
    and "fmpred (\<lambda>k x. rb_server x = k) (batches s)" "fmpred (\<lambda>k x. rb_server x = k) (batches t)"
    and "absorb C sid 1 [opening_relay b sg] s = (s1, outs)"
    and "absorb C sid 1 [opening_relay b' sg'] t = (t1, outt)"
    and "s2 = fst (absorb C sid 2 outt s1)" "t2 = fst (absorb C sid 2 outs t1)"
  shows "h |\<in>| accepted s2 \<and> h' |\<in>| accepted s2 \<and> h |\<in>| accepted t2 \<and> h' |\<in>| accepted t2 \<and>
    fmlookup (batches s2) l = Some b \<and> fmlookup (batches t2) l = Some b' \<and>
    (l \<in> set (covered_lanes cid pk s2) \<longleftrightarrow> reports b cid pk) \<and>
    (l \<in> set (covered_lanes cid pk t2) \<longleftrightarrow> reports b' cid pk)"
proof -
  obtain os where os: "absorb C sid 1 [opening_relay b sg] s =
      (s\<lparr>batches := fmupd l b (batches s), accepted := finsert h (accepted s)\<rparr>, [os])"
    "item os = ItemBatch b" "card (chain_signers C pks (relay_signing_bytes sid h) (chain os)) = 2"
    using opening_absorbed [OF assms(1,2,4), of h] assms(6,8,10,13,17) by auto
  obtain ot where ot: "absorb C sid 1 [opening_relay b' sg'] t =
      (t\<lparr>batches := fmupd l b' (batches t), accepted := finsert h' (accepted t)\<rparr>, [ot])"
    "item ot = ItemBatch b'" "card (chain_signers C pks (relay_signing_bytes sid h') (chain ot)) = 2"
    using opening_absorbed [OF assms(1,3,5), of h'] assms(7,9,11,16,18) by auto
  have pks: "ss_server_pks s = pks" "ss_server_pks t = pks"
    using assms(2,3) by (simp_all add: keyed_for_def)
  have s2: "s2 = s\<lparr>batches := fmupd l b (batches s), accepted := finsert h' (finsert h (accepted s))\<rparr>"
    using assms(5,7,11,12,14,21-23) os(1) ot absorb_batch [of ot b' C sid s1 h' 2]
    by (simp add: signs_relay_def pks chain_len_signers del: item_hash.simps)
  have t2: "t2 = t\<lparr>batches := fmupd l b' (batches t), accepted := finsert h (finsert h' (accepted t))\<rparr>"
    using assms(4,6,10,12,15,21,22,24) ot(1) os absorb_batch [of os b C sid t1 h 2]
    by (simp add: signs_relay_def pks chain_len_signers del: item_hash.simps)
  have "l \<in> set (covered_lanes cid pk s2) \<longleftrightarrow> reports b cid pk"
    by (rule covered_lanes_iff) (use assms(6,19) in \<open>auto simp: s2 fmpred_iff\<close>)
  moreover have "l \<in> set (covered_lanes cid pk t2) \<longleftrightarrow> reports b' cid pk"
    by (rule covered_lanes_iff) (use assms(7,20) in \<open>auto simp: t2 fmpred_iff\<close>)
  ultimately show ?thesis by (simp add: s2 t2)
qed

text \<open>
  Three lanes, of which lane 2 misbehaves: it signs one batch that reports client 7 and one
  that does not, and sends the first to server 0 and the second to server 1. Server 0 also
  holds the client's bundle. Messages between servers 0 and 1 arrive on time.
\<close>

definition demo_pks :: "bytes list" where
  "demo_pks = [[0], [1], [2]]"

definition demo_bundle :: "(40 word, unit) client_bundle" where
  "demo_bundle =
     \<lparr>b_client = 7, b_lane = 0, b_share = [10], b_path = \<lparr>lane_index = 0, nodes = []\<rparr>, b_envelope = [1],
      b_pubkey = [5], b_sig = []\<rparr>"

definition demo_pre :: "server_id \<Rightarrow> (40 word, unit) set_server" where
  "demo_pre i =
     \<lparr>ss_server_id = i, ss_n_lanes = 3, ss_k = 2, ss_signer = [word_of_nat i], ss_server_pks = demo_pks,
      relaying = False, accepted = {||},
      held = (if i = 0 then fmupd 7 (fmupd [1] demo_bundle fmempty) fmempty else fmempty),
      batches = fmempty, ss_fragments = fmempty, bulletins = fmupd 7 {|[5]|} fmempty\<rparr>"

definition two_faced :: "receipt list \<Rightarrow> 40 word relay_msg" where
  "two_faced rs =
     (let b = \<lparr>rb_server = 2, rb_receipts = rs, rb_sig = demo_sign [2] (batch_signing_bytes [9] 2 rs)\<rparr>
      in \<lparr>item = ItemBatch b,
          chain = [(2, demo_sign [2] (relay_signing_bytes [9] (item_hash demo_set_codecs [9] (ItemBatch b))))]\<rparr>)"

text \<open>The deliveries of a run in which lane 2 sends \<open>adv i\<close> to server \<open>i\<close> in the first round.\<close>

definition demo_first :: "(server_id \<Rightarrow> 40 word relay_msg list) \<Rightarrow> server_id \<Rightarrow> 40 word relay_msg list" where
  "demo_first adv i = snd (originate demo_set_codecs [9] (demo_pre (1 - i))) @ adv i"

definition demo_second :: "(server_id \<Rightarrow> 40 word relay_msg list) \<Rightarrow> server_id \<Rightarrow> 40 word relay_msg list" where
  "demo_second adv i =
     snd (absorb demo_set_codecs [9] 1 (demo_first adv (1 - i)) (fst (originate demo_set_codecs [9] (demo_pre (1 - i)))))"

definition demo_deliveries ::
    "(server_id \<Rightarrow> 40 word relay_msg list) \<Rightarrow> nat \<Rightarrow> server_id \<Rightarrow> 40 word relay_msg list" where
  "demo_deliveries adv r i = (if r = 1 then demo_first adv i else if r = 2 then demo_second adv i else [])"

definition demo_row :: "receipt list" where
  "demo_row = [\<lparr>r_client = 7, pk_c = [5], bundle_hash = [3]\<rparr>]"

definition demo_inc :: "nat \<Rightarrow> server_id \<Rightarrow> 40 word relay_msg list" where
  "demo_inc = demo_deliveries (\<lambda>i. [two_faced (if i = 0 then demo_row else [])])"

lemma demo_run_ok:
  "honest_setup demo_set_codecs demo_pks demo_pre [0, 1]"
  "synchronous demo_set_codecs [9] demo_inc demo_pre [0, 1] 2"
  "unforged demo_set_codecs demo_pks [9] demo_inc demo_pre [0, 1] 2"
  by code_simp+

definition demo_face :: receipt_batch where
  "demo_face = (case item (two_faced []) of ItemBatch b \<Rightarrow> b)"

lemma demo_face_ok:
  "fragments_apart demo_set_codecs [9] demo_inc demo_pre [0, 1] 2 (item_hash demo_set_codecs [9] (ItemBatch demo_face))"
  "item_hash demo_set_codecs [9] (ItemBatch demo_face) |\<in>| accepted (relay_state demo_set_codecs [9] demo_inc demo_pre 2 1)"
  by code_simp+

lemma demo_pp: "code (demo_params 2 3) = Some \<lparr>rs_k = 2, rs_n = 3\<rparr>" "relay_rounds (demo_params 2 3) = Some 2"
  by (simp_all add: code_def relay_rounds_def demo_params_def)

theorem dolev_strong_agreement_witness:
  "item_hash demo_set_codecs [9] (ItemBatch demo_face) |\<in>|
     accepted (relay_state demo_set_codecs [9] demo_inc demo_pre 2 0)"
  by (rule dolev_strong_agreement [OF demo_set_signing_ok demo_pp demo_run_ok(1) _ _ demo_run_ok(2,3)
        demo_face_ok(1) _ _ demo_face_ok(2)]) (simp_all add: demo_pks_def)

text \<open>The two servers before the relay, each with one face of lane 2, and after two rounds.\<close>

definition demo_split :: "server_id \<Rightarrow> (40 word, unit) set_server" where
  "demo_split i =
     (let open_at = (\<lambda>j. fst (originate demo_set_codecs [9] (demo_pre j)));
          face = (\<lambda>j. two_faced (if j = 0 then demo_row else []));
          first = (\<lambda>j. absorb demo_set_codecs [9] 1 [face j] (open_at j))
      in fst (absorb demo_set_codecs [9] 2 (snd (first (1 - i))) (fst (first i))))"

definition demo_fixed :: "server_id \<Rightarrow> client_id list option" where
  "demo_fixed i = map_option sr_set (finalize demo_set_codecs (demo_params 2 3) [] [9] (demo_split i))"

lemma demo_fixed_sets: "demo_fixed 0 = Some [7]" "demo_fixed 1 = Some []"
  by code_simp+

theorem equivocating_lane_splits_rows_witness:
  "2 \<in> set (covered_lanes 7 [5] (demo_split 0)) \<and> 2 \<notin> set (covered_lanes 7 [5] (demo_split 1)) \<and>
   demo_fixed 0 = Some [7] \<and> demo_fixed 1 = Some []"
proof -
  define b b' where "b = (case item (two_faced demo_row) of ItemBatch b \<Rightarrow> b)" and "b' = demo_face"
  define sg sg' where "sg = snd (hd (chain (two_faced demo_row)))" and "sg' = snd (hd (chain (two_faced [])))"
  define s t where "s = fst (originate demo_set_codecs [9] (demo_pre 0))"
    and "t = fst (originate demo_set_codecs [9] (demo_pre 1))"
  note defs = b_def b'_def sg_def sg'_def s_def t_def
  have faces: "two_faced demo_row = opening_relay b sg" "two_faced [] = opening_relay b' sg'"
    unfolding defs by code_simp+
  have keyed: "keyed_for demo_set_codecs demo_pks s" "keyed_for demo_set_codecs demo_pks t"
    unfolding defs by code_simp+
  have signed: "signs_relay demo_set_codecs [9] demo_pks b sg" "signs_relay demo_set_codecs [9] demo_pks b' sg'"
    unfolding defs by code_simp+
  have lanes: "rb_server b = 2" "rb_server b' = 2" "ss_server_id s \<noteq> 2" "ss_server_id t \<noteq> 2"
    unfolding defs by code_simp+
  have hashes: "item_hash demo_set_codecs [9] (ItemBatch b) \<noteq> item_hash demo_set_codecs [9] (ItemBatch b')"
    "item_hash demo_set_codecs [9] (ItemBatch b) |\<notin>| accepted s"
    "item_hash demo_set_codecs [9] (ItemBatch b') |\<notin>| accepted s"
    "item_hash demo_set_codecs [9] (ItemBatch b) |\<notin>| accepted t"
    "item_hash demo_set_codecs [9] (ItemBatch b') |\<notin>| accepted t"
    unfolding defs by code_simp+
  have empty: "2 |\<notin>| fmdom (batches s)" "2 |\<notin>| fmdom (batches t)"
    "fmpred (\<lambda>k x. rb_server x = k) (batches s)" "fmpred (\<lambda>k x. rb_server x = k) (batches t)"
    unfolding defs by code_simp+
  have split: "demo_split 0 = fst (absorb demo_set_codecs [9] 2
      (snd (absorb demo_set_codecs [9] 1 [opening_relay b' sg'] t)) (fst (absorb demo_set_codecs [9] 1 [opening_relay b sg] s)))"
    "demo_split 1 = fst (absorb demo_set_codecs [9] 2
      (snd (absorb demo_set_codecs [9] 1 [opening_relay b sg] s)) (fst (absorb demo_set_codecs [9] 1 [opening_relay b' sg'] t)))"
    by (simp_all add: demo_split_def Let_def s_def t_def faces)
  have "reports b 7 [5]" "\<not> reports b' 7 [5]" unfolding defs by code_simp+
  then show ?thesis
    using equivocating_lane_splits_rows [OF demo_set_signing_ok keyed signed lanes refl refl hashes empty
        surjective_pairing surjective_pairing split, of 7 "[5]"] demo_fixed_sets by simp
qed

end
