(* ===== verification/Set_Agreement.thy ===== *)
theory Set_Agreement
  imports Relaying
begin

text \<open>
  The canonical client set. It is a function of the pool the relay rounds agree on: the
  batches' receipts, the bulletins and the fragments. When no lane signs two batches, the
  honest servers of a synchronous run fix the same set; and the set is always one that all
  but the budgeted number of lanes can serve.
\<close>

section \<open>The set is a function of the pool\<close>

definition row :: "receipt_batch \<Rightarrow> server_id \<times> receipt list" where
  "row b = (rb_server b, rb_receipts b)"

definition same_pool :: "('p, 'q) set_server \<Rightarrow> ('p, 'q) set_server \<Rightarrow> bool" where
  "same_pool s s' \<longleftrightarrow>
     ss_n_lanes s' = ss_n_lanes s \<and> ss_k s' = ss_k s \<and> bulletins s' = bulletins s \<and>
     ss_fragments s' = ss_fragments s \<and>
     (\<forall>l. map_option row (fmlookup (batches s') l) = map_option row (fmlookup (batches s) l))"

lemma same_pool_rows:
  assumes "same_pool s s'"
  shows "map row (fm_values (batches s')) = map row (fm_values (batches s))"
proof -
  have rows: "map_option row (fmlookup (batches s') l) = map_option row (fmlookup (batches s) l)" for l
    using assms by (simp add: same_pool_def)
  then have "fmlookup (batches s') l = None \<longleftrightarrow> fmlookup (batches s) l = None" for l
    by (metis option.map_disc_iff)
  then have keys: "fm_keys (batches s') = fm_keys (batches s)"
    unfolding fm_keys_def by (metis fmdom_notI fmlookup_dom_iff fset_eqI option.exhaust option.distinct(1))
  show ?thesis
    unfolding fm_values_def keys map_map
  proof (rule map_cong [OF refl])
    fix l assume "l \<in> set (fm_keys (batches s))"
    then obtain b b' where "fmlookup (batches s) l = Some b" "fmlookup (batches s') l = Some b'"
      using rows [of l] by (force simp: fmlookup_dom'_iff)
    then show "(row \<circ> (\<lambda>k. the (fmlookup (batches s') k))) l = (row \<circ> (\<lambda>k. the (fmlookup (batches s) k))) l"
      using rows [of l] by simp
  qed
qed

lemma covered_lanes_rows:
  "covered_lanes cid pk s =
     sort (map fst (filter (\<lambda>(_, rs). list_ex (\<lambda>r. r_client r = cid \<and> pk_c r = pk) rs)
       (map row (fm_values (batches s)))))"
  by (simp add: covered_lanes_def filter_map comp_def row_def)

lemma reported_clients_rows:
  "reported_clients s = sort_dedup (concat (map (map r_client \<circ> snd) (map row (fm_values (batches s)))))"
  by (simp add: reported_clients_def comp_def row_def)

definition same_verdict :: "('p, 'q) tally \<Rightarrow> ('p, 'q) tally \<Rightarrow> bool" where
  "same_verdict t t' \<longleftrightarrow> abstaining t' = abstaining t \<and> admitted t' = admitted t \<and>
     t_excluded t' = t_excluded t \<and> t_conflicted t' = t_conflicted t"

lemma judge_client_pool:
  assumes "same_pool s s'" "same_verdict t t'"
  shows "rel_option same_verdict (judge_client C pp sid s cid t) (judge_client C pp sid s' cid t')"
proof -
  have key: "reported_key cid s' = reported_key cid s" using assms(1) by (simp add: reported_key_def same_pool_def)
  have cov: "covered_lanes cid pk s' = covered_lanes cid pk s" for pk
    using assms(1) by (simp add: covered_lanes_rows same_pool_rows)
  have lanes: "ss_n_lanes s' = ss_n_lanes s" "ss_k s' = ss_k s" "bulletins s' = bulletins s"
      "ss_fragments s' = ss_fragments s"
    using assms(1) by (simp_all add: same_pool_def)
  have reb: "rebuild C pp sid cid pk c m s' = rebuild C pp sid cid pk c m s" for pk c m
    unfolding rebuild_def rebuild_from_def lanes by (rule refl)
  show ?thesis
    using assms(2)
    by (auto simp: judge_client_def key cov reb lanes Let_def same_verdict_def exclude_def admit_def
        option.rel_map split: option.splits intro!: option.rel_refl)
qed


lemma judge_clients_pool:
  assumes "same_pool s s'"
  shows "same_verdict t t' \<Longrightarrow>
    rel_option same_verdict (judge_clients C pp sid s cids t) (judge_clients C pp sid s' cids t')"
proof (induction cids arbitrary: t t')
  case (Cons cid cids)
  from judge_client_pool [OF assms Cons.prems, of C pp sid cid] show ?case
    by (cases rule: option.rel_cases) (auto intro: Cons.IH)
qed simp

lemma serve_client_set:
  "sr_set (serve_client C key sid s rebuilt cid out) = sr_set out @ [cid] \<and>
   excluded (serve_client C key sid s rebuilt cid out) = excluded out \<and>
   conflicted (serve_client C key sid s rebuilt cid out) = conflicted out"
  by (auto simp: serve_client_def Let_def split: option.splits)

lemma serve_clients_set:
  "sr_set (fold (serve_client C key sid s rebuilt) cids out) = sr_set out @ cids \<and>
   excluded (fold (serve_client C key sid s rebuilt) cids out) = excluded out \<and>
   conflicted (fold (serve_client C key sid s rebuilt) cids out) = conflicted out"
  by (induction cids arbitrary: out) (simp_all add: serve_client_set)

lemma finalize_judged:
  assumes "finalize C pp key sid s = Some out"
  obtains t where "judge_clients C pp sid s (reported_clients s) empty_tally = Some t"
    "sr_set out = map fst (admitted t)" "excluded out = t_excluded t" "conflicted out = t_conflicted t"
  using assms by (auto simp: finalize_def serve_clients_set)

definition verdict :: "('p, 'q, 'o) set_round \<Rightarrow> client_id list \<times> client_id list \<times> client_id list" where
  "verdict out = (sr_set out, excluded out, conflicted out)"

lemma finalize_pool:
  assumes "same_pool s s'"
  shows "map_option verdict (finalize C pp key' sid s') = map_option verdict (finalize C pp key sid s)"
proof -
  have "reported_clients s' = reported_clients s" using assms by (simp add: reported_clients_rows same_pool_rows)
  moreover have "rel_option same_verdict (judge_clients C pp sid s (reported_clients s) empty_tally)
      (judge_clients C pp sid s' (reported_clients s) empty_tally)"
    by (rule judge_clients_pool [OF assms]) (simp add: same_verdict_def)
  ultimately show ?thesis
    unfolding finalize_def
    by (auto simp: verdict_def serve_clients_set same_verdict_def elim!: option.rel_cases)
qed


section \<open>The budget of abstaining lanes\<close>

text \<open>
  A client is served by a lane when its receipts cover the lane under the key it posted, or
  when the lanes not covered can be rebuilt.
\<close>

definition served ::
    "('p, 'q, 'o, 'z) set_codecs_scheme \<Rightarrow> protocol_params \<Rightarrow> bytes \<Rightarrow> ('p, 'q) set_server \<Rightarrow> client_id \<Rightarrow>
     usize \<Rightarrow> bool" where
  "served C pp sid s cid l \<longleftrightarrow>
     (case reported_key cid s of
        None \<Rightarrow> False
      | Some pk \<Rightarrow>
          l \<in> set (covered_lanes cid pk s) \<or>
          (\<exists>bs. rebuild C pp sid cid pk (covered_lanes cid pk s)
             (missing_lanes (ss_n_lanes s) (covered_lanes cid pk s)) s = Some (Some bs)))"

definition admitted_ids :: "('p, 'q) tally \<Rightarrow> client_id list" where
  "admitted_ids t = map fst (admitted t)"

definition tally_ok ::
    "('p, 'q, 'o, 'z) set_codecs_scheme \<Rightarrow> protocol_params \<Rightarrow> bytes \<Rightarrow> ('p, 'q) set_server \<Rightarrow> client_id list \<Rightarrow>
     ('p, 'q) tally \<Rightarrow> bool" where
  "tally_ok C pp sid s cids t \<longleftrightarrow>
     fcard (abstaining t) \<le> ss_n_lanes s - ss_k s \<and> fset (abstaining t) \<subseteq> {..<ss_n_lanes s} \<and>
     (\<forall>cid \<in> set (admitted_ids t). \<forall>l < ss_n_lanes s. l |\<in>| abstaining t \<or> served C pp sid s cid l) \<and>
     set (admitted_ids t) \<union> set (t_excluded t) = set cids \<and>
     set (admitted_ids t) \<inter> set (t_excluded t) = {} \<and>
     set (t_conflicted t) \<subseteq> set (t_excluded t) \<and>
     distinct (admitted_ids t) \<and> distinct (t_excluded t)"

lemma tally_ok_exclude:
  assumes "tally_ok C pp sid s cids t" "cid \<notin> set cids"
    and "abstaining t' = abstaining t" "admitted_ids t' = admitted_ids t"
    and "t_excluded t' = t_excluded t @ [cid]" "set (t_conflicted t') \<subseteq> insert cid (set (t_conflicted t))"
  shows "tally_ok C pp sid s (cids @ [cid]) t'"
  using assms unfolding tally_ok_def by auto

lemma tally_ok_admit:
  assumes "tally_ok C pp sid s cids t" "cid \<notin> set cids"
    and "abstaining t |\<subseteq>| abstaining t'" "fcard (abstaining t') \<le> ss_n_lanes s - ss_k s"
    and "fset (abstaining t') \<subseteq> {..<ss_n_lanes s}"
    and "\<And>l. l < ss_n_lanes s \<Longrightarrow> l |\<in>| abstaining t' \<or> served C pp sid s cid l"
    and "admitted_ids t' = admitted_ids t @ [cid]"
    and "t_excluded t' = t_excluded t" "t_conflicted t' = t_conflicted t"
  shows "tally_ok C pp sid s (cids @ [cid]) t'"
proof -
  have "l |\<in>| abstaining t' \<or> served C pp sid s c l" if "c \<in> set (admitted_ids t')" "l < ss_n_lanes s" for c l
  proof (cases "c = cid")
    case False
    then have "l |\<in>| abstaining t \<or> served C pp sid s c l" using that assms(1,7) by (simp add: tally_ok_def)
    then show ?thesis using fsubsetD [OF assms(3)] by blast
  qed (use that assms(6) in simp)
  then show ?thesis using assms unfolding tally_ok_def by auto
qed

lemma judge_client_ok:
  assumes ok: "tally_ok C pp sid s cids t" and new: "cid \<notin> set cids"
    and judged: "judge_client C pp sid s cid t = Some t'"
  shows "tally_ok C pp sid s (cids @ [cid]) t'"
proof (cases "reported_key cid s")
  case None
  with judged show ?thesis
    by (intro tally_ok_exclude [OF ok new]) (auto simp: judge_client_def exclude_def admitted_ids_def split: if_splits)
next
  case key: (Some pk)
  let ?cov = "covered_lanes cid pk s"
  let ?miss = "missing_lanes (ss_n_lanes s) ?cov"
  have bounds: "fcard (abstaining t) \<le> ss_n_lanes s - ss_k s" "fset (abstaining t) \<subseteq> {..<ss_n_lanes s}"
    using ok by (auto simp: tally_ok_def)
  have covered: "served C pp sid s cid l" if "l < ss_n_lanes s" "l \<notin> set ?miss" for l
    using that key by (auto simp: missing_lanes_def served_def)
  show ?thesis
  proof (cases "?miss = []")
    case True
    then have "t' = admit cid [] t" using judged key by (simp add: judge_client_def)
    then show ?thesis
      using covered True bounds by (intro tally_ok_admit [OF ok new]) (simp_all add: admit_def admitted_ids_def)
  next
    case False
    with judged key obtain res where res: "rebuild C pp sid cid pk ?cov ?miss s = Some res"
      by (auto simp: judge_client_def Let_def)
    show ?thesis
    proof (cases res)
      case (Some bs)
      then have "served C pp sid s cid l" for l using res key by (simp add: served_def)
      moreover have "abstaining t' = abstaining t \<and> admitted_ids t' = admitted_ids t @ [cid] \<and>
          t_excluded t' = t_excluded t \<and> t_conflicted t' = t_conflicted t"
        using judged key False res Some
        by (auto simp: judge_client_def Let_def admit_def admitted_ids_def split: option.splits)
      ultimately show ?thesis using bounds by (intro tally_ok_admit [OF ok new]) simp_all
    next
      case None
      let ?cost = "abstaining t |\<union>| fset_of_list ?miss"
      have t': "t' = (if fcard ?cost \<le> ss_n_lanes s - ss_k s then admit cid ?miss (t\<lparr>abstaining := ?cost\<rparr>)
          else exclude cid t)"
        using judged key False res None by (simp add: judge_client_def Let_def)
      show ?thesis
      proof (cases "fcard ?cost \<le> ss_n_lanes s - ss_k s")
        case True
        have "set ?miss \<subseteq> {..<ss_n_lanes s}" by (auto simp: missing_lanes_def)
        then show ?thesis
          using covered True bounds(2) t'
          by (intro tally_ok_admit [OF ok new])
             (auto simp: admit_def admitted_ids_def fset_of_list_elem fset_of_list.rep_eq)
      next
        case False
        then show ?thesis
          using t' by (intro tally_ok_exclude [OF ok new]) (auto simp: exclude_def admitted_ids_def)
      qed
    qed
  qed
qed

lemma judge_clients_ok:
  assumes "tally_ok C pp sid s done t" "distinct (done @ cids)" "judge_clients C pp sid s cids t = Some t'"
  shows "tally_ok C pp sid s (done @ cids) t'"
  using assms
proof (induction cids arbitrary: "done" t)
  case (Cons cid cids)
  then obtain t1 where t1: "judge_client C pp sid s cid t = Some t1" "judge_clients C pp sid s cids t1 = Some t'"
    by (auto split: bind_splits)
  have "tally_ok C pp sid s (done @ [cid]) t1" using judge_client_ok [OF Cons.prems(1) _ t1(1)] Cons.prems(2) by simp
  from Cons.IH [OF this _ t1(2)] show ?case using Cons.prems(2) by simp
qed simp

lemma finalize_tally:
  assumes "finalize C pp key sid s = Some out"
  obtains t where "tally_ok C pp sid s (reported_clients s) t" "sr_set out = admitted_ids t"
    "excluded out = t_excluded t" "conflicted out = t_conflicted t"
proof -
  obtain t where t: "judge_clients C pp sid s (reported_clients s) empty_tally = Some t"
    "sr_set out = map fst (admitted t)" "excluded out = t_excluded t" "conflicted out = t_conflicted t"
    by (rule finalize_judged [OF assms])
  have "tally_ok C pp sid s [] empty_tally" by (simp add: tally_ok_def empty_tally_def admitted_ids_def fcard.rep_eq)
  from judge_clients_ok [OF this _ t(1)] have "tally_ok C pp sid s (reported_clients s) t"
    by (simp add: reported_clients_def)
  with t show thesis by (intro that) (simp_all add: admitted_ids_def)
qed

text \<open>
  C19. The set stays within the round's budget: the set and the excluded clients are exactly
  the clients some lane reported, without repetition, and apart from at most \<open>n - k\<close> lanes
  every lane can serve every client in the set, from its own receipt or from a rebuilt bundle.
\<close>

theorem set_within_budget:
  assumes "finalize C pp key sid s = Some out"
  shows "\<exists>A. A \<subseteq> {..<ss_n_lanes s} \<and> card A \<le> ss_n_lanes s - ss_k s \<and>
      (\<forall>cid \<in> set (sr_set out). \<forall>l < ss_n_lanes s. l \<in> A \<or> served C pp sid s cid l) \<and>
    set (sr_set out) \<union> set (excluded out) = {r_client r | r b. b \<in> fmran' (batches s) \<and> r \<in> set (rb_receipts b)} \<and>
    set (sr_set out) \<inter> set (excluded out) = {} \<and> set (conflicted out) \<subseteq> set (excluded out) \<and>
    distinct (sr_set out) \<and> distinct (excluded out)"
proof -
  obtain t where ok: "tally_ok C pp sid s (reported_clients s) t" and t: "sr_set out = admitted_ids t"
    "excluded out = t_excluded t" "conflicted out = t_conflicted t"
    by (rule finalize_tally [OF assms])
  have "set (reported_clients s) = {r_client r | r b. b \<in> fmran' (batches s) \<and> r \<in> set (rb_receipts b)}"
    by (auto simp: reported_clients_def set_fm_values)
  then show ?thesis
    using ok by (intro exI [of _ "fset (abstaining t)"]) (simp add: tally_ok_def t fcard.rep_eq)
qed



section \<open>Honest servers fix the same set\<close>

text \<open>
  The batches that occur in a run: those the honest servers open with and those delivered to
  them. \<open>single_faced\<close> says that no lane signed two of them and that no two of them share a
  hash.
\<close>

definition as_batch :: "'p relay_msg \<Rightarrow> receipt_batch option" where
  "as_batch x = (case item x of ItemBatch b \<Rightarrow> Some b | ItemFragment _ \<Rightarrow> None)"

definition played_batches ::
    "('p, 'q, 'o, 'z) set_codecs_scheme \<Rightarrow> bytes \<Rightarrow> (nat \<Rightarrow> server_id \<Rightarrow> 'p relay_msg list) \<Rightarrow>
     (server_id \<Rightarrow> ('p, 'q) set_server) \<Rightarrow> server_id list \<Rightarrow> nat \<Rightarrow> receipt_batch list" where
  "played_batches C sid inc pre honest rounds =
     List.map_filter as_batch
       (concat (map (\<lambda>j. snd (originate C sid (pre j)) @ concat (map (\<lambda>r. inc (Suc r) j) [0..<rounds])) honest))"

definition single_faced ::
    "('p, 'q, 'o, 'z) set_codecs_scheme \<Rightarrow> bytes \<Rightarrow> bytes list \<Rightarrow> receipt_batch list \<Rightarrow> bool" where
  "single_faced C sid pks bs \<longleftrightarrow>
     list_all (\<lambda>b. list_all (\<lambda>b'.
       (item_hash C sid (ItemBatch b) = item_hash C sid (ItemBatch b') \<longrightarrow> row b = row b') \<and>
       (batch_verify C sid pks b \<and> batch_verify C sid pks b' \<and> rb_server b = rb_server b' \<longrightarrow> row b = row b')) bs) bs"

definition fresh_servers :: "(server_id \<Rightarrow> ('p, 'q) set_server) \<Rightarrow> server_id list \<Rightarrow> bool" where
  "fresh_servers pre honest \<longleftrightarrow>
     list_all (\<lambda>i. batches (pre i) = fmempty \<and> accepted (pre i) = {||} \<and> ss_fragments (pre i) = fmempty \<and>
       ss_n_lanes (pre i) = ss_n_lanes (pre (hd honest)) \<and> ss_k (pre i) = ss_k (pre (hd honest))) honest"

declare item_hash.simps [simp del]

text \<open>What a server's matrix and its accepted hashes say about each other.\<close>

definition matrix_ok ::
    "('p, 'q, 'o, 'z) set_codecs_scheme \<Rightarrow> bytes \<Rightarrow> receipt_batch set \<Rightarrow> ('p, 'q) set_server \<Rightarrow> bool" where
  "matrix_ok C sid P s \<longleftrightarrow>
     (\<forall>l b. fmlookup (batches s) l = Some b \<longrightarrow> b \<in> P \<and> batch_verify C sid (ss_server_pks s) b \<and> rb_server b = l \<and>
        item_hash C sid (ItemBatch b) |\<in>| accepted s) \<and>
     (\<forall>b \<in> P. item_hash C sid (ItemBatch b) |\<in>| accepted s \<longrightarrow> rb_server b |\<in>| fmdom (batches s))"

lemma matrix_ok_batch:
  assumes "matrix_ok C sid P s" "b \<in> P"
    and "\<And>b'. b' \<in> P \<Longrightarrow> item_hash C sid (ItemBatch b') = item_hash C sid (ItemBatch b) \<Longrightarrow> row b' = row b"
  shows "matrix_ok C sid P (accept_item C sid (ItemBatch b) s)"
proof (cases "batch_verify C sid (ss_server_pks s) b")
  case True
  let ?s1 = "accept_item C sid (ItemBatch b) s"
  have s1: "batches ?s1 = (if rb_server b |\<in>| fmdom (batches s) then batches s else fmupd (rb_server b) b (batches s))"
    "accepted ?s1 = finsert (item_hash C sid (ItemBatch b)) (accepted s)" "ss_server_pks ?s1 = ss_server_pks s"
    using True by (simp_all add: accept_item_def accept_batch_def)
  have server: "rb_server b' = rb_server b"
    if "b' \<in> P" "item_hash C sid (ItemBatch b') = item_hash C sid (ItemBatch b)" for b'
    using assms(3) [OF that] by (simp add: row_def)
  have "b' \<in> P \<and> batch_verify C sid (ss_server_pks s) b' \<and> rb_server b' = l \<and>
      item_hash C sid (ItemBatch b') |\<in>| accepted ?s1"
    if "fmlookup (batches ?s1) l = Some b'" for l b'
  proof (cases "fmlookup (batches s) l = Some b'")
    case True
    then show ?thesis using assms(1) by (simp add: matrix_ok_def s1(2))
  next
    case False
    then have "b' = b" "l = rb_server b" using that by (auto simp: s1(1) split: if_splits)
    then show ?thesis using True assms(2) by (simp add: s1(2))
  qed
  moreover have "rb_server b' |\<in>| fmdom (batches ?s1)"
    if "b' \<in> P" "item_hash C sid (ItemBatch b') |\<in>| accepted ?s1" for b'
  proof (cases "item_hash C sid (ItemBatch b') = item_hash C sid (ItemBatch b)")
    case True
    then show ?thesis using server [OF that(1)] by (simp add: s1(1))
  next
    case False
    then have "rb_server b' |\<in>| fmdom (batches s)" using that assms(1) by (simp add: s1(2) matrix_ok_def)
    then show ?thesis by (simp add: s1(1))
  qed
  ultimately show ?thesis by (simp add: matrix_ok_def s1(3))
qed (use assms(1) in \<open>simp add: accept_item_def accept_batch_def\<close>)

lemma matrix_ok_fragment:
  assumes "matrix_ok C sid P s" "\<And>b. b \<in> P \<Longrightarrow> item_hash C sid (ItemBatch b) \<noteq> item_hash C sid (ItemFragment f)"
  shows "matrix_ok C sid P (accept_item C sid (ItemFragment f) s)"
proof -
  let ?s1 = "accept_item C sid (ItemFragment f) s"
  have frame: "same_identity s ?s1" "accepted s |\<subseteq>| accepted ?s1"
    "accepted ?s1 |\<subseteq>| finsert (item_hash C sid (ItemFragment f)) (accepted s)"
    using accept_item_frame [of s C sid "ItemFragment f"] by auto
  have "batches ?s1 = batches s"
    using insert_fragment_frame [of s C sid f "[]"] by (simp add: accept_item_def accept_fragments_def)
  moreover have "item_hash C sid (ItemBatch b) |\<in>| accepted s"
    if "b \<in> P" "item_hash C sid (ItemBatch b) |\<in>| accepted ?s1" for b
    using fsubsetD [OF frame(3) that(2)] assms(2) [OF that(1)] by simp
  moreover have "ss_server_pks ?s1 = ss_server_pks s" using frame(1) by (simp add: same_identity_def)
  ultimately show ?thesis
    using assms(1) fsubsetD [OF frame(2)] by (simp add: matrix_ok_def)
qed

text \<open>A delivered relay that keeps the matrix in order, whatever the server does with it.\<close>

definition orderly ::
    "('p, 'q, 'o, 'z) set_codecs_scheme \<Rightarrow> bytes \<Rightarrow> receipt_batch set \<Rightarrow> 'p relay_msg \<Rightarrow> bool" where
  "orderly C sid P x \<longleftrightarrow>
     (case item x of
        ItemBatch b \<Rightarrow> b \<in> P \<and>
          (\<forall>b' \<in> P. item_hash C sid (ItemBatch b') = item_hash C sid (ItemBatch b) \<longrightarrow> row b' = row b)
      | ItemFragment f \<Rightarrow> (\<forall>b \<in> P. item_hash C sid (ItemBatch b) \<noteq> item_hash C sid (ItemFragment f)))"

lemma matrix_ok_absorb_one:
  assumes "matrix_ok C sid P s" "orderly C sid P x"
  shows "matrix_ok C sid P (fst (absorb_one C sid rnd x s))"
proof -
  have "matrix_ok C sid P (accept_item C sid (item x) s)"
  proof (cases "item x")
    case (ItemBatch b)
    then show ?thesis using assms(2) by (auto simp: orderly_def intro!: matrix_ok_batch [OF assms(1)])
  next
    case (ItemFragment f)
    then show ?thesis using assms(2) by (auto simp: orderly_def intro!: matrix_ok_fragment [OF assms(1)])
  qed
  then show ?thesis using assms(1) by (simp add: absorb_one_def Let_def)
qed

interpretation matrix: component "absorb_one C sid rnd" "\<lambda>x _. orderly C sid P x" "matrix_ok C sid P" "\<lambda>_. True"
  for C sid rnd P
  by unfold_locales (auto intro: matrix_ok_absorb_one)

lemma matrix_ok_absorb:
  assumes "matrix_ok C sid P s" "list_all (orderly C sid P) inc"
  shows "matrix_ok C sid P (fst (absorb C sid rnd inc s))"
proof -
  have all: "run_allowed (absorb_one C sid rnd) (\<lambda>x _. orderly C sid P x) xs s" if "list_all (orderly C sid P) xs" for xs s
    using that by (induction xs arbitrary: s) auto
  show ?thesis
    unfolding absorb_def using assms by (intro matrix.run_inv all) (auto simp: list_all_iff)
qed


lemma set_map_filter_iff: "y \<in> set (List.map_filter f xs) \<longleftrightarrow> (\<exists>x \<in> set xs. f x = Some y)"
  by (force simp: List.map_filter_def)

lemma as_batch_iff: "as_batch x = Some b \<longleftrightarrow> item x = ItemBatch b"
  by (auto simp: as_batch_def split: relay_item.splits)

lemma played_batches_iff:
  "b \<in> set (played_batches C sid inc pre honest rounds) \<longleftrightarrow>
     (\<exists>j \<in> set honest. (\<exists>x \<in> set (snd (originate C sid (pre j))). item x = ItemBatch b) \<or>
        (\<exists>r < rounds. \<exists>x \<in> set (inc (Suc r) j). item x = ItemBatch b))"
proof -
  have "(\<exists>x \<in> set (concat (map (\<lambda>r. inc (Suc r) j) [0..<rounds])). item x = ItemBatch b) \<longleftrightarrow>
      (\<exists>r < rounds. \<exists>x \<in> set (inc (Suc r) j). item x = ItemBatch b)" for j
    by auto
  then show ?thesis
    unfolding played_batches_def set_map_filter_iff as_batch_iff by (simp add: bex_Un)
qed

lemma single_facedD:
  assumes "single_faced C sid pks bs" "b \<in> set bs" "b' \<in> set bs"
    and "item_hash C sid (ItemBatch b) = item_hash C sid (ItemBatch b') \<or>
      batch_verify C sid pks b \<and> batch_verify C sid pks b' \<and> rb_server b = rb_server b'"
  shows "row b = row b'"
proof -
  note both = bspec [OF bspec [OF assms(1) [unfolded single_faced_def list_all_iff] assms(2)] assms(3)]
  from assms(4) show ?thesis
    by (rule disjE) (rule mp [OF conjunct1 [OF both]], assumption, rule mp [OF conjunct2 [OF both]], assumption)
qed

lemma fragments_apartD:
  assumes "fragments_apart C sid inc pre honest rounds h" "j \<in> set honest" "r < rounds" "x \<in> set (inc (Suc r) j)"
  shows "is_batch x \<or> item_hash C sid (item x) \<noteq> h"
proof -
  have r: "r \<in> set [0..<rounds]" using assms(3) by simp
  note all = bspec [OF assms(1) [unfolded fragments_apart_def list_all_iff] assms(2)]
  show ?thesis by (rule bspec [OF bspec [OF conjunct2 [OF conjunct2 [OF all]] r] assms(4)])
qed

text \<open>The hypotheses on a run, at one place.\<close>

definition orderly_run ::
    "('p, 'q, 'o, 'z) set_codecs_scheme \<Rightarrow> bytes list \<Rightarrow> bytes \<Rightarrow> (nat \<Rightarrow> server_id \<Rightarrow> 'p relay_msg list) \<Rightarrow>
     (server_id \<Rightarrow> ('p, 'q) set_server) \<Rightarrow> server_id list \<Rightarrow> nat \<Rightarrow> bool" where
  "orderly_run C pks sid inc pre honest rounds \<longleftrightarrow>
     honest_setup C pks pre honest \<and> fresh_servers pre honest \<and>
     synchronous C sid inc pre honest rounds \<and> unforged C pks sid inc pre honest rounds \<and>
     single_faced C sid pks (played_batches C sid inc pre honest rounds) \<and>
     list_all (\<lambda>b. fragments_apart C sid inc pre honest rounds (item_hash C sid (ItemBatch b)))
       (played_batches C sid inc pre honest rounds)"

lemma orderly_run_delivers:
  assumes "orderly_run C pks sid inc pre honest rounds" "j \<in> set honest" "r < rounds"
  shows "list_all (orderly C sid (set (played_batches C sid inc pre honest rounds))) (inc (Suc r) j)"
  unfolding list_all_iff
proof
  fix x assume x: "x \<in> set (inc (Suc r) j)"
  let ?P = "played_batches C sid inc pre honest rounds"
  show "orderly C sid (set ?P) x"
  proof (cases "item x")
    case (ItemBatch b)
    then have b: "b \<in> set ?P" using x assms(2,3) by (auto simp: played_batches_iff)
    have single: "single_faced C sid pks ?P" using assms(1) by (simp add: orderly_run_def)
    have "\<forall>b' \<in> set ?P. item_hash C sid (ItemBatch b') = item_hash C sid (ItemBatch b) \<longrightarrow> row b' = row b"
      by (intro ballI impI) (rule single_facedD [OF single _ b disjI1])
    with b show ?thesis unfolding orderly_def ItemBatch relay_item.case by (rule conjI)
  next
    case (ItemFragment f)
    have "item_hash C sid (ItemBatch b) \<noteq> item_hash C sid (ItemFragment f)" if "b \<in> set ?P" for b
    proof -
      have "fragments_apart C sid inc pre honest rounds (item_hash C sid (ItemBatch b))"
        using assms(1) that by (simp add: orderly_run_def list_all_iff)
      from fragments_apartD [OF this assms(2,3) x] show ?thesis by (auto simp: is_batch_def ItemFragment)
    qed
    then show ?thesis by (simp add: orderly_def ItemFragment)
  qed
qed

lemma orderly_run_matrix:
  assumes "set_signing_ok C" "orderly_run C pks sid inc pre honest rounds" "j \<in> set honest"
  shows "r \<le> rounds \<Longrightarrow>
    matrix_ok C sid (set (played_batches C sid inc pre honest rounds)) (relay_state C sid inc pre r j)"
proof (induction r)
  case 0
  let ?own = "batch_of C sid (pre j)"
  have me: "j < length pks" "ss_server_id (pre j) = j" "ss_server_pks (pre j) = pks"
      "sig_public C (ss_signer (pre j)) = pks ! j" "batches (pre j) = fmempty" "accepted (pre j) = {||}"
      "ss_fragments (pre j) = fmempty"
    using assms(2,3) by (auto simp: orderly_run_def honest_setup_def fresh_servers_def list_all_iff)
  have none: "fm_values (ss_fragments (pre j)) = []"
    using fm_keys_Nil_iff [of "ss_fragments (pre j)"] by (simp add: me(7) fm_values_def)
  have orig: "batches (fst (originate C sid (pre j))) = fmupd j ?own fmempty"
    "accepted (fst (originate C sid (pre j))) = {|item_hash C sid (ItemBatch ?own)|}"
    "ss_server_pks (fst (originate C sid (pre j))) = pks"
    "snd (originate C sid (pre j)) = [first_relay C sid (pre j) (ItemBatch ?own)]"
    by (simp_all add: originate_def Let_def me(1-6) none)
  have own: "?own \<in> set (played_batches C sid inc pre honest rounds)"
    using assms(3) by (auto simp: played_batches_iff orig(4) first_relay_def intro!: bexI [of _ j])
  moreover have "rb_server b = j"
    if "b \<in> set (played_batches C sid inc pre honest rounds)"
      "item_hash C sid (ItemBatch b) = item_hash C sid (ItemBatch ?own)" for b
  proof -
    have "row b = row ?own"
      using single_facedD [where C = C and sid = sid and pks = pks, OF _ that(1) own] that(2) assms(2)
      by (simp add: orderly_run_def)
    then show ?thesis by (simp add: row_def batch_of_def Let_def me(2))
  qed
  moreover have "batch_verify C sid pks ?own" using batch_of_verifies [of C "pre j" pks sid] assms(1) me by simp
  ultimately show ?case
    by (auto simp: matrix_ok_def orig(1-3) batch_of_def Let_def me(2) split: if_splits)
next
  case (Suc r)
  then show ?case using matrix_ok_absorb [OF _ orderly_run_delivers [OF assms(2,3)]] by simp
qed

lemma matrix_row_agrees:
  assumes "set_signing_ok C" "code pp = Some rs" "relay_rounds pp = Some rounds"
    and "orderly_run C pks sid inc pre honest rounds" "length pks = rs_n rs" "rs_k rs \<le> length honest"
    and "i \<in> set honest" "j \<in> set honest"
    and "fmlookup (batches (relay_state C sid inc pre rounds i)) l = Some b"
  shows "\<exists>b'. fmlookup (batches (relay_state C sid inc pre rounds j)) l = Some b' \<and> row b' = row b"
proof -
  let ?P = "set (played_batches C sid inc pre honest rounds)"
  let ?si = "relay_state C sid inc pre rounds i" and ?sj = "relay_state C sid inc pre rounds j"
  have oki: "matrix_ok C sid ?P ?si" and okj: "matrix_ok C sid ?P ?sj"
    using orderly_run_matrix [OF assms(1,4)] assms(7,8) by blast+
  have run: "honest_setup C pks pre honest" "synchronous C sid inc pre honest rounds"
    "unforged C pks sid inc pre honest rounds"
    using assms(4) by (simp_all add: orderly_run_def)
  have pks: "ss_server_pks ?si = pks" "ss_server_pks ?sj = pks"
    using relay_state_identity [of pre _ C sid inc rounds] run(1) assms(7,8)
    by (auto simp: same_identity_def honest_setup_def list_all_iff)
  have b: "b \<in> ?P" "batch_verify C sid pks b" "rb_server b = l" "item_hash C sid (ItemBatch b) |\<in>| accepted ?si"
    using oki assms(9) pks(1) by (auto simp: matrix_ok_def)
  have "fragments_apart C sid inc pre honest rounds (item_hash C sid (ItemBatch b))"
    using assms(4) b(1) by (simp add: orderly_run_def list_all_iff)
  then have "item_hash C sid (ItemBatch b) |\<in>| accepted ?sj"
    using relay_agreement [OF assms(1-3) run(1) assms(5,6) run(2,3) _ assms(7,8) b(4)] by simp
  then have "l |\<in>| fmdom (batches ?sj)" using okj b(1,3) by (auto simp: matrix_ok_def)
  then obtain b' where b': "fmlookup (batches ?sj) l = Some b'" by (auto simp: fmlookup_dom_iff)
  then have "b' \<in> ?P" "batch_verify C sid pks b'" "rb_server b' = l"
    using okj pks(2) by (auto simp: matrix_ok_def)
  then have "row b' = row b"
    using single_facedD [of C sid pks "played_batches C sid inc pre honest rounds" b' b] b(1-3) assms(4)
    by (simp add: orderly_run_def)
  with b' show ?thesis by blast
qed

text \<open>
  C9. Honest servers fix the same set: in a synchronous run with at most \<open>n - k\<close> misbehaving
  servers, no forged signature and no lane that signs two batches, any two honest servers
  include, exclude and report as conflicting the same clients, however the network ordered
  their messages, provided that they hold the same fragments after the relay rounds and held
  the same bulletins before them. The proviso on bulletins is one of the deployment and not
  ensured by the protocol: bulletins are not relayed, and a server excludes a reported client
  of which it saw no bulletin or two.
\<close>

theorem honest_sets_agree:
  assumes "set_signing_ok C" "code pp = Some rs" "relay_rounds pp = Some rounds"
    and "orderly_run C pks sid inc pre honest rounds" "length pks = rs_n rs" "rs_k rs \<le> length honest"
    and "i \<in> set honest" "j \<in> set honest" "bulletins (pre i) = bulletins (pre j)"
    and "ss_fragments (relay_state C sid inc pre rounds i) = ss_fragments (relay_state C sid inc pre rounds j)"
  shows "map_option verdict (finalize C pp key sid (relay_state C sid inc pre rounds i)) =
    map_option verdict (finalize C pp key' sid (relay_state C sid inc pre rounds j))"
proof (rule finalize_pool)
  let ?si = "relay_state C sid inc pre rounds i" and ?sj = "relay_state C sid inc pre rounds j"
  have "map_option row (fmlookup (batches ?si) l) = map_option row (fmlookup (batches ?sj) l)" for l
    using matrix_row_agrees [OF assms(1-6) assms(7,8), of l] matrix_row_agrees [OF assms(1-6) assms(8,7), of l]
    by (cases "fmlookup (batches ?si) l"; cases "fmlookup (batches ?sj) l") auto
  moreover have "ss_n_lanes ?si = ss_n_lanes ?sj" "ss_k ?si = ss_k ?sj" "bulletins ?si = bulletins ?sj"
    using relay_state_identity [of pre _ C sid inc rounds] assms(4,7-9)
    by (simp_all add: same_identity_def orderly_run_def fresh_servers_def list_all_iff)
  ultimately show "same_pool ?sj ?si" using assms(10) by (simp add: same_pool_def)
qed


text \<open>The run of \<open>Relaying\<close> in which lane 2 signs one batch and sends it to server 0 only.\<close>

definition demo_calm :: "nat \<Rightarrow> server_id \<Rightarrow> 40 word relay_msg list" where
  "demo_calm = demo_deliveries (\<lambda>i. if i = 0 then [two_faced demo_row] else [])"

lemma demo_calm_run: "orderly_run demo_set_codecs demo_pks [9] demo_calm demo_pre [0, 1] 2"
  by code_simp

lemma demo_calm_fragments:
  "ss_fragments (relay_state demo_set_codecs [9] demo_calm demo_pre 2 0) =
   ss_fragments (relay_state demo_set_codecs [9] demo_calm demo_pre 2 1)"
  by code_simp

lemma demo_calm_verdict:
  "map_option verdict (finalize demo_set_codecs (demo_params 2 3) [] [9]
     (relay_state demo_set_codecs [9] demo_calm demo_pre 2 0)) = Some ([7], [], [])"
  by code_simp

theorem honest_sets_agree_witness:
  "map_option verdict (finalize demo_set_codecs (demo_params 2 3) [1] [9]
     (relay_state demo_set_codecs [9] demo_calm demo_pre 2 1)) = Some ([7], [], [])"
proof -
  have "map_option verdict (finalize demo_set_codecs (demo_params 2 3) [] [9]
      (relay_state demo_set_codecs [9] demo_calm demo_pre 2 0)) =
    map_option verdict (finalize demo_set_codecs (demo_params 2 3) [1] [9]
      (relay_state demo_set_codecs [9] demo_calm demo_pre 2 1))"
    by (rule honest_sets_agree [OF demo_set_signing_ok demo_pp demo_calm_run _ _ _ _ _ demo_calm_fragments])
       (simp_all add: demo_pks_def demo_pre_def)
  then show ?thesis by (simp only: demo_calm_verdict)
qed

theorem set_within_budget_witness:
  "\<exists>A. A \<subseteq> {..<3} \<and> card A \<le> 1 \<and>
     (\<forall>l < 3. l \<in> A \<or> served demo_set_codecs (demo_params 2 3) [9]
       (relay_state demo_set_codecs [9] demo_calm demo_pre 2 0) 7 l)"
proof -
  define s where "s = relay_state demo_set_codecs [9] demo_calm demo_pre 2 0"
  obtain out where out: "finalize demo_set_codecs (demo_params 2 3) [] [9] s = Some out" "verdict out = ([7], [], [])"
    using demo_calm_verdict by (auto simp: s_def)
  have lanes: "ss_n_lanes s = 3" "ss_k s = 2"
    using relay_state_identity [of demo_pre 0 demo_set_codecs "[9]" demo_calm 2]
    by (simp_all add: s_def same_identity_def demo_pre_def)
  obtain A where "A \<subseteq> {..<3}" "card A \<le> 3 - 2"
    "\<forall>cid \<in> set (sr_set out). \<forall>l < 3. l \<in> A \<or> served demo_set_codecs (demo_params 2 3) [9] s cid l"
    using set_within_budget [OF out(1)] unfolding lanes by (elim exE conjE)
  then show ?thesis using out(2) unfolding s_def [symmetric] by (intro exI [of _ A]) (simp add: verdict_def)
qed

end
