(* ===== verification/Panetiere_Codecs.thy ===== *)
theory Panetiere_Codecs
  imports Observers Client_Set
begin

text \<open>
  What the Panetiere client and server sessions share (\<open>anymone-core/src/panetiere.rs\<close>):
  the data and functions of the panetiere crate they call, the bytes each message signs,
  session identifiers and client identifiers. A commitment, a share root, an aggregated
  key share, a lane opening and a plaintext polynomial are opaque values of the crate and
  are kept as their encodings.
\<close>

section \<open>Data of the panetiere crate\<close>

record bulletin_entry =
  comm :: bytes
  share_root :: bytes
  post_pubkey :: bytes
  post_sig :: bytes

record 'o server_entry =
  se_server :: server_id
  se_clients :: "client_id list"
  se_agg_open :: 'o
  se_agg_share :: bytes

record 'p node_entry =
  ne_node :: u32
  ne_clients :: "client_id list"
  ne_share_sum :: "'p list"
  ne_agg_open :: bytes

datatype verify_error =
    InvalidServerOpening usize
  | ShareOpeningMismatch usize
  | LaneOpeningFailed "u32 list"
  | OtherVerifyError

text \<open>
  The tuples are the \<open>bincode\<close> encodings of the signed fields. The channel functions are
  those of the subnet's channel parameters. \<open>hash_order\<close> is the order in which a hash map
  yields its keys, which the standard library leaves open.
\<close>

record ('p, 'q, 'o) pan_codecs = "('p, 'q, 'o) set_codecs" +
  wire :: wire_codecs
  wire_to_bytes :: "panetiere_wire \<Rightarrow> bytes"
  client_public_tuple :: "u64 \<Rightarrow> u32 \<Rightarrow> bytes \<Rightarrow> bytes"
  client_lane_tuple :: "u64 \<Rightarrow> u32 \<Rightarrow> u32 \<Rightarrow> bytes \<Rightarrow> bytes"
  client_slice_tuple :: "u64 \<Rightarrow> u32 \<Rightarrow> u32 \<Rightarrow> bytes \<Rightarrow> bytes \<Rightarrow> bytes"
  entry_packed_len :: usize
  entry_to_bytes :: "bulletin_entry \<Rightarrow> bytes"
  entry_of_bytes :: "bytes \<Rightarrow> bulletin_entry option"
  entry_signing_bytes :: "bytes \<Rightarrow> client_id \<Rightarrow> bytes \<Rightarrow> bytes \<Rightarrow> bytes"
  opening_of_packed :: "bytes \<Rightarrow> 'o option"
  pack_opening :: "u32 \<Rightarrow> 'o \<Rightarrow> bytes"
  pack_cs_shares :: "bytes list \<Rightarrow> bytes"
  lane_open_of_bytes :: "share_commitment_params \<Rightarrow> usize \<Rightarrow> bytes \<Rightarrow> bytes option"
  lane_open_to_bytes :: "share_commitment_params \<Rightarrow> bytes \<Rightarrow> bytes option"
  run_server_round :: "server_id \<Rightarrow> (client_id \<times> 'o) list \<Rightarrow> client_id list \<Rightarrow> 'o server_entry option"
  run_rs_node_round ::
    "share_commitment_params \<Rightarrow> u32 \<Rightarrow> (client_id \<times> 'p list \<times> 'q share_path) list \<Rightarrow> client_id list \<Rightarrow>
     (client_id \<times> bytes) list \<Rightarrow> 'p node_entry option"
  aggregate_and_decrypt_rs ::
    "bytes \<Rightarrow> client_id list \<Rightarrow> (client_id \<times> bulletin_entry) list \<Rightarrow> 'o server_entry list \<Rightarrow>
     'p node_entry list \<Rightarrow> verify_error + bytes list"
  decode_messages :: "bytes list \<Rightarrow> bytes list option"
  hash_order :: "u32 list \<Rightarrow> u32 list"

section \<open>Signed bytes\<close>

definition client_public_signing_bytes ::
    "('p, 'q, 'o, 'z) pan_codecs_scheme \<Rightarrow> u64 \<Rightarrow> u32 \<Rightarrow> bytes \<Rightarrow> bytes" where
  "client_public_signing_bytes C r cid entry =
     ascii ''anymone/panetiere/client-public'' @ client_public_tuple C r cid entry"

definition client_opening_signing_bytes ::
    "('p, 'q, 'o, 'z) pan_codecs_scheme \<Rightarrow> u64 \<Rightarrow> u32 \<Rightarrow> u32 \<Rightarrow> bytes \<Rightarrow> bytes" where
  "client_opening_signing_bytes C r cid target sealed =
     ascii ''anymone/panetiere/client-opening'' @ client_lane_tuple C r cid target sealed"

definition client_slice_signing_bytes ::
    "('p, 'q, 'o, 'z) pan_codecs_scheme \<Rightarrow> u64 \<Rightarrow> u32 \<Rightarrow> u32 \<Rightarrow> bytes \<Rightarrow> bytes \<Rightarrow> bytes" where
  "client_slice_signing_bytes C r cid lane share path =
     ascii ''anymone/panetiere/client-slice'' @ client_slice_tuple C r cid lane share path"

definition client_bundle_signing_bytes ::
    "('p, 'q, 'o, 'z) pan_codecs_scheme \<Rightarrow> u64 \<Rightarrow> u32 \<Rightarrow> u32 \<Rightarrow> bytes \<Rightarrow> bytes" where
  "client_bundle_signing_bytes C r cid lane dat =
     ascii ''anymone/panetiere/client-bundle'' @ client_lane_tuple C r cid lane dat"

definition client_fragment_signing_bytes ::
    "('p, 'q, 'o, 'z) pan_codecs_scheme \<Rightarrow> u64 \<Rightarrow> u32 \<Rightarrow> u32 \<Rightarrow> bytes \<Rightarrow> bytes" where
  "client_fragment_signing_bytes C r cid target dat =
     ascii ''anymone/panetiere/client-fragment'' @ client_lane_tuple C r cid target dat"

section \<open>Identifiers, sizes and rosters\<close>

definition session_id :: "'z crypto_scheme \<Rightarrow> bytes \<Rightarrow> round \<Rightarrow> bytes" where
  "session_id C setup_seed r =
     sha256 C (ascii ''anymone/panetiere/sid'' @ setup_seed @ le_bytes 8 r)"

definition client_id_from_pubkey :: "pubkey \<Rightarrow> client_id" where
  "client_id_from_pubkey pk = from_be_bytes (take 4 (pubkey_bytes pk))"

definition server_index :: "pubkey list \<Rightarrow> pubkey \<Rightarrow> u32 option" where
  "server_index peers pk = map_option as_u32 (position (\<lambda>p. p = pk) (sort peers))"

definition slice_wire_lens :: "('p, 'q, 'o, 'z) set_codecs_scheme \<Rightarrow> protocol_params \<Rightarrow> usize \<times> usize" where
  "slice_wire_lens C pp =
     (case share_comm pp of
        None \<Rightarrow> (0, 0)
      | Some scp \<Rightarrow> (block_len scp * poly_packed_len C, path_packed_len C (n_lanes scp)))"

definition pan_verify_batch ::
    "('p, 'q, 'o, 'z) set_codecs_scheme \<Rightarrow> bytes \<Rightarrow> receipt_batch \<Rightarrow> bytes list \<Rightarrow> bool" where
  "pan_verify_batch C sid b set_pks =
     is_some_and
       (\<lambda>vk. sig_verify C vk (batch_signing_bytes sid (rb_server b) (rb_receipts b)) (rb_sig b))
       (slice_get set_pks (rb_server b))"

definition set_roster ::
    "('p, 'q, 'o, 'z) set_codecs_scheme \<Rightarrow> (pubkey \<times> xk_wire) list \<Rightarrow> pubkey list \<Rightarrow> bytes list option" where
  "set_roster C relay_xk peers =
     (let keys = roster_keys peers relay_xk
            (\<lambda>xk. if sig_key_valid C (set_sig xk) then Some (set_sig xk) else None)
      in if length keys = length peers then Some (map snd keys) else None)"

definition pack_agg_share :: "('p, 'q, 'o, 'z) pan_codecs_scheme \<Rightarrow> bytes \<Rightarrow> bytes" where
  "pack_agg_share C share = pack_cs_shares C [share]"

definition K_BATCH :: nat where "K_BATCH = 2"

definition K_REPAIR :: nat where "K_REPAIR = 3"

definition PANETIERE_ROUND_RETENTION :: u64 where "PANETIERE_ROUND_RETENTION = 4"

section \<open>Runs that may panic\<close>

text \<open>
  A step that panics or does not return is \<open>None\<close>. \<open>run_steps\<close> performs the operations of
  a list in order and collects what they emit.
\<close>

primrec run_steps ::
    "('op \<Rightarrow> 's \<Rightarrow> ('s \<times> 'x list) option) \<Rightarrow> 'op list \<Rightarrow> 's \<Rightarrow> ('s \<times> 'x list) option" where
  "run_steps step [] s = Some (s, [])"
| "run_steps step (op # ops) s =
     do {
       (s1, xs) \<leftarrow> step op s;
       (s2, ys) \<leftarrow> run_steps step ops s1;
       Some (s2, xs @ ys)
     }"

lemma run_steps_ConsE:
  assumes "run_steps step (op # ops) s = Some (s2, zs)"
  obtains s1 xs ys where "step op s = Some (s1, xs)" "run_steps step ops s1 = Some (s2, ys)"
    "zs = xs @ ys"
  using assms by (auto simp: bind_eq_Some_conv split: prod.splits)

lemma run_steps_Cons_Some:
  "step op s = Some (s1, xs) \<Longrightarrow> run_steps step ops s1 = Some (s2, ys) \<Longrightarrow>
   run_steps step (op # ops) s = Some (s2, xs @ ys)"
  by simp

declare run_steps.simps(2) [simp del]

text \<open>
  The contract of a machine that may panic: no operation panics while the invariant
  holds, operations keep it, and what they emit has a given property.
\<close>

locale machine =
  fixes step :: "'op \<Rightarrow> 's \<Rightarrow> ('s \<times> 'x list) option"
    and inv :: "'s \<Rightarrow> bool"
    and good :: "'x \<Rightarrow> bool"
  assumes step_returns: "inv s \<Longrightarrow> \<exists>s' xs. step op s = Some (s', xs)"
    and step_inv: "inv s \<Longrightarrow> step op s = Some (s', xs) \<Longrightarrow> inv s'"
    and step_good: "inv s \<Longrightarrow> step op s = Some (s', xs) \<Longrightarrow> x \<in> set xs \<Longrightarrow> good x"
begin

lemma run_returns: "inv s \<Longrightarrow> \<exists>s' xs. run_steps step ops s = Some (s', xs)"
proof (induction ops arbitrary: s)
  case (Cons op ops)
  then obtain s1 xs where 1: "step op s = Some (s1, xs)" using step_returns by blast
  then obtain s2 ys where "run_steps step ops s1 = Some (s2, ys)"
    using Cons step_inv by blast
  then show ?case using run_steps_Cons_Some [of step, OF 1] by blast
qed simp

lemma run_inv: "inv s \<Longrightarrow> run_steps step ops s = Some (s', xs) \<Longrightarrow> inv s'"
  by (induction ops arbitrary: s xs) (auto elim!: run_steps_ConsE dest: step_inv)

lemma run_good: "inv s \<Longrightarrow> run_steps step ops s = Some (s', xs) \<Longrightarrow> x \<in> set xs \<Longrightarrow> good x"
proof (induction ops arbitrary: s xs)
  case (Cons op ops)
  from Cons.prems(2) obtain s1 us vs where "step op s = Some (s1, us)"
    "run_steps step ops s1 = Some (s', vs)" "xs = us @ vs"
    by (rule run_steps_ConsE)
  then show ?case using Cons step_good step_inv by (metis Un_iff set_append)
qed simp

end

end
