(* ===== verification/Panetiere_Server.thy ===== *)
theory Panetiere_Server
  imports Panetiere_Codecs
begin

text \<open>
  The server session of a Panetiere subnet (\<open>PanetiereServerSession\<close> of
  \<open>anymone-core/src/panetiere.rs\<close>): per-round buckets of client contributions and peer
  shares, the leader's announcement, the relay's own share, decoding, and the bookkeeping
  of consensus set formation. An operation that would panic, or a decode loop that would
  not end, is \<open>None\<close>. Logging is not modelled.
\<close>

section \<open>State\<close>

record ('p, 'q, 'o) round_state =
  publics :: "(client_id, bulletin_entry) fmap"
  inbox :: "(client_id \<times> 'o) list"
  lane_shares :: "(client_id \<times> 'p list \<times> 'q share_path) list"
  peer_server_publics :: "(server_id, 'o server_entry) fmap"
  peer_lane_sums :: "(u32, 'p node_entry \<times> bytes) fmap"
  emitted_my_public :: bool
  is_decoded :: bool
  owners :: "(client_id, pubkey) fmap"
  rejected :: "client_id fset"
  set_state :: "('p, 'q) set_server option"
  pending_bulletins :: "(client_id \<times> bytes) list"
  relay_buf :: "'p relay_msg list"
  finalized :: bool

definition empty_round :: "('p, 'q, 'o) round_state" where
  "empty_round =
     \<lparr>publics = fmempty, inbox = [], lane_shares = [], peer_server_publics = fmempty,
      peer_lane_sums = fmempty, emitted_my_public = False, is_decoded = False, owners = fmempty,
      rejected = {||}, set_state = None, pending_bulletins = [], relay_buf = [], finalized = False\<rparr>"

datatype set_mode =
    ModeLeader
  | ModeFollower peer_id
  | ModeSelfDerived
  | ModeConsensus peer_id

record ('p, 'q, 'o) pan_server =
  sv_pp :: protocol_params
  sv_shamir_t :: usize
  sv_server_id :: server_id
  sv_identity :: identity
  sv_mode :: set_mode
  server_pubkeys :: "(server_id, pubkey) fmap"
  rounds :: "(round, ('p, 'q, 'o) round_state) fmap"
  client_set_by_round :: "(round, client_id list) fmap"
  announced_rounds :: "round fset"
  sv_misbehavior :: "misbehavior option"
  sv_cur_round :: "round option"
  sv_first_round :: "round option"
  sv_client_set_max :: usize
  sv_setup_seed :: bytes
  good_clients :: "pubkey \<Rightarrow> bool"
  set_keys :: "(bytes \<times> bytes list) option"

definition new_pan_server ::
    "protocol_params \<Rightarrow> usize \<Rightarrow> server_id \<Rightarrow> identity \<Rightarrow> set_mode \<Rightarrow> (server_id, pubkey) fmap \<Rightarrow>
     ('p, 'q, 'o) pan_server" where
  "new_pan_server pp t i ident mode pks =
     \<lparr>sv_pp = pp, sv_shamir_t = t, sv_server_id = i, sv_identity = ident, sv_mode = mode,
      server_pubkeys = pks, rounds = fmempty, client_set_by_round = fmempty, announced_rounds = {||},
      sv_misbehavior = None, sv_cur_round = None, sv_first_round = None, sv_client_set_max = U64_MAX,
      sv_setup_seed = replicate 32 0, good_clients = (\<lambda>_. True), set_keys = None\<rparr>"

definition consensus :: "('p, 'q, 'o) pan_server \<Rightarrow> bool" where
  "consensus s \<longleftrightarrow> (case sv_mode s of ModeConsensus _ \<Rightarrow> True | _ \<Rightarrow> False) \<and> set_keys s \<noteq> None"

definition publishes :: "'z crypto_scheme \<Rightarrow> ('p, 'q, 'o) pan_server \<Rightarrow> bool" where
  "publishes C s =
     (case sv_mode s of
        ModeLeader \<Rightarrow> True
      | ModeConsensus publisher \<Rightarrow> publisher = identity_pubkey C (sv_identity s)
      | ModeFollower _ \<Rightarrow> False
      | ModeSelfDerived \<Rightarrow> False)"

text \<open>\<open>rounds.entry(r).or_default()\<close> and the write back to it.\<close>

definition bucket_at :: "round \<Rightarrow> ('p, 'q, 'o) pan_server \<Rightarrow> ('p, 'q, 'o) round_state" where
  "bucket_at r s = (case fmlookup (rounds s) r of Some b \<Rightarrow> b | None \<Rightarrow> empty_round)"

definition put_bucket ::
    "round \<Rightarrow> ('p, 'q, 'o) round_state \<Rightarrow> ('p, 'q, 'o) pan_server \<Rightarrow> ('p, 'q, 'o) pan_server" where
  "put_bucket r b s = s\<lparr>rounds := fmupd r b (rounds s)\<rparr>"

definition sid_of :: "'z crypto_scheme \<Rightarrow> round \<Rightarrow> ('p, 'q, 'o) pan_server \<Rightarrow> bytes" where
  "sid_of C r s = session_id C (sv_setup_seed s) r"

section \<open>Admission\<close>

datatype admit = Admitted | AtCapacity | NotOwner

definition admit_client ::
    "(client_id, pubkey) fmap \<Rightarrow> client_id \<Rightarrow> pubkey \<Rightarrow> usize \<Rightarrow> (client_id, pubkey) fmap \<times> admit" where
  "admit_client own cid from cap =
     (if client_id_from_pubkey from \<noteq> cid then (own, NotOwner)
      else case fmlookup own cid of
             Some owner \<Rightarrow> if owner = from then (own, Admitted) else (own, NotOwner)
           | None \<Rightarrow>
               if cap \<le> fm_size own then (own, AtCapacity)
               else (fmupd cid from own, Admitted))"

text \<open>The \<open>match admit_client\<close> every client message starts with; the flag says to go on.\<close>

definition admit_to ::
    "client_id \<Rightarrow> pubkey \<Rightarrow> usize \<Rightarrow> ('p, 'q, 'o) round_state \<Rightarrow> ('p, 'q, 'o) round_state \<times> bool" where
  "admit_to cid from cap b =
     (case admit_client (owners b) cid from cap of
        (own, Admitted) \<Rightarrow> (b\<lparr>owners := own\<rparr>, True)
      | (own, AtCapacity) \<Rightarrow>
          (if fcard (rejected b) < saturating_mul cap 4
           then b\<lparr>rejected := finsert cid (rejected b)\<rparr> else b, False)
      | (own, NotOwner) \<Rightarrow> (b, False))"

definition accept_client ::
    "'z crypto_scheme \<Rightarrow> pubkey \<Rightarrow> bytes \<Rightarrow> bytes \<Rightarrow> ('p, 'q, 'o) pan_server \<Rightarrow> bool" where
  "accept_client C pk sg msg s \<longleftrightarrow> verify C pk msg sg \<and> good_clients s pk"

definition admission_cap :: "('p, 'q, 'o) pan_server \<Rightarrow> usize" where
  "admission_cap s = saturating_mul (sv_client_set_max s) 2"

section \<open>Client messages\<close>

definition post_valid ::
    "('p, 'q, 'o, 'z) pan_codecs_scheme \<Rightarrow> bytes \<Rightarrow> client_id \<Rightarrow> bulletin_entry \<Rightarrow> bool" where
  "post_valid C sid cid e \<longleftrightarrow>
     sig_key_valid C (post_pubkey e) \<and>
     sig_verify C (post_pubkey e) (entry_signing_bytes C sid cid (comm e) (share_root e)) (post_sig e)"

definition file_public ::
    "client_id \<Rightarrow> bulletin_entry \<Rightarrow> ('p, 'q, 'o) round_state \<Rightarrow> ('p, 'q, 'o) round_state" where
  "file_public cid e b =
     b\<lparr>set_state := map_option (note_bulletin cid (post_pubkey e)) (set_state b),
       pending_bulletins := pending_bulletins b @ [(cid, post_pubkey e)],
       publics := fmupd cid e (publics b)\<rparr>"

definition on_client_public ::
    "('p, 'q, 'o, 'z) pan_codecs_scheme \<Rightarrow> round \<Rightarrow> client_id \<Rightarrow> bytes \<Rightarrow> pubkey \<Rightarrow> bytes \<Rightarrow>
     ('p, 'q, 'o) pan_server \<Rightarrow> ('p, 'q, 'o) pan_server" where
  "on_client_public C r cid entry pk sg s =
     (if length entry \<noteq> entry_packed_len C then s
      else if \<not> accept_client C pk sg (client_public_signing_bytes C r cid entry) s then s
      else
        (let (b, go) = admit_to cid pk (admission_cap s) (bucket_at r s)
         in put_bucket r
              (if \<not> go then b
               else case entry_of_bytes C entry of
                      None \<Rightarrow> b
                    | Some e \<Rightarrow> if post_valid C (sid_of C r s) cid e then file_public cid e b else b)
              s))"

definition on_opening ::
    "('p, 'q, 'o, 'z) pan_codecs_scheme \<Rightarrow> round \<Rightarrow> client_id \<Rightarrow> server_id \<Rightarrow> bytes \<Rightarrow> pubkey \<Rightarrow> bytes \<Rightarrow>
     ('p, 'q, 'o) pan_server \<Rightarrow> ('p, 'q, 'o) pan_server" where
  "on_opening C r cid target sealed pk sg s =
     (if target \<noteq> sv_server_id s then s
      else if \<not> accept_client C pk sg (client_opening_signing_bytes C r cid target sealed) s then s
      else
        (let (b, go) = admit_to cid pk (admission_cap s) (bucket_at r s)
         in put_bucket r
              (if \<not> go then b
               else case unseal_opening C (exchange (sv_identity s)) (sid_of C r s) cid (sv_server_id s) sealed of
                      None \<Rightarrow> b
                    | Some opening \<Rightarrow>
                        if cid \<in> fst ` set (inbox b) then b
                        else b\<lparr>inbox := inbox b @ [(cid, opening)]\<rparr>)
              s))"

definition parse_slice ::
    "('p, 'q, 'o, 'z) set_codecs_scheme \<Rightarrow> protocol_params \<Rightarrow> u32 \<Rightarrow> bytes \<Rightarrow> bytes \<Rightarrow>
     ('p list \<times> 'q share_path) option" where
  "parse_slice C pp lane share path =
     do {
       scp \<leftarrow> share_comm pp;
       sh \<leftarrow> unpack_share C share (block_len scp);
       pa \<leftarrow> path_from_bytes C scp lane path;
       Some (sh, pa)
     }"

definition on_client_slice ::
    "('p, 'q, 'o, 'z) pan_codecs_scheme \<Rightarrow> round \<Rightarrow> client_id \<Rightarrow> u32 \<Rightarrow> bytes \<Rightarrow> bytes \<Rightarrow> pubkey \<Rightarrow> bytes \<Rightarrow>
     ('p, 'q, 'o) pan_server \<Rightarrow> ('p, 'q, 'o) pan_server" where
  "on_client_slice C r cid lane share path pk sg s =
     (if lane \<noteq> sv_server_id s then s
      else if \<not> accept_client C pk sg (client_slice_signing_bytes C r cid lane share path) s then s
      else if (length share, length path) \<noteq> slice_wire_lens C (sv_pp s) then s
      else
        (let (b, go) = admit_to cid pk (admission_cap s) (bucket_at r s)
         in put_bucket r
              (if \<not> go \<or> cid \<in> fst ` set (lane_shares b) then b
               else case parse_slice C (sv_pp s) lane share path of
                      None \<Rightarrow> b
                    | Some (sh, pa) \<Rightarrow> b\<lparr>lane_shares := lane_shares b @ [(cid, sh, pa)]\<rparr>)
              s))"

section \<open>Peer shares\<close>

text \<open>The two halves of a share, parsed; the inner option is a message that is dropped.\<close>

definition parse_server_public ::
    "('p, 'q, 'o, 'z) pan_codecs_scheme \<Rightarrow> protocol_params \<Rightarrow> server_id \<Rightarrow> client_id list \<Rightarrow> bytes \<Rightarrow> bytes \<Rightarrow>
     bytes \<Rightarrow> bytes \<Rightarrow> ('o server_entry \<times> 'p node_entry) option option" where
  "parse_server_public C pp i cids agg_open agg_share share_sum lane_open =
     (case packed_mu_cs (wire C) agg_open of
        None \<Rightarrow> Some None
      | Some n_shares \<Rightarrow>
          (case opening_of_packed C agg_open of
             None \<Rightarrow> Some None
           | Some opening \<Rightarrow>
               (case unpack_cs_shares (wire C) agg_share n_shares of
                  Some [cs_share] \<Rightarrow>
                    (case share_comm pp of
                       None \<Rightarrow> None
                     | Some scp \<Rightarrow>
                         Some (do {
                           lane_sum \<leftarrow> unpack_share C share_sum (block_len scp);
                           lane_opening \<leftarrow> lane_open_of_bytes C scp i lane_open;
                           Some (\<lparr>se_server = i, se_clients = cids, se_agg_open = opening,
                                  se_agg_share = cs_share\<rparr>,
                                 \<lparr>ne_node = i, ne_clients = cids, ne_share_sum = lane_sum,
                                  ne_agg_open = lane_opening\<rparr>)
                         }))
                | _ \<Rightarrow> Some None)))"

definition on_peer_share ::
    "('p, 'q, 'o, 'z) pan_codecs_scheme \<Rightarrow> peer_id \<Rightarrow> bytes \<Rightarrow> round \<Rightarrow> server_id \<Rightarrow> client_id list \<Rightarrow> bytes \<Rightarrow>
     bytes \<Rightarrow> bytes \<Rightarrow> bytes \<Rightarrow> bytes \<Rightarrow> ('p, 'q, 'o) pan_server \<Rightarrow> ('p, 'q, 'o) pan_server option" where
  "on_peer_share C from payload r i cids agg_open agg_share share_sum lane_open sg s =
     (case fmlookup (server_pubkeys s) i of
        None \<Rightarrow> Some s
      | Some expected \<Rightarrow>
          if from \<noteq> expected \<or>
             \<not> verify C expected
               (server_public_signing_bytes (wire C) r i cids agg_open agg_share share_sum lane_open) sg
          then Some s
          else
            map_option
              (\<lambda>parsed. case parsed of
                 None \<Rightarrow> s
               | Some (se, ne) \<Rightarrow>
                   (let b = bucket_at r s
                    in put_bucket r
                         (b\<lparr>peer_server_publics := fmupd i se (peer_server_publics b),
                            peer_lane_sums := fmupd i (ne, payload) (peer_lane_sums b)\<rparr>) s))
              (parse_server_public C (sv_pp s) i cids agg_open agg_share share_sum lane_open))"

section \<open>Messages of set formation\<close>

text \<open>\<open>bucket.set.get_or_insert_with\<close>: \<open>None\<close> is a failed assertion of \<open>SetServer::new\<close>.\<close>

definition set_server_of ::
    "('p, 'q, 'o) pan_server \<Rightarrow> ('p, 'q, 'o) round_state \<Rightarrow> ('p, 'q) set_server option" where
  "set_server_of s b =
     (case set_state b of
        Some ss \<Rightarrow> Some ss
      | None \<Rightarrow>
          (case set_keys s of
             None \<Rightarrow> None
           | Some (sk, pks) \<Rightarrow> new_set_server (sv_pp s) (sv_server_id s) sk pks))"

definition relay_wire ::
    "('p, 'q, 'o, 'z) pan_codecs_scheme \<Rightarrow> round \<Rightarrow> 'p relay_msg list \<Rightarrow> bytes list" where
  "relay_wire C r items = map (\<lambda>m. wire_to_bytes C (SetRelay r (relay_pack C m))) items"

definition on_bundle ::
    "('p, 'q, 'o, 'z) pan_codecs_scheme \<Rightarrow> round \<Rightarrow> client_id \<Rightarrow> u32 \<Rightarrow> bytes \<Rightarrow> pubkey \<Rightarrow> bytes \<Rightarrow>
     ('p, 'q, 'o) pan_server \<Rightarrow> ('p, 'q, 'o) pan_server option" where
  "on_bundle C r cid lane dat pk sg s =
     (if lane \<noteq> sv_server_id s \<or> \<not> consensus s then Some s
      else if \<not> accept_client C pk sg (client_bundle_signing_bytes C r cid lane dat) s then Some s
      else case share_comm (sv_pp s) of
             None \<Rightarrow> Some s
           | Some scp \<Rightarrow>
               (case bundle_unpack C scp cid dat of
                  None \<Rightarrow> Some s
                | Some (bundle, used) \<Rightarrow>
                    if used \<noteq> length dat then Some s
                    else
                      (let (b, go) = admit_to cid pk (admission_cap s) (bucket_at r s)
                       in if \<not> go then Some (put_bucket r b s)
                          else
                            map_option
                              (\<lambda>ss. put_bucket r (b\<lparr>set_state := Some (fst (receive C (sid_of C r s) bundle ss))\<rparr>) s)
                              (set_server_of s b))))"

definition on_set_fragment ::
    "('p, 'q, 'o, 'z) pan_codecs_scheme \<Rightarrow> round \<Rightarrow> client_id \<Rightarrow> server_id \<Rightarrow> bytes \<Rightarrow> pubkey \<Rightarrow> bytes \<Rightarrow>
     ('p, 'q, 'o) pan_server \<Rightarrow> (('p, 'q, 'o) pan_server \<times> bytes list) option" where
  "on_set_fragment C r cid target dat pk sg s =
     (if target \<noteq> sv_server_id s \<or> \<not> consensus s then Some (s, [])
      else if \<not> accept_client C pk sg (client_fragment_signing_bytes C r cid target dat) s
      then Some (s, [])
      else case fragment_unpack C dat of
             None \<Rightarrow> Some (s, [])
           | Some f \<Rightarrow>
               if f_client f \<noteq> cid then Some (s, [])
               else
                 (let (b, go) = admit_to cid pk (admission_cap s) (bucket_at r s)
                  in if \<not> go then Some (put_bucket r b s, [])
                     else
                       map_option
                         (\<lambda>ss. let (ss1, fresh) = submit C (sid_of C r s) [f] ss
                               in (put_bucket r (b\<lparr>set_state := Some ss1\<rparr>) s, relay_wire C r fresh))
                         (set_server_of s b)))"

definition RELAY_BUF_MAX :: usize where "RELAY_BUF_MAX = 4096"

definition on_set_relay ::
    "('p, 'q, 'o, 'z) pan_codecs_scheme \<Rightarrow> round \<Rightarrow> bytes \<Rightarrow> ('p, 'q, 'o) pan_server \<Rightarrow>
     ('p, 'q, 'o) pan_server" where
  "on_set_relay C r dat s =
     (if \<not> consensus s then s
      else case relay_unpack C dat of
             None \<Rightarrow> s
           | Some m \<Rightarrow>
               (let b = bucket_at r s
                in put_bucket r
                     (if length (relay_buf b) < RELAY_BUF_MAX then b\<lparr>relay_buf := relay_buf b @ [m]\<rparr> else b) s))"

definition on_client_set ::
    "peer_id \<Rightarrow> round \<Rightarrow> client_id list \<Rightarrow> ('p, 'q, 'o) pan_server \<Rightarrow> ('p, 'q, 'o) pan_server" where
  "on_client_set from r cids s =
     (case sv_mode s of
        ModeFollower leader \<Rightarrow>
          if from \<noteq> leader then s
          else if sv_client_set_max s < length cids then s
          else if r |\<in>| fmdom (client_set_by_round s) then s
          else s\<lparr>client_set_by_round := fmupd r cids (client_set_by_round s)\<rparr>
      | _ \<Rightarrow> s)"

section \<open>Events of the session\<close>

definition sv_begin_round :: "round \<Rightarrow> ('p, 'q, 'o) pan_server \<Rightarrow> ('p, 'q, 'o) pan_server" where
  "sv_begin_round r s =
     s\<lparr>sv_first_round := (case sv_first_round s of None \<Rightarrow> Some r | f \<Rightarrow> f), sv_cur_round := Some r\<rparr>"

definition sv_dispatch ::
    "('p, 'q, 'o, 'z) pan_codecs_scheme \<Rightarrow> peer_id \<Rightarrow> bytes \<Rightarrow> panetiere_wire \<Rightarrow> ('p, 'q, 'o) pan_server \<Rightarrow>
     (('p, 'q, 'o) pan_server \<times> bytes list) option" where
  "sv_dispatch C from payload m s =
     (case m of
        ClientPublic r cid entry pk sg \<Rightarrow> Some (on_client_public C r cid entry pk sg s, [])
      | Opening r cid target sealed pk sg \<Rightarrow> Some (on_opening C r cid target sealed pk sg s, [])
      | ClientSlice r cid lane share path pk sg \<Rightarrow>
          Some (on_client_slice C r cid lane share path pk sg s, [])
      | ServerPublic r i cids agg_open agg_share share_sum lane_open sg \<Rightarrow>
          map_option (\<lambda>s1. (s1, []))
            (on_peer_share C from payload r i cids agg_open agg_share share_sum lane_open sg s)
      | Bundle r cid lane dat pk sg \<Rightarrow> map_option (\<lambda>s1. (s1, [])) (on_bundle C r cid lane dat pk sg s)
      | SetFragment r cid target dat pk sg \<Rightarrow> on_set_fragment C r cid target dat pk sg s
      | SetBatch _ _ \<Rightarrow> Some (s, [])
      | SetRelay r dat \<Rightarrow> Some (on_set_relay C r dat s, [])
      | Decoded _ _ \<Rightarrow> Some (s, [])
      | Reservations _ _ _ \<Rightarrow> Some (s, [])
      | ClientSet r cids _ \<Rightarrow> Some (on_client_set from r cids s, []))"

definition in_scope :: "round \<Rightarrow> ('p, 'q, 'o) pan_server \<Rightarrow> bool" where
  "in_scope r s \<longleftrightarrow>
     round_in_window r (sv_cur_round s) \<and> \<not> is_some_and (\<lambda>f. r < f) (sv_first_round s)"

definition sv_on_inbound ::
    "('p, 'q, 'o, 'z) pan_codecs_scheme \<Rightarrow> peer_id \<Rightarrow> bytes \<Rightarrow> ('p, 'q, 'o) pan_server \<Rightarrow>
     (('p, 'q, 'o) pan_server \<times> bytes list) option" where
  "sv_on_inbound C from payload s =
     (case pan_wire_of_bytes (wire C) payload of
        None \<Rightarrow> Some (s, [])
      | Some m \<Rightarrow> if in_scope (wire_round m) s then sv_dispatch C from payload m s else Some (s, []))"

section \<open>Checkpoints\<close>

definition publish_batch ::
    "('p, 'q, 'o, 'z) pan_codecs_scheme \<Rightarrow> round \<Rightarrow> ('p, 'q, 'o) pan_server \<Rightarrow>
     ('p, 'q, 'o) pan_server \<times> bytes list" where
  "publish_batch C r s =
     (case fmlookup (rounds s) r of
        None \<Rightarrow> (s, [])
      | Some b0 \<Rightarrow>
          (let posted = pending_bulletins b0;
               b = b0\<lparr>pending_bulletins := []\<rparr>
           in case set_state b of
                None \<Rightarrow> (put_bucket r b s, [])
              | Some ss0 \<Rightarrow>
                  (let ss = fold (\<lambda>(cid, pk). note_bulletin cid pk) posted ss0;
                       batch = batch_of C (sid_of C r s) ss;
                       (ss1, items) = originate C (sid_of C r s) ss
                   in (put_bucket r (b\<lparr>set_state := Some ss1\<rparr>) s,
                       wire_to_bytes C (SetBatch r (batch_pack batch)) # relay_wire C r items))))"

definition absorb_relays ::
    "('p, 'q, 'o, 'z) pan_codecs_scheme \<Rightarrow> round \<Rightarrow> usize \<Rightarrow> ('p, 'q, 'o) pan_server \<Rightarrow>
     ('p, 'q, 'o) pan_server \<times> bytes list" where
  "absorb_relays C r ds_round s =
     (case fmlookup (rounds s) r of
        None \<Rightarrow> (s, [])
      | Some b0 \<Rightarrow>
          (let b = b0\<lparr>relay_buf := []\<rparr>
           in case set_state b of
                None \<Rightarrow> (put_bucket r b s, [])
              | Some ss \<Rightarrow>
                  (let (ss1, items) = absorb C (sid_of C r s) ds_round (relay_buf b0) ss
                   in (put_bucket r (b\<lparr>set_state := Some ss1\<rparr>) s, relay_wire C r items))))"

definition sv_checkpoint ::
    "('p, 'q, 'o, 'z) pan_codecs_scheme \<Rightarrow> round \<Rightarrow> nat \<Rightarrow> ('p, 'q, 'o) pan_server \<Rightarrow>
     ('p, 'q, 'o) pan_server \<times> bytes list" where
  "sv_checkpoint C r k s =
     (if \<not> consensus s \<or> sv_misbehavior s = Some Withhold then (s, [])
      else if k = K_BATCH then publish_batch C r s
      else if K_REPAIR < k then absorb_relays C r (k - K_REPAIR) s
      else (s, []))"

section \<open>The end of a round\<close>

text \<open>Clients the server holds an opening and a public for.\<close>

definition servable :: "('p, 'q, 'o) round_state \<Rightarrow> client_id list" where
  "servable b = filter (\<lambda>cid. cid |\<in>| fmdom (publics b)) (map fst (inbox b))"

definition canonical_set :: "usize \<Rightarrow> ('p, 'q, 'o) round_state \<Rightarrow> client_id list" where
  "canonical_set cap b = sort_dedup (take cap (servable b))"

definition announce_one ::
    "round \<Rightarrow> round \<Rightarrow> ('p, 'q, 'o) pan_server \<Rightarrow> (round \<times> client_id list \<times> u32) option" where
  "announce_one now r s =
     (case fmlookup (rounds s) r of
        None \<Rightarrow> None
      | Some b \<Rightarrow>
          if now < r \<or> is_some_and (\<lambda>f. r < f) (sv_first_round s) \<or> r |\<in>| announced_rounds s \<or> inbox b = []
          then None
          else
            (let canonical = canonical_set (sv_client_set_max s) b
             in if canonical = [] then None
                else Some (r, canonical,
                       as_u32 (max (fm_size (owners b) + fcard (rejected b)) (length canonical)))))"

definition announce_settled ::
    "round \<Rightarrow> ('p, 'q, 'o) pan_server \<Rightarrow> ('p, 'q, 'o) pan_server \<times> panetiere_wire list" where
  "announce_settled now s =
     (let found = List.map_filter (\<lambda>r. announce_one now r s) (fm_keys (rounds s))
      in (fold (\<lambda>(r, canonical, demand) t.
                  t\<lparr>client_set_by_round := fmupd r canonical (client_set_by_round t),
                    announced_rounds := finsert r (announced_rounds t)\<rparr>) found s,
          map (\<lambda>(r, canonical, demand). ClientSet r canonical demand) found))"

text \<open>\<open>fix_consensus_sets\<close>: \<open>None\<close> is a panic of \<open>finalize\<close>.\<close>

definition fix_one ::
    "('p, 'q, 'o, 'z) pan_codecs_scheme \<Rightarrow> round \<Rightarrow> round \<Rightarrow> ('p, 'q, 'o) pan_server \<Rightarrow>
     (('p, 'q, 'o) pan_server \<times> unit list) option" where
  "fix_one C now r s =
     (let b = bucket_at r s
      in if now < r \<or> finalized b then Some (s, [])
         else case set_state b of
                None \<Rightarrow> Some (s, [])
              | Some ss \<Rightarrow>
                  map_option
                    (\<lambda>fixed.
                       if sr_set fixed = [] then (put_bucket r (b\<lparr>finalized := True\<rparr>) s, [])
                       else
                         (let t = put_bucket r
                                (b\<lparr>finalized := True, inbox := inbox_items fixed,
                                   lane_shares := lane_items fixed\<rparr>) s
                          in (t\<lparr>client_set_by_round := fmupd r (sr_set fixed) (client_set_by_round t)\<rparr>, [])))
                    (finalize C (sv_pp s) (exchange (sv_identity s)) (sid_of C r s) ss))"

definition fix_consensus_sets ::
    "('p, 'q, 'o, 'z) pan_codecs_scheme \<Rightarrow> round \<Rightarrow> ('p, 'q, 'o) pan_server \<Rightarrow>
     ('p, 'q, 'o) pan_server option" where
  "fix_consensus_sets C now s = map_option fst (run_steps (fix_one C now) (fm_keys (rounds s)) s)"

text \<open>The set a share is made over: \<open>None\<close> when the round is skipped or deferred.\<close>

definition share_set ::
    "round \<Rightarrow> ('p, 'q, 'o) round_state \<Rightarrow> ('p, 'q, 'o) pan_server \<Rightarrow> client_id list option" where
  "share_set r b s =
     (let self_derived = (sv_mode s = ModeSelfDerived);
          found = (if self_derived then Some (sort_dedup (servable b))
                   else fmlookup (client_set_by_round s) r)
      in case found of
           None \<Rightarrow> None
         | Some canonical \<Rightarrow>
             if canonical = [] then None
             else if \<not> self_derived \<and> list_ex (\<lambda>c. c \<notin> fst ` set (inbox b)) canonical then None
             else if list_ex (\<lambda>c. c \<notin> fst ` set (lane_shares b) \<or> c |\<notin>| fmdom (publics b)) canonical
             then None
             else Some canonical)"

definition flip_first :: "bytes \<Rightarrow> bytes" where
  "flip_first bs = (case bs of [] \<Rightarrow> [] | x # xs \<Rightarrow> xor x 1 # xs)"

text \<open>The lane half over the clients of the key share; the outer option is a panic.\<close>

definition lane_half ::
    "('p, 'q, 'o, 'z) pan_codecs_scheme \<Rightarrow> ('p, 'q, 'o) round_state \<Rightarrow> client_id list \<Rightarrow>
     ('p, 'q, 'o) pan_server \<Rightarrow> 'p node_entry option option" where
  "lane_half C b cids s =
     do {
       scp \<leftarrow> share_comm (sv_pp s);
       roots \<leftarrow> those (map (\<lambda>c. map_option (\<lambda>e. (c, share_root e)) (fmlookup (publics b) c)) cids);
       Some (run_rs_node_round C scp (sv_server_id s) (lane_shares b) cids roots)
     }"

definition share_message ::
    "('p, 'q, 'o, 'z) pan_codecs_scheme \<Rightarrow> round \<Rightarrow> 'o server_entry \<Rightarrow> bytes \<Rightarrow> bytes \<Rightarrow> bytes \<Rightarrow>
     ('p, 'q, 'o) pan_server \<Rightarrow> panetiere_wire" where
  "share_message C r sp agg_share share_sum lane_open s =
     (let agg_open = pack_opening C (as_u32 (length (se_clients sp))) (se_agg_open sp)
      in ServerPublic r (se_server sp) (se_clients sp) agg_open agg_share share_sum lane_open
           (sign C (sv_identity s)
             (server_public_signing_bytes (wire C) r (se_server sp) (se_clients sp) agg_open agg_share
               share_sum lane_open)))"

definition emit_one ::
    "('p, 'q, 'o, 'z) pan_codecs_scheme \<Rightarrow> round \<Rightarrow> round \<Rightarrow> ('p, 'q, 'o) pan_server \<Rightarrow>
     (('p, 'q, 'o) pan_server \<times> panetiere_wire list) option" where
  "emit_one C now r s =
     (let b = bucket_at r s
      in if now < r \<or> emitted_my_public b \<or> inbox b = [] then Some (s, [])
         else case share_set r b s of
                None \<Rightarrow> Some (s, [])
              | Some canonical \<Rightarrow>
                  (let b1 = b\<lparr>inbox := []\<rparr>
                   in case run_server_round C (sv_server_id s) (inbox b) canonical of
                        None \<Rightarrow> Some (put_bucket r b1 s, [])
                      | Some sp \<Rightarrow>
                          (let corrupt = (if sv_misbehavior s = Some CorruptShare then flip_first else id);
                               b2 = b1\<lparr>lane_shares := []\<rparr>
                           in do {
                                half \<leftarrow> lane_half C b (se_clients sp) s;
                                scp \<leftarrow> share_comm (sv_pp s);
                                case half of
                                  None \<Rightarrow> Some (put_bucket r b2 s, [])
                                | Some lane \<Rightarrow>
                                    (case lane_open_to_bytes C scp (ne_agg_open lane) of
                                       None \<Rightarrow> Some (put_bucket r b2 s, [])
                                     | Some lane_open \<Rightarrow>
                                         Some (put_bucket r
                                             (b2\<lparr>peer_lane_sums := fmupd (sv_server_id s) (lane, []) (peer_lane_sums b2),
                                                 peer_server_publics := fmupd (se_server sp) sp (peer_server_publics b2),
                                                 emitted_my_public := True\<rparr>) s,
                                           [share_message C r sp (corrupt (pack_agg_share C (se_agg_share sp)))
                                              (corrupt (pack_share C (ne_share_sum lane))) lane_open s]))
                              })))"

definition emit_server_publics ::
    "('p, 'q, 'o, 'z) pan_codecs_scheme \<Rightarrow> round \<Rightarrow> ('p, 'q, 'o) pan_server \<Rightarrow>
     (('p, 'q, 'o) pan_server \<times> panetiere_wire list) option" where
  "emit_server_publics C now s =
     (if sv_misbehavior s = Some Withhold then Some (s, [])
      else run_steps (emit_one C now) (fm_keys (rounds s)) s)"

section \<open>Decoding\<close>

text \<open>Values of a hash map, in the order it yields them.\<close>

definition hash_values :: "('p, 'q, 'o, 'z) pan_codecs_scheme \<Rightarrow> (u32, 'v) fmap \<Rightarrow> 'v list" where
  "hash_values C m = List.map_filter (fmlookup m) (hash_order C (fm_keys m))"

definition collect_outputs ::
    "('p, 'q, 'o, 'z) pan_codecs_scheme \<Rightarrow> ('p, 'q, 'o) round_state \<Rightarrow> 'o server_entry list" where
  "collect_outputs C b = hash_values C (peer_server_publics b)"

text \<open>Larger sets first, ties by the sets themselves.\<close>

definition candidate_sets :: "'o server_entry list \<Rightarrow> client_id list list" where
  "candidate_sets posts =
     remdups_adj (sort_key (\<lambda>cs. (- int (length cs), cs)) (map (sort_dedup \<circ> se_clients) posts))"

text \<open>
  The exclusion loop of \<open>recover_rs\<close>. The result pairs the plaintext, if any, with the
  lanes named so far; \<open>None\<close> is an index out of range in \<open>servers.remove\<close>, or a pass that
  excludes no lane and would repeat for ever.
\<close>

function recover_loop ::
    "('p, 'q, 'o, 'z) pan_codecs_scheme \<Rightarrow> usize \<Rightarrow> usize \<Rightarrow> bytes \<Rightarrow> client_id list \<Rightarrow>
     (client_id \<times> bulletin_entry) list \<Rightarrow> 'o server_entry list \<Rightarrow> 'p node_entry list \<Rightarrow> u32 list \<Rightarrow>
     (bytes list option \<times> u32 list) option" where
  "recover_loop C t k sid cids entries servers lanes culprits =
     (if length servers < t \<or> length lanes < k then Some (None, culprits)
      else case aggregate_and_decrypt_rs C sid cids entries servers lanes of
             Inr plain \<Rightarrow> Some (Some plain, culprits)
           | Inl (InvalidServerOpening i) \<Rightarrow>
               if i < length servers
               then recover_loop C t k sid cids entries (take i servers @ drop (Suc i) servers) lanes culprits
               else None
           | Inl (ShareOpeningMismatch i) \<Rightarrow>
               if i < length servers
               then recover_loop C t k sid cids entries (take i servers @ drop (Suc i) servers) lanes culprits
               else None
           | Inl (LaneOpeningFailed ids) \<Rightarrow>
               (let lanes' = filter (\<lambda>l. ne_node l \<notin> set ids) lanes
                in if length lanes' < length lanes
                   then recover_loop C t k sid cids entries servers lanes' (culprits @ ids)
                   else None)
           | Inl OtherVerifyError \<Rightarrow> Some (None, culprits))"
  by pat_completeness auto

termination
  by (relation "measure (\<lambda>(C, t, k, sid, cids, entries, servers, lanes, culprits).
                   length servers + length lanes)") auto

definition recover_rs ::
    "('p, 'q, 'o, 'z) pan_codecs_scheme \<Rightarrow> protocol_params \<Rightarrow> usize \<Rightarrow> bytes \<Rightarrow> ('p, 'q, 'o) round_state \<Rightarrow>
     client_id list \<Rightarrow> u32 list \<Rightarrow> (bytes list option \<times> u32 list) option" where
  "recover_rs C pp t sid b cids culprits =
     (case pp_rs pp of
        None \<Rightarrow> Some (None, culprits)
      | Some rs \<Rightarrow>
          (let servers = filter (\<lambda>sp. se_clients sp = cids) (hash_values C (peer_server_publics b));
               lanes = filter (\<lambda>l. ne_clients l = cids) (map fst (hash_values C (peer_lane_sums b)));
               entries = List.map_filter (\<lambda>c. map_option (Pair c) (fmlookup (publics b) c)) cids
           in if length entries \<noteq> length cids then Some (None, culprits)
              else recover_loop C t (rs_k rs) sid cids entries servers lanes culprits))"

text \<open>The candidates in order, until one decodes.\<close>

primrec try_sets ::
    "('p, 'q, 'o, 'z) pan_codecs_scheme \<Rightarrow> protocol_params \<Rightarrow> usize \<Rightarrow> usize \<Rightarrow> bytes \<Rightarrow>
     ('p, 'q, 'o) round_state \<Rightarrow> client_id list list \<Rightarrow> u32 list \<Rightarrow> (bytes list option \<times> u32 list) option" where
  "try_sets C pp t cap sid b [] culprits = Some (None, culprits)"
| "try_sets C pp t cap sid b (cids # rest) culprits =
     (if cap < length cids then try_sets C pp t cap sid b rest culprits
      else do {
        (plain, named) \<leftarrow> recover_rs C pp t sid b cids culprits;
        case plain of
          Some p \<Rightarrow> Some (Some p, named)
        | None \<Rightarrow> try_sets C pp t cap sid b rest named
      })"

definition lane_fault ::
    "('p, 'q, 'o) round_state \<Rightarrow> ('p, 'q, 'o) pan_server \<Rightarrow> u32 \<Rightarrow> fault option" where
  "lane_fault b s i =
     do {
       (_, raw) \<leftarrow> fmlookup (peer_lane_sums b) i;
       pk \<leftarrow> fmlookup (server_pubkeys s) i;
       Some \<lparr>kind = Integrity, fault_attribution = Peers [pk], evidence = raw\<rparr>
     }"

definition free_round :: "('p, 'q, 'o) round_state \<Rightarrow> ('p, 'q, 'o) round_state" where
  "free_round b =
     b\<lparr>is_decoded := True, publics := fmempty, inbox := [], lane_shares := [],
       peer_server_publics := fmempty, peer_lane_sums := fmempty\<rparr>"

datatype decode_result = Settled round "bytes list" | LaneFault fault

definition decode_one ::
    "('p, 'q, 'o, 'z) pan_codecs_scheme \<Rightarrow> round \<Rightarrow> ('p, 'q, 'o) pan_server \<Rightarrow>
     (('p, 'q, 'o) pan_server \<times> decode_result list) option" where
  "decode_one C r s =
     (let b = bucket_at r s
      in if is_decoded b then Some (s, [])
         else
           (let anchor = (if sv_mode s = ModeSelfDerived then None else fmlookup (client_set_by_round s) r);
                candidates = (case anchor of
                    Some cids \<Rightarrow> [cids]
                  | None \<Rightarrow> candidate_sets (collect_outputs C b))
            in do {
                 (plain, culprits) \<leftarrow>
                   try_sets C (sv_pp s) (sv_shamir_t s) (sv_client_set_max s) (sid_of C r s) b candidates [];
                 let found = map LaneFault (List.map_filter (lane_fault b s) culprits);
                 case plain of
                   None \<Rightarrow> Some (s, found)
                 | Some p \<Rightarrow> Some (put_bucket r (free_round b) s, found @ [Settled r p])
               }))"

definition decode_settled ::
    "('p, 'q, 'o, 'z) pan_codecs_scheme \<Rightarrow> ('p, 'q, 'o) pan_server \<Rightarrow>
     (('p, 'q, 'o) pan_server \<times> decode_result list) option" where
  "decode_settled C s = run_steps (decode_one C) (fm_keys (rounds s)) s"

definition gc :: "round \<Rightarrow> ('p, 'q, 'o) pan_server \<Rightarrow> ('p, 'q, 'o) pan_server" where
  "gc now s =
     (let cutoff = now - PANETIERE_ROUND_RETENTION
      in s\<lparr>rounds := fm_retain (\<lambda>r _. cutoff \<le> r) (rounds s),
           client_set_by_round := fm_retain (\<lambda>r _. cutoff \<le> r) (client_set_by_round s),
           announced_rounds := ffilter (\<lambda>r. cutoff \<le> r) (announced_rounds s)\<rparr>)"

section \<open>Ending a round\<close>

text \<open>
  The phases of \<open>end_round\<close>, with what each one produced: the announcements, the shares,
  and the decoded rounds and faults.
\<close>

definition end_phases ::
    "('p, 'q, 'o, 'z) pan_codecs_scheme \<Rightarrow> round \<Rightarrow> ('p, 'q, 'o) pan_server \<Rightarrow>
     (('p, 'q, 'o) pan_server \<times> panetiere_wire list \<times> decode_result list) option" where
  "end_phases C now s =
     (let (s1, announced) =
            (if sv_mode s = ModeLeader \<and> sv_misbehavior s \<noteq> Some Withhold then announce_settled now s
             else (s, []))
      in do {
           s2 \<leftarrow> (if consensus s1 then fix_consensus_sets C now s1 else Some s1);
           (s3, shares) \<leftarrow> emit_server_publics C now s2;
           (s4, results) \<leftarrow> decode_settled C s3;
           Some (gc now s4, announced @ shares, results)
         })"

text \<open>The messages of one decoded round that are not all zero.\<close>

definition round_messages :: "('p, 'q, 'o, 'z) pan_codecs_scheme \<Rightarrow> bytes list \<Rightarrow> bytes list" where
  "round_messages C plain =
     (case decode_messages C plain of
        Some elements \<Rightarrow> filter (list_ex (\<lambda>x. x \<noteq> 0)) elements
      | None \<Rightarrow> [])"

fun decoded_wire ::
    "('p, 'q, 'o, 'z) pan_codecs_scheme \<Rightarrow> bool \<Rightarrow> decode_result \<Rightarrow> panetiere_wire list" where
  "decoded_wire C pub (Settled r plain) =
     (let msgs = round_messages C plain in if msgs \<noteq> [] \<and> pub then [Decoded r msgs] else [])"
| "decoded_wire C pub (LaneFault f) = []"

fun result_messages :: "('p, 'q, 'o, 'z) pan_codecs_scheme \<Rightarrow> decode_result \<Rightarrow> bytes list" where
  "result_messages C (Settled r plain) = round_messages C plain"
| "result_messages C (LaneFault f) = []"

fun result_faults :: "decode_result \<Rightarrow> fault list" where
  "result_faults (Settled r plain) = []"
| "result_faults (LaneFault f) = [f]"

definition sv_end_round ::
    "('p, 'q, 'o, 'z) pan_codecs_scheme \<Rightarrow> round \<Rightarrow> ('p, 'q, 'o) pan_server \<Rightarrow>
     (('p, 'q, 'o) pan_server \<times> round_outcome) option" where
  "sv_end_round C now s =
     map_option
       (\<lambda>(s1, sent, results).
          (s1, \<lparr>outbound = map (wire_to_bytes C) (sent @ concat (map (decoded_wire C (publishes C s)) results)),
                decoded = concat (map (result_messages C) results),
                faults = concat (map result_faults results)\<rparr>))
       (end_phases C now s)"

end
