(* ===== verification/Panetiere_Client.thy ===== *)
theory Panetiere_Client
  imports Panetiere_Server
begin

text \<open>
  The client and watch sessions of a Panetiere subnet (\<open>PanetiereClientSession\<close> and
  \<open>PanetiereWatchSession\<close> of \<open>anymone-core/src/panetiere.rs\<close>): staging a payload, the
  messages of a round, reading receipt batches and repairing, and surfacing decoded rounds.
  The round's secret sharing, sealing and channel encoding are the panetiere crate's, the
  fields of \<open>client_codecs\<close>. Random draws are arguments of the operations that make them. An
  \<open>expect\<close> that fails is \<open>None\<close>.
\<close>

section \<open>Functions of the panetiere crate\<close>

text \<open>\<open>'r\<close> is a prepared client round.\<close>

record ('p, 'q, 'o, 'r) client_codecs = "('p, 'q, 'o) pan_codecs" +
  new_client_round :: "bytes \<Rightarrow> bytes \<Rightarrow> client_id \<Rightarrow> (server_id \<times> bytes) list \<Rightarrow> 'r"
  finalize_client_round :: "'r \<Rightarrow> bytes \<Rightarrow> bytes list \<Rightarrow> bytes \<Rightarrow> bulletin_entry \<times> ('p, 'q) rs_round_output"
  generate_key :: "bytes \<Rightarrow> bytes"
  encode_message :: "bytes \<Rightarrow> bytes \<Rightarrow> bytes list option"
  channel_cover :: "bytes list"
  max_payload_bytes :: usize
  message_polys :: "protocol_params \<Rightarrow> usize"
  zero_poly :: bytes

section \<open>Seeds and rosters\<close>

definition xor_first :: "byte \<Rightarrow> bytes \<Rightarrow> bytes" where
  "xor_first m bs = (case bs of [] \<Rightarrow> [] | x # xs \<Rightarrow> xor x m # xs)"

definition derive_post_key :: "('p, 'q, 'o, 'r, 'z) client_codecs_scheme \<Rightarrow> bytes \<Rightarrow> bytes" where
  "derive_post_key C rng_seed = generate_key C (xor_first 0x2A rng_seed)"

definition client_round_for ::
    "('p, 'q, 'o, 'r, 'z) client_codecs_scheme \<Rightarrow> bytes \<Rightarrow> round \<Rightarrow> client_id \<Rightarrow> (server_id \<times> bytes) list \<Rightarrow>
     bytes \<Rightarrow> 'r" where
  "client_round_for C setup_seed r cid servers rng_seed =
     new_client_round C (take 24 rng_seed @ le_bytes 8 r) (session_id C setup_seed r) cid servers"

definition resize_polys :: "usize \<Rightarrow> bytes \<Rightarrow> bytes list \<Rightarrow> bytes list" where
  "resize_polys n zero ps = take n ps @ replicate (n - length ps) zero"

section \<open>A round under consensus set formation\<close>

record ('p, 'q) client_set_state =
  cs_bulletin :: bulletin_entry
  cs_round_out :: "('p, 'q) client_set_round"
  cs_covered :: "usize fset"
  cs_repaired :: bool

definition new_client_set_state ::
    "bulletin_entry \<Rightarrow> ('p, 'q) client_set_round \<Rightarrow> ('p, 'q) client_set_state" where
  "new_client_set_state e cr = \<lparr>cs_bulletin = e, cs_round_out = cr, cs_covered = {||}, cs_repaired = False\<rparr>"

definition note_batch ::
    "('p, 'q, 'o, 'z) set_codecs_scheme \<Rightarrow> receipt_batch \<Rightarrow> client_id \<Rightarrow> ('p, 'q) client_set_state \<Rightarrow>
     ('p, 'q) client_set_state" where
  "note_batch C batch client st =
     (let cid = csr_client (cs_round_out st); lane = rb_server batch
      in if cid \<noteq> client then st
         else case find (\<lambda>b. b_lane b = lane) (csr_bundles (cs_round_out st)) of
                None \<Rightarrow> st
              | Some b \<Rightarrow>
                  if list_ex (\<lambda>rc. r_client rc = cid \<and> bundle_hash rc = bundle_hash_of C b \<and> pk_c rc = b_pubkey b)
                       (rb_receipts batch)
                  then st\<lparr>cs_covered := finsert lane (cs_covered st)\<rparr> else st)"

definition public_message ::
    "('p, 'q, 'o, 'z) pan_codecs_scheme \<Rightarrow> round \<Rightarrow> client_id \<Rightarrow> bulletin_entry \<Rightarrow> identity \<Rightarrow> panetiere_wire" where
  "public_message C r cid e ident =
     (let entry = entry_to_bytes C e
      in ClientPublic r cid entry (identity_pubkey C ident)
           (sign C ident (client_public_signing_bytes C r cid entry)))"

definition bundle_message ::
    "('p, 'q, 'o, 'z) pan_codecs_scheme \<Rightarrow> round \<Rightarrow> client_id \<Rightarrow> identity \<Rightarrow> ('p, 'q) client_bundle \<Rightarrow>
     panetiere_wire option" where
  "bundle_message C r cid ident b =
     map_option
       (\<lambda>dat. Bundle r cid (as_u32 (b_lane b)) dat (identity_pubkey C ident)
                (sign C ident (client_bundle_signing_bytes C r cid (as_u32 (b_lane b)) dat)))
       (bundle_pack C b)"

definition bundle_wire ::
    "('p, 'q, 'o, 'z) pan_codecs_scheme \<Rightarrow> protocol_params \<Rightarrow> round \<Rightarrow> bulletin_entry \<Rightarrow>
     ('p, 'q) client_set_round \<Rightarrow> identity \<Rightarrow> panetiere_wire list option" where
  "bundle_wire C pp r e cr ident =
     do {
       _ \<leftarrow> share_comm pp;
       bs \<leftarrow> those (map (bundle_message C r (csr_client cr) ident) (csr_bundles cr));
       Some (public_message C r (csr_client cr) e ident # bs)
     }"

text \<open>Repair: nothing when already done, when the gap is small enough for the missing lanes to
  abstain, or when too few lanes are covered to code around it.\<close>

definition repair_due :: "rs_params \<Rightarrow> ('p, 'q) client_set_state \<Rightarrow> bool" where
  "repair_due rs st \<longleftrightarrow>
     (let covered = fcard (cs_covered st); missing = rs_n rs - covered
      in \<not> (cs_repaired st \<or> missing = 0 \<or> missing \<le> rs_n rs - rs_k rs \<or> covered < rs_n rs - rs_k rs))"

definition fragment_message ::
    "('p, 'q, 'o, 'z) pan_codecs_scheme \<Rightarrow> round \<Rightarrow> client_id \<Rightarrow> identity \<Rightarrow> usize \<times> 'p set_fragment \<Rightarrow>
     panetiere_wire" where
  "fragment_message C r cid ident = (\<lambda>(lane, f).
     (let dat = fragment_pack C f
      in SetFragment r cid (as_u32 lane) dat (identity_pubkey C ident)
           (sign C ident (client_fragment_signing_bytes C r cid (as_u32 lane) dat))))"

definition fragment_wire ::
    "('p, 'q, 'o, 'z) pan_codecs_scheme \<Rightarrow> protocol_params \<Rightarrow> bytes \<Rightarrow> round \<Rightarrow> bytes \<Rightarrow> identity \<Rightarrow>
     ('p, 'q) client_set_state \<Rightarrow> (('p, 'q) client_set_state \<times> panetiere_wire list) option" where
  "fragment_wire C pp sid r post_key ident st =
     do {
       rs \<leftarrow> pp_rs pp;
       if \<not> repair_due rs st then Some (st, [])
       else do {
         let covered = sorted_list_of_fset (cs_covered st);
         fs \<leftarrow> build_fragments C pp sid (cs_round_out st) covered post_key;
         Some (st\<lparr>cs_repaired := True\<rparr>,
               map (fragment_message C r (csr_client (cs_round_out st)) ident)
                 (List.map_filter (\<lambda>lane. map_option (Pair lane) (slice_get fs lane)) covered))
       }
     }"

section \<open>The client session\<close>

record ('p, 'q, 'r) pan_client =
  cl_pp :: protocol_params
  cl_identity :: identity
  cl_client_id :: client_id
  cl_servers :: "(server_id \<times> bytes) list"
  cl_pending :: "bytes list option"
  cl_rng_seed :: bytes
  cl_cover_rate :: f32
  cl_post_key :: bytes
  cl_setup_seed :: bytes
  cl_client_round :: "(round \<times> 'r) option"
  cl_set_pks :: "bytes list option"
  cl_set_rounds :: "(round, ('p, 'q) client_set_state) fmap"

definition new_pan_client ::
    "('p, 'q, 'o, 'r, 'z) client_codecs_scheme \<Rightarrow> protocol_params \<Rightarrow> identity \<Rightarrow> (server_id \<times> bytes) list \<Rightarrow>
     bytes \<Rightarrow> ('p, 'q, 'r) pan_client" where
  "new_pan_client C pp ident servers rng_seed =
     \<lparr>cl_pp = pp, cl_identity = ident, cl_client_id = client_id_from_pubkey (identity_pubkey C ident),
      cl_servers = servers, cl_pending = None, cl_rng_seed = rng_seed, cl_cover_rate = F32_ONE,
      cl_post_key = derive_post_key C rng_seed, cl_setup_seed = replicate 32 0, cl_client_round = None,
      cl_set_pks = None, cl_set_rounds = fmempty\<rparr>"

definition cl_set_setup_seed :: "bytes \<Rightarrow> ('p, 'q, 'r) pan_client \<Rightarrow> ('p, 'q, 'r) pan_client" where
  "cl_set_setup_seed seed s = s\<lparr>cl_setup_seed := seed, cl_client_round := None\<rparr>"

definition cl_set_consensus :: "bytes list \<Rightarrow> ('p, 'q, 'r) pan_client \<Rightarrow> ('p, 'q, 'r) pan_client" where
  "cl_set_consensus pks s = s\<lparr>cl_set_pks := Some pks\<rparr>"

text \<open>\<open>gen::<f32>() < rate\<close> for a draw from the unit interval.\<close>

definition coin :: "f32 \<Rightarrow> f32 \<Rightarrow> bool" where
  "coin draw rate \<longleftrightarrow> \<not> f32_is_nan rate \<and> rate < 0x80000000 \<and> draw < rate"

definition client_slice_wire ::
    "('p, 'q, 'o, 'z) pan_codecs_scheme \<Rightarrow> round \<Rightarrow> client_id \<Rightarrow> identity \<Rightarrow> u32 \<times> 'p list \<times> 'q share_path \<Rightarrow>
     panetiere_wire option" where
  "client_slice_wire C r cid ident = (\<lambda>(lane, share, path).
     map_option
       (\<lambda>pb. (let sb = pack_share C share
              in ClientSlice r cid lane sb pb (identity_pubkey C ident)
                   (sign C ident (client_slice_signing_bytes C r cid lane sb pb))))
       (path_to_bytes C path))"

definition opening_message ::
    "('p, 'q, 'o, 'z) pan_codecs_scheme \<Rightarrow> round \<Rightarrow> client_id \<Rightarrow> identity \<Rightarrow> server_id \<times> bytes \<Rightarrow> panetiere_wire" where
  "opening_message C r cid ident = (\<lambda>(i, sealed).
     Opening r cid i sealed (identity_pubkey C ident)
       (sign C ident (client_opening_signing_bytes C r cid i sealed)))"

definition leader_mode_wire ::
    "('p, 'q, 'o, 'z) pan_codecs_scheme \<Rightarrow> round \<Rightarrow> bulletin_entry \<Rightarrow> ('p, 'q) rs_round_output \<Rightarrow> identity \<Rightarrow>
     panetiere_wire list option" where
  "leader_mode_wire C r e ro ident =
     map_option
       (\<lambda>slices. public_message C r (ro_client ro) e ident # slices @
                 map (opening_message C r (ro_client ro) ident) (sealed_openings ro))
       (those (map (client_slice_wire C r (ro_client ro) ident)
          (map (\<lambda>(i, x). (as_u32 i, x)) (enumerate 0 (zip (rs_shares ro) (share_paths ro))))))"

text \<open>The message of a round: what is staged, a cover message if the draw says so, or nothing.\<close>

definition round_payload ::
    "('p, 'q, 'o, 'r, 'z) client_codecs_scheme \<Rightarrow> f32 \<Rightarrow> ('p, 'q, 'r) pan_client \<Rightarrow> bytes list option" where
  "round_payload C draw s =
     (case cl_pending s of
        Some m \<Rightarrow> Some m
      | None \<Rightarrow>
          if coin draw (cl_cover_rate s)
          then Some (resize_polys (message_polys C (cl_pp s)) (zero_poly C) (channel_cover C)) else None)"

definition finalize_staged ::
    "('p, 'q, 'o, 'r, 'z) client_codecs_scheme \<Rightarrow> f32 \<Rightarrow> round \<Rightarrow> ('p, 'q, 'r) pan_client \<Rightarrow>
     (('p, 'q, 'r) pan_client \<times> panetiere_wire list) option" where
  "finalize_staged C draw r s =
     (if length (cl_servers s) \<noteq> n_servers (cl_pp s) then Some (s, [])
      else case round_payload C draw s of
             None \<Rightarrow> Some (s, [])
           | Some msg \<Rightarrow>
               (let sid = session_id C (cl_setup_seed s) r;
                    cr = (case cl_client_round s of
                        Some (prepared, cr) \<Rightarrow> if prepared = r then cr
                          else client_round_for C (cl_setup_seed s) r (cl_client_id s) (cl_servers s) (cl_rng_seed s)
                      | None \<Rightarrow> client_round_for C (cl_setup_seed s) r (cl_client_id s) (cl_servers s) (cl_rng_seed s));
                    s1 = s\<lparr>cl_pending := None, cl_client_round := None\<rparr>;
                    (e, ro) = finalize_client_round C cr sid msg (cl_post_key s)
                in case cl_set_pks s of
                     None \<Rightarrow> map_option (\<lambda>out. (s1, out)) (leader_mode_wire C r e ro (cl_identity s))
                   | Some _ \<Rightarrow>
                       do {
                         cset \<leftarrow> client_set_round_from_rs C (cl_pp s) sid ro (cl_post_key s);
                         out \<leftarrow> bundle_wire C (cl_pp s) r e cset (cl_identity s);
                         let kept_rounds = fmupd r (new_client_set_state e cset) (cl_set_rounds s1);
                         Some (s1\<lparr>cl_set_rounds :=
                                   fm_retain (\<lambda>r' _. r \<le> r' + PANETIERE_ROUND_RETENTION) kept_rounds\<rparr>, out)
                       }))"

definition cl_begin_round ::
    "('p, 'q, 'o, 'r, 'z) client_codecs_scheme \<Rightarrow> f32 \<Rightarrow> round \<Rightarrow> ('p, 'q, 'r) pan_client \<Rightarrow>
     (('p, 'q, 'r) pan_client \<times> bytes list) option" where
  "cl_begin_round C draw r s = map_option (\<lambda>(s1, out). (s1, map (wire_to_bytes C) out)) (finalize_staged C draw r s)"

datatype finalize_error = PayloadExceedsCapacity | EncodeFailed

definition finalize_round ::
    "('p, 'q, 'o, 'r, 'z) client_codecs_scheme \<Rightarrow> bytes \<Rightarrow> f32 \<Rightarrow> round \<Rightarrow> bytes option \<Rightarrow>
     ('p, 'q, 'r) pan_client \<Rightarrow> (finalize_error + ('p, 'q, 'r) pan_client \<times> panetiere_wire list) option" where
  "finalize_round C rnd draw r payload s =
     (let encoded = (case payload of
          None \<Rightarrow> Inr (channel_cover C)
        | Some p \<Rightarrow>
            if max_payload_bytes C < length p then Inl PayloadExceedsCapacity
            else case encode_message C rnd p of None \<Rightarrow> Inl EncodeFailed | Some m \<Rightarrow> Inr m)
      in case encoded of
           Inl e \<Rightarrow> Some (Inl e)
         | Inr m \<Rightarrow>
             map_option Inr
               (finalize_staged C draw r
                 (s\<lparr>cl_pending := Some (resize_polys (message_polys C (cl_pp s)) (zero_poly C) m)\<rparr>)))"

definition prepare_round ::
    "('p, 'q, 'o, 'r, 'z) client_codecs_scheme \<Rightarrow> round \<Rightarrow> ('p, 'q, 'r) pan_client \<Rightarrow> ('p, 'q, 'r) pan_client" where
  "prepare_round C r s =
     (if length (cl_servers s) = n_servers (cl_pp s) \<and> \<not> is_some_and (\<lambda>(r', _). r' = r) (cl_client_round s)
      then s\<lparr>cl_client_round :=
               Some (r, client_round_for C (cl_setup_seed s) r (cl_client_id s) (cl_servers s) (cl_rng_seed s))\<rparr>
      else s)"

datatype receipt_error = ConsensusDisabled | InvalidReceiptBatch | UnknownReceiptRound

definition accept_receipt_batch ::
    "('p, 'q, 'o, 'z) set_codecs_scheme \<Rightarrow> round \<Rightarrow> bytes \<Rightarrow> ('p, 'q, 'r) pan_client \<Rightarrow>
     receipt_error + ('p, 'q, 'r) pan_client" where
  "accept_receipt_batch C r dat s =
     (case cl_set_pks s of
        None \<Rightarrow> Inl ConsensusDisabled
      | Some pks \<Rightarrow>
          (case batch_unpack C dat of
             None \<Rightarrow> Inl InvalidReceiptBatch
           | Some batch \<Rightarrow>
               if \<not> pan_verify_batch C (session_id C (cl_setup_seed s) r) batch pks then Inl InvalidReceiptBatch
               else case fmlookup (cl_set_rounds s) r of
                      None \<Rightarrow> Inl UnknownReceiptRound
                    | Some st \<Rightarrow>
                        Inr (s\<lparr>cl_set_rounds :=
                               fmupd r (note_batch C batch (cl_client_id s) st) (cl_set_rounds s)\<rparr>)))"

definition build_repair ::
    "('p, 'q, 'o, 'z) pan_codecs_scheme \<Rightarrow> round \<Rightarrow> ('p, 'q, 'r) pan_client \<Rightarrow>
     (('p, 'q, 'r) pan_client \<times> panetiere_wire list) option" where
  "build_repair C r s =
     (case fmlookup (cl_set_rounds s) r of
        None \<Rightarrow> Some (s, [])
      | Some st \<Rightarrow>
          map_option (\<lambda>(st1, out). (s\<lparr>cl_set_rounds := fmupd r st1 (cl_set_rounds s)\<rparr>, out))
            (fragment_wire C (cl_pp s) (session_id C (cl_setup_seed s) r) r (cl_post_key s) (cl_identity s) st))"

definition cl_on_inbound ::
    "('p, 'q, 'o, 'z) pan_codecs_scheme \<Rightarrow> bytes \<Rightarrow> ('p, 'q, 'r) pan_client \<Rightarrow> ('p, 'q, 'r) pan_client" where
  "cl_on_inbound C payload s =
     (case pan_wire_of_bytes (wire C) payload of
        Some (SetBatch r dat) \<Rightarrow>
          (case accept_receipt_batch C r dat s of Inr s1 \<Rightarrow> s1 | Inl _ \<Rightarrow> s)
      | _ \<Rightarrow> s)"

definition cl_checkpoint ::
    "('p, 'q, 'o, 'r, 'z) client_codecs_scheme \<Rightarrow> round \<Rightarrow> nat \<Rightarrow> ('p, 'q, 'r) pan_client \<Rightarrow>
     (('p, 'q, 'r) pan_client \<times> panetiere_wire list) option" where
  "cl_checkpoint C r k s =
     (let s1 = (if k = 1 then prepare_round C (saturating_add r 1) s else s)
      in if k = K_REPAIR then build_repair C r s1 else Some (s1, []))"

definition cl_end_round :: "('p, 'q, 'r) pan_client \<Rightarrow> ('p, 'q, 'r) pan_client \<times> round_outcome" where
  "cl_end_round s = (s, default_outcome)"

definition cl_stage ::
    "('p, 'q, 'o, 'r, 'z) client_codecs_scheme \<Rightarrow> bytes \<Rightarrow> bytes \<Rightarrow> ('p, 'q, 'r) pan_client \<Rightarrow>
     ('p, 'q, 'r) pan_client" where
  "cl_stage C rnd payload s =
     (if max_payload_bytes C < length payload then s
      else case encode_message C rnd payload of
             None \<Rightarrow> s
           | Some m \<Rightarrow> s\<lparr>cl_pending := Some (resize_polys (message_polys C (cl_pp s)) (zero_poly C) m)\<rparr>)"

definition cl_set_cover_rate_to :: "f32 \<Rightarrow> ('p, 'q, 'r) pan_client \<Rightarrow> ('p, 'q, 'r) pan_client" where
  "cl_set_cover_rate_to rate s = s\<lparr>cl_cover_rate := rate\<rparr>"

section \<open>The watch session\<close>

record pan_watch =
  pw_leader :: peer_id
  routed_rounds :: "u64 fset"
  pending_decoded :: "bytes list"

definition new_pan_watch :: "peer_id \<Rightarrow> pan_watch" where
  "new_pan_watch leader = \<lparr>pw_leader = leader, routed_rounds = {||}, pending_decoded = []\<rparr>"

definition pw_on_inbound :: "('p, 'q, 'o, 'z) pan_codecs_scheme \<Rightarrow> peer_id \<Rightarrow> bytes \<Rightarrow> pan_watch \<Rightarrow> pan_watch" where
  "pw_on_inbound C from payload s =
     (case pan_wire_of_bytes (wire C) payload of
        Some (Decoded r payloads) \<Rightarrow>
          if from \<noteq> pw_leader s then s
          else if r |\<in>| routed_rounds s then s
          else s\<lparr>routed_rounds := finsert r (routed_rounds s), pending_decoded := pending_decoded s @ payloads\<rparr>
      | _ \<Rightarrow> s)"

definition pw_end_round :: "pan_watch \<Rightarrow> pan_watch \<times> round_outcome" where
  "pw_end_round s =
     (s\<lparr>pending_decoded := []\<rparr>, \<lparr>outbound = [], decoded = pending_decoded s, faults = []\<rparr>)"

section \<open>Sessions of a subnet\<close>

text \<open>The key a relay signs receipts and chain links with, derived from its exchange scalar.\<close>

definition set_signing_key :: "('p, 'q, 'o, 'r, 'z) client_codecs_scheme \<Rightarrow> identity \<Rightarrow> bytes" where
  "set_signing_key C ident = generate_key C (sha256 C (ascii ''anymone/client-set/sig/v1'' @ exchange ident))"

definition seal_roster :: "(bytes \<Rightarrow> bool) \<Rightarrow> (pubkey \<times> xk_wire) list \<Rightarrow> subnet \<Rightarrow> (server_id \<times> bytes) list" where
  "seal_roster kem_valid relay_xk sn =
     map (\<lambda>(i, k). (as_u32 i, k))
       (roster_keys (relays sn) relay_xk (\<lambda>xk. if kem_valid (kem xk) then Some (kem xk) else None))"

text \<open>\<open>None\<close> is the panic of a caller that is not a relay of the subnet.\<close>

definition server_session ::
    "('p, 'q, 'o, 'r, 'z) client_codecs_scheme \<Rightarrow> protocol_params \<Rightarrow> usize \<Rightarrow> panetiere_config \<Rightarrow>
     (pubkey \<times> xk_wire) list \<Rightarrow> subnet \<Rightarrow> identity \<Rightarrow> pubkey \<Rightarrow> (pubkey \<Rightarrow> bool) \<Rightarrow>
     ('p, 'q, 'o) pan_server option" where
  "server_session C pp t cfg relay_xk sn ident leader_pk good =
     map_option
       (\<lambda>i. let cons = (pc_set_formation cfg = Consensus);
                mode = (if cons then ModeConsensus leader_pk
                        else if identity_pubkey C ident = leader_pk then ModeLeader else ModeFollower leader_pk);
                pks = fm_collect (map (\<lambda>(i, pk). (as_u32 i, pk)) (enumerate 0 (sort (relays sn))));
                s = (new_pan_server pp t i ident mode pks)
                      \<lparr>sv_client_set_max := pc_client_set_max cfg, sv_setup_seed := pc_setup_seed cfg,
                       good_clients := good\<rparr>
            in if cons
               then (case set_roster C relay_xk (relays sn) of
                       Some keys \<Rightarrow> s\<lparr>set_keys := Some (set_signing_key C ident, keys)\<rparr>
                     | None \<Rightarrow> s)
               else s)
       (server_index (relays sn) (identity_pubkey C ident))"

text \<open>The seed is drawn from the operating system.\<close>

definition client_session ::
    "('p, 'q, 'o, 'r, 'z) client_codecs_scheme \<Rightarrow> (bytes \<Rightarrow> bool) \<Rightarrow> protocol_params \<Rightarrow> (pubkey \<times> xk_wire) list \<Rightarrow>
     subnet \<Rightarrow> identity \<Rightarrow> bytes \<Rightarrow> bool \<Rightarrow> bytes \<Rightarrow> ('p, 'q, 'r) pan_client" where
  "client_session C kem_valid pp relay_xk sn ident setup_seed cons seed =
     (let s = cl_set_setup_seed setup_seed (new_pan_client C pp ident (seal_roster kem_valid relay_xk sn) seed)
      in if cons
         then (case set_roster C relay_xk (relays sn) of
                 Some pks \<Rightarrow> cl_set_consensus pks s
               | None \<Rightarrow> s)
         else s)"

end
