(* ===== verification/Panetiere_Rounds.thy ===== *)
theory Panetiere_Rounds
  imports Panetiere_Server
begin

text \<open>
  Correctness of the Panetiere server session: it never panics, its buckets stay bounded
  and bind each client to one key, and over a run every round is announced, shared and
  decoded at most once.
\<close>

section \<open>Runs of a server\<close>

datatype sv_event =
    SvBegin round
  | SvArrive peer_id bytes
  | SvCheckpoint round nat
  | SvEnd round
  | SvMisbehave "misbehavior option"

datatype sv_output = Sent bytes | Posted panetiere_wire | Result decode_result

fun sv_step ::
    "('p, 'q, 'o, 'z) pan_codecs_scheme \<Rightarrow> sv_event \<Rightarrow> ('p, 'q, 'o) pan_server \<Rightarrow>
     (('p, 'q, 'o) pan_server \<times> sv_output list) option" where
  "sv_step C (SvBegin r) s = Some (sv_begin_round r s, [])"
| "sv_step C (SvArrive from payload) s =
     map_option (\<lambda>(s1, out). (s1, map Sent out)) (sv_on_inbound C from payload s)"
| "sv_step C (SvCheckpoint r k) s = (case sv_checkpoint C r k s of (s1, out) \<Rightarrow> Some (s1, map Sent out))"
| "sv_step C (SvEnd r) s =
     map_option (\<lambda>(s1, sent, results). (s1, map Posted sent @ map Result results)) (end_phases C r s)"
| "sv_step C (SvMisbehave m) s = Some (s\<lparr>sv_misbehavior := m\<rparr>, [])"

section \<open>What an operation does to a bucket\<close>

text \<open>
  A bucket in good shape: the caps hold, every owner's key derives its client id, and
  contributions come from owners, at most one opening and one slice each. The bulletins, filed
  or pending, are of owners too, so that a set fixed by consensus is one of owners.
\<close>

definition set_bulletins :: "('p, 'q, 'o) round_state \<Rightarrow> client_id fset" where
  "set_bulletins b = (case set_state b of Some ss \<Rightarrow> fmdom (bulletins ss) | None \<Rightarrow> {||})"

definition bucket_ok :: "usize \<Rightarrow> ('p, 'q, 'o) round_state \<Rightarrow> bool" where
  "bucket_ok cap b \<longleftrightarrow>
     fm_size (owners b) \<le> cap \<and> fcard (rejected b) \<le> saturating_mul cap 4 \<and>
     length (relay_buf b) \<le> RELAY_BUF_MAX \<and>
     (\<forall>cid pk. fmlookup (owners b) cid = Some pk \<longrightarrow> client_id_from_pubkey pk = cid) \<and>
     fmdom (publics b) |\<subseteq>| fmdom (owners b) \<and>
     set_bulletins b |\<subseteq>| fmdom (owners b) \<and>
     (\<forall>x \<in> set (pending_bulletins b). fst x |\<in>| fmdom (owners b)) \<and>
     distinct (map fst (inbox b)) \<and> (\<forall>x \<in> set (inbox b). fst x |\<in>| fmdom (owners b)) \<and>
     distinct (map fst (lane_shares b)) \<and> (\<forall>x \<in> set (lane_shares b). fst x |\<in>| fmdom (owners b))"

text \<open>An operation that leaves a bucket's marks alone and keeps it in good shape.\<close>

definition kept :: "usize \<Rightarrow> ('p, 'q, 'o) round_state \<Rightarrow> ('p, 'q, 'o) round_state \<Rightarrow> bool" where
  "kept cap b b' \<longleftrightarrow>
     is_decoded b' = is_decoded b \<and> emitted_my_public b' = emitted_my_public b \<and>
     (bucket_ok cap b \<longrightarrow> bucket_ok cap b')"

definition touches ::
    "round \<Rightarrow> ('p, 'q, 'o) pan_server \<Rightarrow> ('p, 'q, 'o) pan_server \<Rightarrow> bool" where
  "touches r s s' \<longleftrightarrow>
     s' = s \<or> (\<exists>b'. s' = put_bucket r b' s \<and> kept (admission_cap s) (bucket_at r s) b')"

lemma kept_refl [simp]: "kept cap b b"
  by (simp add: kept_def)

lemma kept_trans: "kept cap b b1 \<Longrightarrow> kept cap b1 b2 \<Longrightarrow> kept cap b b2"
  by (auto simp: kept_def)

lemma touches_refl [simp]: "touches r s s"
  by (simp add: touches_def)

lemma touches_put: "kept (admission_cap s) (bucket_at r s) b' \<Longrightarrow> touches r s (put_bucket r b' s)"
  by (auto simp: touches_def)

lemma empty_round_ok [simp]: "bucket_ok cap empty_round"
  by (simp add: bucket_ok_def empty_round_def set_bulletins_def RELAY_BUF_MAX_def fcard_fempty)

lemma admit_client_cases:
  assumes "admit_client own cid pk cap = (own', v)"
  obtains "v = NotOwner" "own' = own"
  | "v = AtCapacity" "own' = own" "fmlookup own cid = None"
  | "v = Admitted" "client_id_from_pubkey pk = cid" "own' = own" "fmlookup own cid = Some pk"
  | "v = Admitted" "client_id_from_pubkey pk = cid" "own' = fmupd cid pk own" "fmlookup own cid = None"
      "fm_size own < cap"
  using assms by (auto simp: admit_client_def split: if_splits option.splits)

lemma fm_size_upd: "fm_size (fmupd k v m) \<le> Suc (fm_size m)"
  by (simp add: fm_size_def fcard_finsert_if)

lemma bucket_ok_own:
  assumes "bucket_ok cap b" "client_id_from_pubkey pk = cid" "fm_size (owners b) < cap"
  shows "bucket_ok cap (b\<lparr>owners := fmupd cid pk (owners b)\<rparr>)"
  using assms fm_size_upd [of cid pk "owners b"] by (auto simp: bucket_ok_def set_bulletins_def)

lemma bucket_ok_reject:
  assumes "bucket_ok cap b" "fcard (rejected b) < saturating_mul cap 4"
  shows "bucket_ok cap (b\<lparr>rejected := finsert cid (rejected b)\<rparr>)"
  using assms by (simp add: bucket_ok_def set_bulletins_def fcard_finsert_if)

lemma admit_to_kept:
  assumes "admit_to cid pk cap b = (b', go)"
  shows "kept cap b b'"
    and "go \<Longrightarrow> fmlookup (owners b') cid = Some pk"
    and "inbox b' = inbox b" and "lane_shares b' = lane_shares b" and "publics b' = publics b"
    and "set_state b' = set_state b"
proof -
  obtain own' v where a: "admit_client (owners b) cid pk cap = (own', v)" by fastforce
  have "kept cap b b' \<and> (go \<longrightarrow> fmlookup (owners b') cid = Some pk) \<and> inbox b' = inbox b \<and>
    lane_shares b' = lane_shares b \<and> publics b' = publics b \<and> set_state b' = set_state b"
    using a
  proof (cases rule: admit_client_cases)
    case 1
    then show ?thesis using assms a by (auto simp: admit_to_def)
  next
    case 2
    then show ?thesis using assms a
      by (auto simp: admit_to_def kept_def intro: bucket_ok_reject split: if_splits)
  next
    case 3
    then show ?thesis using assms a by (auto simp: admit_to_def kept_def)
  next
    case 4
    then show ?thesis using assms a bucket_ok_own [of cap b pk cid]
      by (auto simp: admit_to_def kept_def)
  qed
  then show "kept cap b b'" "go \<Longrightarrow> fmlookup (owners b') cid = Some pk" "inbox b' = inbox b"
    "lane_shares b' = lane_shares b" "publics b' = publics b" "set_state b' = set_state b"
    by auto
qed

lemma kept_public:
  "fmlookup (owners b) cid = Some pk \<Longrightarrow> kept cap b (file_public cid e b)"
  by (auto simp: kept_def bucket_ok_def set_bulletins_def file_public_def note_bulletin_def fmdomI
      split: option.splits)

lemma kept_inbox:
  "fmlookup (owners b) cid = Some pk \<Longrightarrow> cid \<notin> fst ` set (inbox b) \<Longrightarrow>
   kept cap b (b\<lparr>inbox := inbox b @ [(cid, x)]\<rparr>)"
  by (auto simp: kept_def bucket_ok_def set_bulletins_def fmdomI)

lemma kept_lane:
  "fmlookup (owners b) cid = Some pk \<Longrightarrow> cid \<notin> fst ` set (lane_shares b) \<Longrightarrow>
   kept cap b (b\<lparr>lane_shares := lane_shares b @ [(cid, x)]\<rparr>)"
  by (auto simp: kept_def bucket_ok_def set_bulletins_def fmdomI)

lemma kept_relay_buf:
  "length ms \<le> RELAY_BUF_MAX \<Longrightarrow> kept cap b (b\<lparr>relay_buf := ms\<rparr>)"
  by (auto simp: kept_def bucket_ok_def set_bulletins_def)

section \<open>Handlers touch one bucket\<close>

lemma on_client_public_touches: "touches r s (on_client_public C r cid entry pk sg s)"
proof -
  obtain b go where a: "admit_to cid pk (admission_cap s) (bucket_at r s) = (b, go)" by fastforce
  note k = admit_to_kept [OF a]
  have "kept (admission_cap s) (bucket_at r s)
    (if \<not> go then b else case entry_of_bytes C entry of None \<Rightarrow> b
       | Some e \<Rightarrow> if post_valid C (sid_of C r s) cid e then file_public cid e b else b)"
    using k(1,2) kept_trans [OF k(1) kept_public] by (auto split: option.splits)
  then show ?thesis by (simp add: on_client_public_def a touches_put)
qed

lemma on_opening_touches: "touches r s (on_opening C r cid target sealed pk sg s)"
proof -
  obtain b go where a: "admit_to cid pk (admission_cap s) (bucket_at r s) = (b, go)" by fastforce
  note k = admit_to_kept [OF a]
  have "kept (admission_cap s) (bucket_at r s)
    (if \<not> go then b else case unseal_opening C (exchange (sv_identity s)) (sid_of C r s) cid (sv_server_id s) sealed of
       None \<Rightarrow> b
     | Some opening \<Rightarrow> if cid \<in> fst ` set (inbox b) then b else b\<lparr>inbox := inbox b @ [(cid, opening)]\<rparr>)"
    using k(1,2) kept_trans [OF k(1) kept_inbox] by (simp split: option.splits)
  then show ?thesis by (simp add: on_opening_def a touches_put)
qed

lemma on_client_slice_touches: "touches r s (on_client_slice C r cid lane share path pk sg s)"
proof -
  obtain b go where a: "admit_to cid pk (admission_cap s) (bucket_at r s) = (b, go)" by fastforce
  note k = admit_to_kept [OF a]
  have "kept (admission_cap s) (bucket_at r s)
    (if \<not> go \<or> cid \<in> fst ` set (lane_shares b) then b
     else case parse_slice C (sv_pp s) lane share path of None \<Rightarrow> b
       | Some (sh, pa) \<Rightarrow> b\<lparr>lane_shares := lane_shares b @ [(cid, sh, pa)]\<rparr>)"
    using k(1,2) kept_trans [OF k(1) kept_lane] by (simp split: option.splits prod.splits)
  then show ?thesis by (simp add: on_client_slice_def a touches_put)
qed

lemma on_set_relay_touches: "touches r s (on_set_relay C r dat s)"
  by (auto simp: on_set_relay_def Let_def intro!: touches_put kept_relay_buf split: option.splits)

text \<open>What happens to the bulletins of a set server.\<close>

lemma receive_bulletins: "bulletins (fst (receive C sid b ss)) = bulletins ss"
  by (simp add: receive_def Let_def)

lemma accept_fragments_bulletins: "bulletins (fst (accept_fragments C sid fs ss)) = bulletins ss"
proof -
  have "bulletins (fst (fold (insert_fragment C sid) fs a)) = bulletins (fst a)" for fs a
    by (induction fs arbitrary: a) (auto simp: insert_fragment_def Let_def)
  then show ?thesis by (simp add: accept_fragments_def)
qed

lemma submit_bulletins: "bulletins (fst (submit C sid fs ss)) = bulletins ss"
  using accept_fragments_bulletins [of C sid fs ss] by (simp add: submit_def case_prod_unfold Let_def)

lemma originate_bulletins: "bulletins (fst (originate C sid ss)) = bulletins ss"
  by (simp add: originate_def Let_def)

lemma absorb_bulletins: "bulletins (fst (absorb C sid rnd inc ss)) = bulletins ss"
proof -
  have "bulletins (fst (absorb_one C sid rnd x ss)) = bulletins ss" for x and ss :: "('a, 'b) set_server"
    using accept_fragments_bulletins [of C sid _ ss]
    by (simp add: absorb_one_def accept_item_def accept_batch_def Let_def split: relay_item.split)
  then have "bulletins (fst (run_ops (absorb_one C sid rnd) xs ss)) = bulletins ss" for xs
    by (induction xs arbitrary: ss) simp_all
  then show ?thesis by (simp add: absorb_def)
qed

lemma note_bulletins_dom:
  "fmdom (bulletins (fold (\<lambda>(cid, pk). note_bulletin cid pk) posted ss)) =
     fmdom (bulletins ss) |\<union>| fset_of_list (map fst posted)"
  by (induction posted arbitrary: ss) (auto simp: note_bulletin_def)

lemma set_server_of_bulletins:
  "set_server_of s b = Some ss \<Longrightarrow> fmdom (bulletins ss) = set_bulletins b"
  by (auto simp: set_server_of_def set_bulletins_def new_set_server_def bind_eq_Some_conv
      split: option.splits if_splits)

lemma kept_set_state:
  "fmdom (bulletins ss) |\<subseteq>| set_bulletins b \<Longrightarrow> kept cap b (b\<lparr>set_state := Some ss\<rparr>)"
  by (auto simp: kept_def bucket_ok_def set_bulletins_def)

lemma kept_peer: "kept cap b (b\<lparr>peer_server_publics := sp, peer_lane_sums := sl\<rparr>)"
  by (simp add: kept_def bucket_ok_def set_bulletins_def)

lemma on_peer_share_touches:
  assumes "on_peer_share C from payload r i cids agg_open agg_share share_sum lane_open sg s = Some s'"
  shows "touches r s s'"
  using assms unfolding on_peer_share_def Let_def
  by (auto intro!: touches_put kept_peer split: option.splits if_splits)

lemma on_bundle_touches:
  assumes "on_bundle C r cid lane dat pk sg s = Some s'"
  shows "touches r s s'"
proof -
  obtain b go where a: "admit_to cid pk (admission_cap s) (bucket_at r s) = (b, go)" by fastforce
  note k = admit_to_kept(1) [OF a]
  show ?thesis
    using assms k unfolding on_bundle_def Let_def a
    by (auto simp: receive_bulletins set_server_of_bulletins
        intro!: touches_put kept_trans [OF k kept_set_state] split: option.splits if_splits)
qed

lemma on_set_fragment_touches:
  assumes "on_set_fragment C r cid target dat pk sg s = Some (s', out)"
  shows "touches r s s'"
proof -
  obtain b go where a: "admit_to cid pk (admission_cap s) (bucket_at r s) = (b, go)" by fastforce
  note k = admit_to_kept(1) [OF a]
  show ?thesis
    using assms k unfolding on_set_fragment_def Let_def a
    by (auto simp: case_prod_unfold submit_bulletins set_server_of_bulletins
        intro!: touches_put kept_trans [OF k kept_set_state] split: option.splits if_splits)
qed

text \<open>A follower's adoption of an announced set is the only other change.\<close>

definition adopts :: "round \<Rightarrow> ('p, 'q, 'o) pan_server \<Rightarrow> ('p, 'q, 'o) pan_server \<Rightarrow> bool" where
  "adopts r s s' \<longleftrightarrow> r |\<notin>| fmdom (client_set_by_round s) \<and>
     (\<exists>cids. s' = s\<lparr>client_set_by_round := fmupd r cids (client_set_by_round s)\<rparr>)"

lemma sv_dispatch_cases:
  assumes "sv_dispatch C from payload m s = Some (s', out)"
  shows "touches (wire_round m) s s' \<or> adopts (wire_round m) s s'"
  using assms
  by (cases m) (auto simp: sv_dispatch_def on_client_set_def adopts_def split: set_mode.splits if_splits
      intro: on_client_public_touches on_opening_touches on_client_slice_touches on_set_relay_touches
      on_peer_share_touches on_bundle_touches on_set_fragment_touches)

lemma sv_on_inbound_cases:
  assumes "sv_on_inbound C from payload s = Some (s', out)"
  obtains "s' = s"
  | r where "in_scope r s" "touches r s s' \<or> adopts r s s'"
  using assms sv_dispatch_cases [of C "from" payload]
  by (auto simp: sv_on_inbound_def split: option.splits if_splits)

lemma kept_published:
  assumes "set_state b = Some ss"
  shows "kept cap b (b\<lparr>pending_bulletins := [],
    set_state := Some (fst (originate C sid (fold (\<lambda>(cid, pk). note_bulletin cid pk) (pending_bulletins b) ss)))\<rparr>)"
proof -
  have "fst ` set (pending_bulletins b) \<subseteq> fset (fmdom (owners b)) \<Longrightarrow> fmdom (bulletins ss) |\<subseteq>| fmdom (owners b) \<Longrightarrow>
      fmdom (bulletins (fold (\<lambda>(cid, pk). note_bulletin cid pk) (pending_bulletins b) ss)) |\<subseteq>| fmdom (owners b)"
    unfolding note_bulletins_dom by (auto simp: less_eq_fset.rep_eq fset_of_list.rep_eq)
  then show ?thesis
    using assms by (auto simp: kept_def bucket_ok_def set_bulletins_def originate_bulletins)
qed

lemma kept_absorbed:
  "set_state b = Some ss \<Longrightarrow>
   kept cap b (b\<lparr>relay_buf := [], set_state := Some (fst (absorb C sid rnd (relay_buf b) ss))\<rparr>)"
  by (auto simp: kept_def bucket_ok_def set_bulletins_def absorb_bulletins)

lemma kept_emptied: "kept cap b (b\<lparr>pending_bulletins := []\<rparr>)" "kept cap b (b\<lparr>relay_buf := []\<rparr>)"
  by (auto simp: kept_def bucket_ok_def set_bulletins_def)

lemma sv_checkpoint_touches:
  assumes "sv_checkpoint C r k s = (s', out)"
  shows "s' = s \<or> r |\<in>| fmdom (rounds s) \<and> touches r s s'"
proof (cases "fmlookup (rounds s) r")
  case (Some b)
  then have at: "bucket_at r s = b" by (simp add: bucket_at_def)
  have "touches r s (fst (publish_batch C r s))"
    using kept_published [of b _ "admission_cap s" C] kept_emptied(1) Some
    by (auto simp: publish_batch_def Let_def case_prod_unfold at intro!: touches_put split: option.split)
  moreover have "touches r s (fst (absorb_relays C r n s))" for n
    using kept_absorbed [of b _ "admission_cap s" C] kept_emptied(2) Some
    by (auto simp: absorb_relays_def Let_def case_prod_unfold at intro!: touches_put split: option.split)
  ultimately show ?thesis
    using assms Some by (auto simp: sv_checkpoint_def intro: fmdomI split: if_splits) (metis fst_conv)+
qed (use assms in \<open>auto simp: sv_checkpoint_def publish_batch_def absorb_relays_def split: if_splits\<close>)

section \<open>No panics\<close>

text \<open>
  What the session relies on of the panetiere crate: a server's share is over exactly the
  clients it was asked for, and a verification error names a server or a lane that was
  passed in.
\<close>

definition share_crate_ok :: "('p, 'q, 'o, 'z) pan_codecs_scheme \<Rightarrow> bool" where
  "share_crate_ok C \<longleftrightarrow>
     (\<forall>i items cids sp. run_server_round C i items cids = Some sp \<longrightarrow> se_server sp = i \<and> se_clients sp = cids)"

definition decode_crate_ok :: "('p, 'q, 'o, 'z) pan_codecs_scheme \<Rightarrow> bool" where
  "decode_crate_ok C \<longleftrightarrow>
     (\<forall>sid cids entries servers lanes e.
        aggregate_and_decrypt_rs C sid cids entries servers lanes = Inl e \<longrightarrow>
        (case e of
           InvalidServerOpening i \<Rightarrow> i < length servers
         | ShareOpeningMismatch i \<Rightarrow> i < length servers
         | LaneOpeningFailed ids \<Rightarrow> (\<exists>l \<in> set lanes. ne_node l \<in> set ids)
         | OtherVerifyError \<Rightarrow> True))"

text \<open>A session built for a subnet in Reed-Solomon mode, with a full roster of set keys.\<close>

definition session_ok :: "('p, 'q, 'o) pan_server \<Rightarrow> bool" where
  "session_ok s \<longleftrightarrow> share_comm (sv_pp s) \<noteq> None \<and>
     (case code (sv_pp s) of
        None \<Rightarrow> False
      | Some rs \<Rightarrow>
          (case set_keys s of
             None \<Rightarrow> True
           | Some (_, pks) \<Rightarrow> length pks = rs_n rs \<and> sv_server_id s < rs_n rs))"

text \<open>The part of a session that no event changes.\<close>

definition static_of :: "('p, 'q, 'o) pan_server \<Rightarrow> ('p, 'q, 'o) pan_server" where
  "static_of s =
     s\<lparr>rounds := fmempty, client_set_by_round := fmempty, announced_rounds := {||},
       sv_misbehavior := None, sv_cur_round := None, sv_first_round := None\<rparr>"

lemma static_put [simp]: "static_of (put_bucket r b s) = static_of s"
  by (simp add: static_of_def put_bucket_def)

lemma static_client_sets [simp]: "static_of (s\<lparr>client_set_by_round := m\<rparr>) = static_of s"
  by (simp add: static_of_def)

lemma static_fields:
  assumes "static_of s' = static_of s"
  shows "sv_pp s' = sv_pp s" "set_keys s' = set_keys s" "sv_server_id s' = sv_server_id s"
    "sv_mode s' = sv_mode s" "sv_client_set_max s' = sv_client_set_max s" "sv_identity s' = sv_identity s"
    "server_pubkeys s' = server_pubkeys s" "sv_setup_seed s' = sv_setup_seed s"
    "sv_shamir_t s' = sv_shamir_t s"
  using arg_cong [OF assms, of sv_pp] arg_cong [OF assms, of set_keys] arg_cong [OF assms, of sv_server_id]
    arg_cong [OF assms, of sv_mode] arg_cong [OF assms, of sv_client_set_max]
    arg_cong [OF assms, of sv_identity] arg_cong [OF assms, of server_pubkeys]
    arg_cong [OF assms, of sv_setup_seed] arg_cong [OF assms, of sv_shamir_t]
  by (simp_all add: static_of_def)

lemma session_ok_static: "static_of s' = static_of s \<Longrightarrow> session_ok s' = session_ok s"
  unfolding session_ok_def by (simp only: static_fields [of s' s])

lemma touches_static: "touches r s s' \<Longrightarrow> static_of s' = static_of s"
  by (auto simp: touches_def)

lemma adopts_static: "adopts r s s' \<Longrightarrow> static_of s' = static_of s"
  by (auto simp: adopts_def)

lemma set_server_of_returns:
  assumes "session_ok s" "consensus s"
  shows "set_server_of s b \<noteq> None"
  using assms
  by (auto simp: set_server_of_def session_ok_def consensus_def new_set_server_def split: option.splits)

lemma on_bundle_returns: "session_ok s \<Longrightarrow> on_bundle C r cid lane dat pk sg s \<noteq> None"
  using set_server_of_returns [of s]
  by (auto simp: on_bundle_def Let_def case_prod_unfold split: option.splits)

lemma on_set_fragment_returns: "session_ok s \<Longrightarrow> on_set_fragment C r cid target dat pk sg s \<noteq> None"
  using set_server_of_returns [of s]
  by (auto simp: on_set_fragment_def Let_def case_prod_unfold split: option.splits)

lemma on_peer_share_returns:
  "session_ok s \<Longrightarrow> on_peer_share C from payload r i cids agg_open agg_share share_sum lane_open sg s \<noteq> None"
  by (auto simp: on_peer_share_def parse_server_public_def session_ok_def split: option.splits list.splits)

lemma sv_on_inbound_returns: "session_ok s \<Longrightarrow> sv_on_inbound C from payload s \<noteq> None"
  using on_bundle_returns [of s] on_set_fragment_returns [of s] on_peer_share_returns [of s]
  by (auto simp: sv_on_inbound_def sv_dispatch_def split: option.splits panetiere_wire.splits)

lemma judge_clients_returns:
  "code pp \<noteq> None \<Longrightarrow> \<exists>t'. judge_clients C pp sid ss cids t = Some t'"
proof (induction cids arbitrary: t)
  case (Cons cid cids)
  have "judge_client C pp sid ss cid t \<noteq> None"
    using Cons.prems
    by (auto simp: judge_client_def rebuild_def fragment_params_def Let_def split: option.splits)
  then show ?case using Cons by auto
qed simp

lemma finalize_returns: "code pp \<noteq> None \<Longrightarrow> finalize C pp key sid ss \<noteq> None"
  using judge_clients_returns [of pp C sid ss] by (fastforce simp: finalize_def)

text \<open>The phases of the end of a round return, and change no setting.\<close>

lemma run_steps_static:
  assumes "\<And>r s1. session_ok s1 \<Longrightarrow> \<exists>s2 xs. step r s1 = Some (s2, xs)"
    and "\<And>r s1 s2 xs. step r s1 = Some (s2, xs) \<Longrightarrow> static_of s2 = static_of s1"
    and "session_ok s"
  shows "\<exists>s' xs. run_steps step rs s = Some (s', xs)"
  using assms(3)
proof (induction rs arbitrary: s)
  case (Cons r rs)
  obtain s1 xs where 1: "step r s = Some (s1, xs)" using assms(1) Cons.prems by blast
  have "session_ok s1" using assms(2) [OF 1] session_ok_static Cons.prems by blast
  then show ?case using Cons.IH run_steps_Cons_Some [of step, OF 1] by blast
qed simp

lemma run_steps_keeps:
  assumes "\<And>r s1 s2 xs. step r s1 = Some (s2, xs) \<Longrightarrow> f s2 = f s1"
  shows "run_steps step rs s = Some (s', xs) \<Longrightarrow> f s' = f s"
  by (induction rs arbitrary: s xs) (auto elim!: run_steps_ConsE dest: assms)

lemma fix_one_static: "fix_one C now r s = Some (s', xs) \<Longrightarrow> static_of s' = static_of s"
  by (auto simp: fix_one_def Let_def split: if_splits option.splits)

lemma fix_one_returns: "session_ok s \<Longrightarrow> \<exists>s' xs. fix_one C now r s = Some (s', xs)"
proof -
  assume "session_ok s"
  then have "code (sv_pp s) \<noteq> None" by (auto simp: session_ok_def split: option.splits)
  then have "finalize C (sv_pp s) (exchange (sv_identity s)) (sid_of C r s) ss \<noteq> None" for ss
    by (rule finalize_returns)
  then have "fix_one C now r s \<noteq> None"
    unfolding fix_one_def Let_def by (simp del: not_None_eq split: option.split)
  then show ?thesis by auto
qed

lemma emit_one_cases:
  assumes "emit_one C now r s = Some (s', xs)"
  obtains (idle) "s' = s" "xs = []"
  | (lost) ls where "\<not> now < r" "\<not> emitted_my_public (bucket_at r s)" "inbox (bucket_at r s) \<noteq> []"
      "ls = lane_shares (bucket_at r s) \<or> ls = []"
      "s' = put_bucket r (bucket_at r s\<lparr>inbox := [], lane_shares := ls\<rparr>) s" "xs = []"
  | (shared) cids sp lane lane_open agg_share share_sum where
      "\<not> now < r" "\<not> emitted_my_public (bucket_at r s)" "inbox (bucket_at r s) \<noteq> []"
      "share_set r (bucket_at r s) s = Some cids"
      "run_server_round C (sv_server_id s) (inbox (bucket_at r s)) cids = Some sp"
      "s' = put_bucket r (bucket_at r s
         \<lparr>inbox := [], lane_shares := [],
          peer_lane_sums := fmupd (sv_server_id s) (lane, []) (peer_lane_sums (bucket_at r s)),
          peer_server_publics := fmupd (se_server sp) sp (peer_server_publics (bucket_at r s)),
          emitted_my_public := True\<rparr>) s"
      "xs = [share_message C r sp agg_share share_sum lane_open s]"
proof (cases "now < r \<or> emitted_my_public (bucket_at r s) \<or> inbox (bucket_at r s) = []")
  case True
  then show ?thesis using assms idle by (simp add: emit_one_def Let_def)
next
  case False
  show ?thesis
  proof (cases "share_set r (bucket_at r s) s")
    case None
    then show ?thesis using assms idle False by (simp add: emit_one_def Let_def)
  next
    case (Some cids)
    show ?thesis
    proof (cases "run_server_round C (sv_server_id s) (inbox (bucket_at r s)) cids")
      case None
      then show ?thesis using assms lost [of "lane_shares (bucket_at r s)"] False Some
        by (simp add: emit_one_def Let_def)
    next
      case (Some sp)
      obtain half scp where h: "lane_half C (bucket_at r s) (se_clients sp) s = Some half"
        "share_comm (sv_pp s) = Some scp"
        using assms False Some \<open>share_set r (bucket_at r s) s = Some cids\<close>
        by (auto simp: emit_one_def Let_def bind_eq_Some_conv)
      note eqs = assms [unfolded emit_one_def Let_def] False Some \<open>share_set r (bucket_at r s) s = Some cids\<close> h
      show ?thesis
      proof (cases half)
        case None
        then show ?thesis using eqs lost [of "[]"] by simp
      next
        case (Some lane)
        show ?thesis
        proof (cases "lane_open_to_bytes C scp (ne_agg_open lane)")
          case None
          then show ?thesis using eqs \<open>half = Some lane\<close> lost [of "[]"] by simp
        next
          case (Some lane_open)
          then have "s' = put_bucket r (bucket_at r s
               \<lparr>inbox := [], lane_shares := [],
                peer_lane_sums := fmupd (sv_server_id s) (lane, []) (peer_lane_sums (bucket_at r s)),
                peer_server_publics := fmupd (se_server sp) sp (peer_server_publics (bucket_at r s)),
                emitted_my_public := True\<rparr>) s"
            "\<exists>agg_share share_sum. xs = [share_message C r sp agg_share share_sum lane_open s]"
            using eqs \<open>half = Some lane\<close> by auto
          then show ?thesis using eqs(2-4) shared [of cids sp lane] by blast
        qed
      qed
    qed
  qed
qed

lemma emit_one_static: "emit_one C now r s = Some (s', xs) \<Longrightarrow> static_of s' = static_of s"
  by (erule emit_one_cases) auto

lemma share_set_covered:
  assumes "share_set r b s = Some cids"
  shows "cids \<noteq> []" "c \<in> set cids \<Longrightarrow> c |\<in>| fmdom (publics b) \<and> c \<in> fst ` set (lane_shares b)"
  using assms by (auto simp: share_set_def Let_def list_ex_iff split: option.splits if_splits)

lemma lane_half_returns:
  assumes "share_set r b s = Some cids" "share_comm (sv_pp s) \<noteq> None"
  shows "lane_half C b cids s \<noteq> None"
proof -
  have "those (map (\<lambda>c. map_option (\<lambda>e. (c, share_root e)) (fmlookup (publics b) c)) cs) \<noteq> None"
    if "set cs \<subseteq> set cids" for cs
    using that
  proof (induction cs)
    case (Cons c cs)
    then obtain e where "fmlookup (publics b) c = Some e"
      using share_set_covered(2) [OF assms(1), of c] by (auto dest: fmdomE)
    then show ?case using Cons by (auto split: option.splits)
  qed simp
  from this [of cids] show ?thesis using assms(2) by (auto simp: lane_half_def)
qed

lemma emit_one_returns:
  assumes "share_crate_ok C" "session_ok s"
  shows "\<exists>s' xs. emit_one C now r s = Some (s', xs)"
proof -
  define b where "b = bucket_at r s"
  have scp: "share_comm (sv_pp s) \<noteq> None" using assms(2) by (simp add: session_ok_def)
  have half: "lane_half C b (se_clients sp) s \<noteq> None"
    if "share_set r b s = Some cids" "run_server_round C (sv_server_id s) (inbox b) cids = Some sp" for cids sp
  proof -
    have "se_clients sp = cids" using assms(1) that(2) by (auto simp: share_crate_ok_def)
    then show ?thesis using lane_half_returns [OF that(1) scp] by simp
  qed
  have "emit_one C now r s \<noteq> None"
    using half scp
    by (fastforce simp: emit_one_def b_def [symmetric] Let_def split: option.splits)
  then show ?thesis by auto
qed

declare recover_loop.simps [simp del]

lemma recover_loop_returns:
  assumes "decode_crate_ok C"
  shows "recover_loop C t k sid cids entries servers lanes culprits \<noteq> None"
  using assms
proof (induction C t k sid cids entries servers lanes culprits rule: recover_loop.induct)
  case (1 C t k sid cids entries servers lanes culprits)
  show ?case
  proof (cases "length servers < t \<or> length lanes < k")
    case False
    show ?thesis
    proof (cases "aggregate_and_decrypt_rs C sid cids entries servers lanes")
      case (Inl e)
      then have e: "case e of
           InvalidServerOpening i \<Rightarrow> i < length servers
         | ShareOpeningMismatch i \<Rightarrow> i < length servers
         | LaneOpeningFailed ids \<Rightarrow> (\<exists>l \<in> set lanes. ne_node l \<in> set ids)
         | OtherVerifyError \<Rightarrow> True"
        using "1.prems" unfolding decode_crate_ok_def by blast
      show ?thesis
      proof (cases e)
        case (LaneOpeningFailed ids)
        then have "length (filter (\<lambda>l. ne_node l \<notin> set ids) lanes) < length lanes"
          using e by (auto intro: length_filter_less)
        then show ?thesis using 1 False Inl LaneOpeningFailed
          by (subst recover_loop.simps) (simp add: Let_def)
      qed (use 1 False Inl e in \<open>subst recover_loop.simps, simp\<close>)+
    qed (use 1 False in \<open>subst recover_loop.simps, simp\<close>)
  qed (subst recover_loop.simps, simp)
qed

lemma try_sets_returns:
  assumes "decode_crate_ok C"
  shows "\<exists>res. try_sets C pp t cap sid b cands culprits = Some res"
proof (induction cands arbitrary: culprits)
  case (Cons cids rest)
  have "recover_rs C pp t sid b cids culprits \<noteq> None"
    using recover_loop_returns [OF assms] by (auto simp: recover_rs_def Let_def split: option.splits)
  then show ?case using Cons by (auto split: option.splits)
qed simp

lemma decode_one_returns:
  assumes "decode_crate_ok C"
  shows "\<exists>s' xs. decode_one C r s = Some (s', xs)"
proof -
  define cands where "cands = (case if sv_mode s = ModeSelfDerived then None
      else fmlookup (client_set_by_round s) r of
        Some cids \<Rightarrow> [cids] | None \<Rightarrow> candidate_sets (collect_outputs C (bucket_at r s)))"
  obtain plain culprits where
    "try_sets C (sv_pp s) (sv_shamir_t s) (sv_client_set_max s) (sid_of C r s) (bucket_at r s) cands [] =
     Some (plain, culprits)"
    using try_sets_returns [OF assms] by (metis surj_pair)
  then have "decode_one C r s \<noteq> None"
    unfolding decode_one_def Let_def cands_def [symmetric] by (simp split: option.split)
  then show ?thesis by auto
qed

lemma decode_one_static: "decode_one C r s = Some (s', xs) \<Longrightarrow> static_of s' = static_of s"
  by (auto simp: decode_one_def Let_def bind_eq_Some_conv split: if_splits option.splits)

lemma announce_fold_static:
  "static_of (fold (\<lambda>(r, canonical, demand) t.
                  t\<lparr>client_set_by_round := fmupd r canonical (client_set_by_round t),
                    announced_rounds := finsert r (announced_rounds t)\<rparr>) found s) = static_of s"
  by (induction found arbitrary: s) (auto simp: static_of_def)

lemma announce_settled_static: "static_of (fst (announce_settled now s)) = static_of s"
  by (simp add: announce_settled_def Let_def announce_fold_static)

lemma fix_consensus_sets_returns:
  assumes "session_ok s"
  shows "\<exists>s'. fix_consensus_sets C now s = Some s'"
  using run_steps_static [of "fix_one C now", OF fix_one_returns fix_one_static assms]
  by (fastforce simp: fix_consensus_sets_def)

lemma fix_consensus_sets_static: "fix_consensus_sets C now s = Some s' \<Longrightarrow> static_of s' = static_of s"
  using run_steps_keeps [of "fix_one C now" static_of, OF fix_one_static]
  by (auto simp: fix_consensus_sets_def)

lemma emit_server_publics_returns:
  assumes "share_crate_ok C" "session_ok s"
  shows "\<exists>s' xs. emit_server_publics C now s = Some (s', xs)"
  unfolding emit_server_publics_def
  using run_steps_static [of "emit_one C now" s "fm_keys (rounds s)"] emit_one_returns [OF assms(1)]
    emit_one_static assms(2) by (metis (no_types, lifting))

lemma emit_server_publics_static: "emit_server_publics C now s = Some (s', xs) \<Longrightarrow> static_of s' = static_of s"
  using run_steps_keeps [of "emit_one C now" static_of, OF emit_one_static]
  by (auto simp: emit_server_publics_def split: if_splits)

lemma decode_settled_returns:
  assumes "decode_crate_ok C" "session_ok s"
  shows "\<exists>s' xs. decode_settled C s = Some (s', xs)"
  using run_steps_static [of "decode_one C", OF decode_one_returns [OF assms(1)] decode_one_static assms(2)]
  by (simp add: decode_settled_def)

lemma decode_settled_static: "decode_settled C s = Some (s', xs) \<Longrightarrow> static_of s' = static_of s"
  using run_steps_keeps [of "decode_one C" static_of, OF decode_one_static]
  by (auto simp: decode_settled_def)

lemma gc_static [simp]: "static_of (gc now s) = static_of s"
  by (simp add: gc_def static_of_def Let_def)

text \<open>The phases of \<open>end_round\<close>, taken apart.\<close>

lemma end_phases_cases:
  assumes "end_phases C now s = Some (s', sent, results)"
  obtains s1 announced s2 shares s3 s4 where
    "(s1 = s \<and> announced = []) \<or>
       sv_mode s = ModeLeader \<and> s1 = fst (announce_settled now s) \<and> announced = snd (announce_settled now s)"
    "s2 = s1 \<or> consensus s1 \<and> fix_consensus_sets C now s1 = Some s2"
    "emit_server_publics C now s2 = Some (s3, shares)"
    "decode_settled C s3 = Some (s4, results)"
    "s' = gc now s4" "sent = announced @ shares"
proof -
  obtain s1 announced where a: "(if sv_mode s = ModeLeader \<and> sv_misbehavior s \<noteq> Some Withhold
      then announce_settled now s else (s, [])) = (s1, announced)" by fastforce
  obtain s2 s3 shares s4 where p: "(if consensus s1 then fix_consensus_sets C now s1 else Some s1) = Some s2"
    "emit_server_publics C now s2 = Some (s3, shares)" "decode_settled C s3 = Some (s4, results)"
    "s' = gc now s4" "sent = announced @ shares"
    using assms unfolding end_phases_def Let_def a by (auto simp: bind_eq_Some_conv)
  have "(s1 = s \<and> announced = []) \<or>
    sv_mode s = ModeLeader \<and> s1 = fst (announce_settled now s) \<and> announced = snd (announce_settled now s)"
    using a by (auto split: if_splits)
  moreover have "s2 = s1 \<or> consensus s1 \<and> fix_consensus_sets C now s1 = Some s2"
    using p(1) by (auto split: if_splits)
  ultimately show thesis using that p(2-5) by blast
qed

lemma end_phases_static:
  assumes "end_phases C now s = Some (s', sent, results)"
  shows "static_of s' = static_of s"
  using assms
proof (cases rule: end_phases_cases)
  case (1 s1 announced s2 shares s3 s4)
  have "static_of s1 = static_of s" using 1(1) announce_settled_static [of now s] by auto
  moreover have "static_of s2 = static_of s1" using 1(2) fix_consensus_sets_static [of C now s1 s2] by auto
  ultimately show ?thesis
    using emit_server_publics_static [OF 1(3)] decode_settled_static [OF 1(4)] 1(5) by simp
qed

lemma end_phases_returns:
  assumes "share_crate_ok C" "decode_crate_ok C" "session_ok s"
  shows "end_phases C now s \<noteq> None"
proof -
  obtain s1 announced where a: "(if sv_mode s = ModeLeader \<and> sv_misbehavior s \<noteq> Some Withhold
      then announce_settled now s else (s, [])) = (s1, announced)" by fastforce
  then have 1: "session_ok s1"
    using assms(3) session_ok_static [OF announce_settled_static [of now s]] by (auto split: if_splits)
  obtain s2 where 2: "(if consensus s1 then fix_consensus_sets C now s1 else Some s1) = Some s2" "session_ok s2"
  proof (cases "consensus s1")
    case True
    obtain s2 where "fix_consensus_sets C now s1 = Some s2"
      using fix_consensus_sets_returns [OF 1, of C now] by blast
    moreover from this have "session_ok s2"
      using session_ok_static [OF fix_consensus_sets_static] 1 by blast
    ultimately show ?thesis using True that by simp
  qed (use 1 that in simp)
  obtain s3 shares where 3: "emit_server_publics C now s2 = Some (s3, shares)" "session_ok s3"
    using emit_server_publics_returns [OF assms(1) 2(2)] emit_server_publics_static session_ok_static 2(2) by blast
  obtain s4 results where "decode_settled C s3 = Some (s4, results)"
    using decode_settled_returns [OF assms(2) 3(2)] by blast
  then show ?thesis unfolding end_phases_def Let_def a by (simp add: 2 3)
qed

lemma sv_step_static:
  assumes "sv_step C e s = Some (s', xs)"
  shows "static_of s' = static_of s"
proof (cases e)
  case (SvArrive "from" payload)
  then obtain out where "sv_on_inbound C from payload s = Some (s', out)" using assms by auto
  then show ?thesis by (cases rule: sv_on_inbound_cases) (auto dest: touches_static adopts_static)
next
  case (SvCheckpoint r k)
  then obtain out where "sv_checkpoint C r k s = (s', out)" using assms by (auto split: prod.splits)
  then show ?thesis using sv_checkpoint_touches touches_static by blast
qed (use assms in \<open>auto dest: end_phases_static simp: sv_begin_round_def static_of_def\<close>)

interpretation server_machine: machine "sv_step C"
    "\<lambda>s. session_ok s \<and> share_crate_ok C \<and> decode_crate_ok C" "\<lambda>_. True" for C
proof
  fix s :: "('a, 'b, 'c) pan_server" and e
  assume ok: "session_ok s \<and> share_crate_ok C \<and> decode_crate_ok C"
  then have "sv_on_inbound C from payload s \<noteq> None" for "from" payload
    by (simp add: sv_on_inbound_returns del: not_None_eq)
  moreover have "end_phases C now s \<noteq> None" for now using ok end_phases_returns by blast
  ultimately show "\<exists>s' xs. sv_step C e s = Some (s', xs)"
    by (cases e) (auto split: prod.splits)
qed (use session_ok_static sv_step_static in blast)+

section \<open>Once per round\<close>

text \<open>
  A machine that emits values for rounds, each at most once: a step emits only rounds that
  are not spent, no round twice, and an allowed step spends what it emits and keeps spent
  rounds spent. The last step of a run need not be allowed.
\<close>

primrec steps_allowed ::
    "('op \<Rightarrow> 's \<Rightarrow> ('s \<times> 'x list) option) \<Rightarrow> ('op \<Rightarrow> 's \<Rightarrow> bool) \<Rightarrow> 'op list \<Rightarrow> 's \<Rightarrow> bool" where
  "steps_allowed step ok [] s \<longleftrightarrow> True"
| "steps_allowed step ok (op # ops) s \<longleftrightarrow>
     (ops = [] \<or> ok op s) \<and> (\<forall>s' xs. step op s = Some (s', xs) \<longrightarrow> steps_allowed step ok ops s')"

locale once_per_round =
  fixes step :: "'op \<Rightarrow> 's \<Rightarrow> ('s \<times> 'x list) option"
    and ok :: "'op \<Rightarrow> 's \<Rightarrow> bool"
    and emits :: "'x \<Rightarrow> nat option"
    and spent :: "nat \<Rightarrow> 's \<Rightarrow> bool"
  assumes fresh: "step op s = Some (s', xs) \<Longrightarrow> r \<in> set (List.map_filter emits xs) \<Longrightarrow> \<not> spent r s"
    and step_distinct: "step op s = Some (s', xs) \<Longrightarrow> distinct (List.map_filter emits xs)"
    and spends: "step op s = Some (s', xs) \<Longrightarrow> ok op s \<Longrightarrow> r \<in> set (List.map_filter emits xs) \<Longrightarrow> spent r s'"
    and stays_spent: "step op s = Some (s', xs) \<Longrightarrow> ok op s \<Longrightarrow> spent r s \<Longrightarrow> spent r s'"
begin

lemma run_fresh:
  assumes "run_steps step ops s = Some (s', xs)" "steps_allowed step ok ops s"
    "r \<in> set (List.map_filter emits xs)"
  shows "\<not> spent r s"
  using assms
proof (induction ops arbitrary: s xs)
  case (Cons op ops)
  from Cons.prems(1) obtain s1 us vs where 1: "step op s = Some (s1, us)"
    "run_steps step ops s1 = Some (s', vs)" "xs = us @ vs" by (rule run_steps_ConsE)
  have sa: "steps_allowed step ok ops s1" "ops = [] \<or> ok op s" using Cons.prems(2) 1(1) by auto
  consider "r \<in> set (List.map_filter emits us)" | "r \<in> set (List.map_filter emits vs)"
    using Cons.prems(3) 1(3) by (auto simp: List.map_filter_def)
  then show ?case
  proof cases
    case 2
    then have "ops \<noteq> []" using 1(2) by auto
    then show ?thesis using sa Cons.IH [OF 1(2) sa(1) 2] stays_spent [OF 1(1)] by blast
  qed (rule fresh [OF 1(1)])
qed simp

lemma run_distinct:
  assumes "run_steps step ops s = Some (s', xs)" "steps_allowed step ok ops s"
  shows "distinct (List.map_filter emits xs)"
  using assms
proof (induction ops arbitrary: s xs)
  case (Cons op ops)
  from Cons.prems(1) obtain s1 us vs where 1: "step op s = Some (s1, us)"
    "run_steps step ops s1 = Some (s', vs)" "xs = us @ vs" by (rule run_steps_ConsE)
  have sa: "steps_allowed step ok ops s1" "ops = [] \<or> ok op s" using Cons.prems(2) 1(1) by auto
  have "set (List.map_filter emits us) \<inter> set (List.map_filter emits vs) = {}"
  proof (cases "ops = []")
    case False
    then show ?thesis using spends [OF 1(1)] sa run_fresh [OF 1(2) sa(1)] by blast
  qed (use 1(2) in simp)
  then show ?case
    using step_distinct [OF 1(1)] Cons.IH [OF 1(2) sa(1)] 1(3) by (simp add: List.map_filter_def)
qed simp

end

text \<open>
  The order in which a worker drives a session: its clock does not run back, and it ends no
  round ahead of its clock, except for the drain round with which it stops.
\<close>

fun worker_order :: "round option \<Rightarrow> sv_event list \<Rightarrow> bool" where
  "worker_order cur [] \<longleftrightarrow> True"
| "worker_order cur (SvBegin r # es) \<longleftrightarrow> (case cur of None \<Rightarrow> True | Some c \<Rightarrow> c \<le> r) \<and> worker_order (Some r) es"
| "worker_order cur (SvEnd r # es) \<longleftrightarrow> (es = [] \<or> (case cur of None \<Rightarrow> False | Some c \<Rightarrow> r \<le> c)) \<and> worker_order cur es"
| "worker_order cur (e # es) \<longleftrightarrow> worker_order cur es"

definition in_order :: "sv_event \<Rightarrow> ('p, 'q, 'o) pan_server \<Rightarrow> bool" where
  "in_order e s =
     (case e of
        SvBegin r \<Rightarrow> (case sv_cur_round s of None \<Rightarrow> True | Some c \<Rightarrow> c \<le> r)
      | SvEnd r \<Rightarrow> (case sv_cur_round s of None \<Rightarrow> False | Some c \<Rightarrow> r \<le> c)
      | _ \<Rightarrow> True)"

text \<open>A round so far behind the clock that no message of it is accepted.\<close>

definition past :: "round \<Rightarrow> ('p, 'q, 'o) pan_server \<Rightarrow> bool" where
  "past r s \<longleftrightarrow> (\<exists>c. sv_cur_round s = Some c \<and> r + PANETIERE_ROUND_RETENTION < c)"

lemma past_out_of_scope: "past r s \<Longrightarrow> \<not> in_scope r s"
  by (auto simp: past_def in_scope_def round_in_window_def PANETIERE_ROUND_WINDOW_def
      PANETIERE_ROUND_RETENTION_def saturating_add_def)

text \<open>What the flags of a round say; \<open>None\<close> when there is no bucket.\<close>

definition marks :: "round \<Rightarrow> ('p, 'q, 'o) pan_server \<Rightarrow> (bool \<times> bool) option" where
  "marks r s = map_option (\<lambda>b. (is_decoded b, emitted_my_public b)) (fmlookup (rounds s) r)"

lemma marks_put:
  "marks r' (put_bucket r b s) = (if r' = r then Some (is_decoded b, emitted_my_public b) else marks r' s)"
  by (simp add: marks_def put_bucket_def)

lemma marks_bucket: "marks r s = Some m \<Longrightarrow> m = (is_decoded (bucket_at r s), emitted_my_public (bucket_at r s))"
  by (auto simp: marks_def bucket_at_def)

lemma marks_empty: "marks r s = None \<Longrightarrow> bucket_at r s = empty_round"
  by (auto simp: marks_def bucket_at_def)

lemma marks_touches:
  assumes "touches r s s'"
  shows "marks r' s' = marks r' s \<or> r' = r \<and> marks r s = None \<and> marks r s' = Some (False, False)"
proof (cases "marks r s")
  case None
  then show ?thesis using assms marks_empty [OF None]
    by (auto simp: touches_def marks_put kept_def empty_round_def split: if_splits)
next
  case (Some m)
  then show ?thesis using assms marks_bucket [OF Some]
    by (auto simp: touches_def marks_put kept_def)
qed

text \<open>A pass over the rounds in which each step looks at, and changes, its own round only.\<close>

lemma run_steps_view:
  assumes local: "\<And>r r' s s' xs. step r s = Some (s', xs) \<Longrightarrow> r' \<noteq> r \<Longrightarrow> view r' s' = view r' s"
    and emit: "\<And>r s s' xs. step r s = Some (s', xs) \<Longrightarrow>
      List.map_filter emits xs = [] \<and> view r s' = view r s \<or>
      List.map_filter emits xs = [r] \<and> Q (view r s) (view r s')"
    and run: "run_steps step rs s = Some (s', xs)" "distinct rs"
  shows "distinct (List.map_filter emits xs) \<and> set (List.map_filter emits xs) \<subseteq> set rs \<and>
    (\<forall>r. if r \<in> set (List.map_filter emits xs) then Q (view r s) (view r s') else view r s' = view r s)"
  using run
proof (induction rs arbitrary: s xs)
  case (Cons r0 rs)
  from Cons.prems(1) obtain s1 us vs where 1: "step r0 s = Some (s1, us)"
    "run_steps step rs s1 = Some (s', vs)" "xs = us @ vs" by (rule run_steps_ConsE)
  have IH: "distinct (List.map_filter emits vs)" "set (List.map_filter emits vs) \<subseteq> set rs"
    "\<And>r. if r \<in> set (List.map_filter emits vs) then Q (view r s1) (view r s') else view r s' = view r s1"
    using Cons.IH [OF 1(2)] Cons.prems(2) by auto
  have r0: "r0 \<notin> set (List.map_filter emits vs)" using IH(2) Cons.prems(2) by auto
  have mf: "List.map_filter emits xs = List.map_filter emits us @ List.map_filter emits vs"
    by (simp add: 1(3) List.map_filter_def)
  have other: "view r s1 = view r s" if "r \<noteq> r0" for r using local [OF 1(1)] that by blast
  show ?case
    using emit [OF 1(1)] IH r0 other
    by (auto simp: mf split: if_splits) metis+
qed simp

definition clock_of :: "('p, 'q, 'o) pan_server \<Rightarrow> round option \<times> round option" where
  "clock_of s = (sv_cur_round s, sv_first_round s)"

lemma clock_put [simp]: "clock_of (put_bucket r b s) = clock_of s"
  by (simp add: clock_of_def put_bucket_def)

lemma clock_client_sets [simp]: "clock_of (s\<lparr>client_set_by_round := m\<rparr>) = clock_of s"
  by (simp add: clock_of_def)

lemma announced_put [simp]: "announced_rounds (put_bucket r b s) = announced_rounds s"
  by (simp add: put_bucket_def)

lemma marks_client_sets [simp]: "marks r (s\<lparr>client_set_by_round := m\<rparr>) = marks r s"
  by (simp add: marks_def)

text \<open>Fixing the sets leaves every mark, the clock and the announcements alone.\<close>

lemma bucket_exists:
  "bucket_at r s \<noteq> empty_round \<Longrightarrow> marks r s = Some (is_decoded (bucket_at r s), emitted_my_public (bucket_at r s))"
  by (auto simp: bucket_at_def marks_def split: option.splits)

lemma fix_one_keeps:
  assumes "fix_one C now r s = Some (s', xs)"
  shows "(clock_of s', announced_rounds s', \<lambda>r. marks r s') = (clock_of s, announced_rounds s, \<lambda>r. marks r s)"
proof (cases "set_state (bucket_at r s)")
  case None
  then show ?thesis using assms by (auto simp: fix_one_def Let_def split: if_splits)
next
  case (Some ss)
  then have "bucket_at r s \<noteq> empty_round" by (auto simp: empty_round_def)
  note m = bucket_exists [OF this]
  show ?thesis using assms m Some
    by (auto simp: fix_one_def Let_def marks_put fun_eq_iff split: if_splits)
qed

lemma fix_consensus_sets_keeps:
  assumes "fix_consensus_sets C now s = Some s'"
  shows "clock_of s' = clock_of s" "announced_rounds s' = announced_rounds s" "marks r s' = marks r s"
proof -
  obtain xs where run: "run_steps (fix_one C now) (fm_keys (rounds s)) s = Some (s', xs)"
    using assms by (auto simp: fix_consensus_sets_def)
  have "(clock_of s', announced_rounds s', \<lambda>r. marks r s') = (clock_of s, announced_rounds s, \<lambda>r. marks r s)"
    by (rule run_steps_keeps [of "fix_one C now" "\<lambda>s. (clock_of s, announced_rounds s, \<lambda>r. marks r s)", OF _ run])
      (rule fix_one_keeps)
  then show "clock_of s' = clock_of s" "announced_rounds s' = announced_rounds s" "marks r s' = marks r s"
    by (simp_all add: fun_eq_iff)
qed

text \<open>A share is posted for a round that had none, and marks it.\<close>

fun shared_round :: "panetiere_wire \<Rightarrow> round option" where
  "shared_round (ServerPublic r _ _ _ _ _ _ _) = Some r"
| "shared_round _ = None"

fun announced_round :: "panetiere_wire \<Rightarrow> round option" where
  "announced_round (ClientSet r _ _) = Some r"
| "announced_round _ = None"

lemma shared_round_message [simp]: "shared_round (share_message C r sp x y z s) = Some r"
  by (simp add: share_message_def Let_def)

lemma announced_round_message [simp]: "announced_round (share_message C r sp x y z s) = None"
  by (simp add: share_message_def Let_def)

lemma map_filter_simps [simp]:
  "List.map_filter f [] = []"
  "List.map_filter f (x # xs) = (case f x of None \<Rightarrow> List.map_filter f xs | Some y \<Rightarrow> y # List.map_filter f xs)"
  "List.map_filter f (xs @ ys) = List.map_filter f xs @ List.map_filter f ys"
  by (simp_all add: List.map_filter_def split: option.split)

lemma emit_one_marks:
  assumes "emit_one C now r s = Some (s', xs)"
  shows "List.map_filter shared_round xs = [] \<and> marks r s' = marks r s \<or>
    List.map_filter shared_round xs = [r] \<and> (\<exists>d. marks r s = Some (d, False) \<and> marks r s' = Some (d, True))"
    and "r' \<noteq> r \<Longrightarrow> marks r' s' = marks r' s"
    and "(clock_of s', announced_rounds s') = (clock_of s, announced_rounds s)"
    and "List.map_filter announced_round xs = []"
  using assms
proof (induction rule: emit_one_cases)
  case idle
  { case 1 then show ?case using idle by simp next
    case 2 then show ?case using idle by simp next
    case 3 then show ?case using idle by simp next
    case 4 then show ?case using idle by simp }
next
  case (lost ls)
  then have "bucket_at r s \<noteq> empty_round" by (auto simp: empty_round_def)
  note m = bucket_exists [OF this]
  { case 1 then show ?case using lost m by (simp add: marks_put) next
    case 2 then show ?case using lost by (simp add: marks_put) next
    case 3 then show ?case using lost by simp next
    case 4 then show ?case using lost by simp }
next
  case (shared cids sp lane lane_open agg_share share_sum)
  then have "bucket_at r s \<noteq> empty_round" by (auto simp: empty_round_def)
  note m = bucket_exists [OF this]
  { case 1 then show ?case using shared m by (simp add: marks_put) next
    case 2 then show ?case using shared by (simp add: marks_put) next
    case 3 then show ?case using shared by simp next
    case 4 then show ?case using shared by simp }
qed

lemma emit_server_publics_marks:
  assumes "emit_server_publics C now s = Some (s', xs)"
  shows "distinct (List.map_filter shared_round xs)"
    and "if r \<in> set (List.map_filter shared_round xs)
         then \<exists>d. marks r s = Some (d, False) \<and> marks r s' = Some (d, True) else marks r s' = marks r s"
    and "clock_of s' = clock_of s" "announced_rounds s' = announced_rounds s"
    and "List.map_filter announced_round xs = []"
proof -
  have "distinct (List.map_filter shared_round xs) \<and>
    (if r \<in> set (List.map_filter shared_round xs)
     then \<exists>d. marks r s = Some (d, False) \<and> marks r s' = Some (d, True) else marks r s' = marks r s) \<and>
    (clock_of s', announced_rounds s') = (clock_of s, announced_rounds s) \<and>
    List.map_filter announced_round xs = []"
  proof (cases "sv_misbehavior s = Some Withhold")
    case False
    then have run: "run_steps (emit_one C now) (fm_keys (rounds s)) s = Some (s', xs)"
      using assms by (simp add: emit_server_publics_def)
    have "(clock_of s', announced_rounds s') = (clock_of s, announced_rounds s)"
      by (rule run_steps_keeps [of "emit_one C now" "\<lambda>s. (clock_of s, announced_rounds s)", OF _ run])
        (rule emit_one_marks(3))
    moreover have "List.map_filter announced_round ys = []"
      if "run_steps (emit_one C now) rs t = Some (t', ys)" for rs t t' ys
      using that by (induction rs arbitrary: t ys) (auto elim!: run_steps_ConsE dest: emit_one_marks(4))
    moreover have "distinct (List.map_filter shared_round xs) \<and>
      set (List.map_filter shared_round xs) \<subseteq> set (fm_keys (rounds s)) \<and>
      (\<forall>r. if r \<in> set (List.map_filter shared_round xs)
         then \<exists>d. marks r s = Some (d, False) \<and> marks r s' = Some (d, True) else marks r s' = marks r s)"
      by (rule run_steps_view [of "emit_one C now" marks shared_round
            "\<lambda>m m'. \<exists>d. m = Some (d, False) \<and> m' = Some (d, True)", OF _ _ run])
        (rule emit_one_marks(2), assumption+, rule emit_one_marks(1), assumption, simp)
    ultimately show ?thesis using run by blast
  qed (use assms in \<open>simp add: emit_server_publics_def\<close>)
  then show "distinct (List.map_filter shared_round xs)"
    "if r \<in> set (List.map_filter shared_round xs)
     then \<exists>d. marks r s = Some (d, False) \<and> marks r s' = Some (d, True) else marks r s' = marks r s"
    "clock_of s' = clock_of s" "announced_rounds s' = announced_rounds s"
    "List.map_filter announced_round xs = []" by simp_all
qed

text \<open>A round is decoded when it was not, and is marked.\<close>

fun settled_round :: "decode_result \<Rightarrow> round option" where
  "settled_round (Settled r _) = Some r"
| "settled_round (LaneFault _) = None"

lemma map_filter_faults [simp]: "List.map_filter settled_round (map LaneFault fs) = []"
  by (induction fs) simp_all

lemma decode_one_cases:
  assumes "decode_one C r s = Some (s', xs)"
  obtains (quiet) "s' = s" "List.map_filter settled_round xs = []"
  | (settled) "\<not> is_decoded (bucket_at r s)" "s' = put_bucket r (free_round (bucket_at r s)) s"
      "List.map_filter settled_round xs = [r]"
  using assms unfolding decode_one_def Let_def
  by (auto simp: bind_eq_Some_conv split: if_split_asm option.split_asm)

lemma decode_one_marks:
  assumes "decode_one C r s = Some (s', xs)"
  shows "List.map_filter settled_round xs = [] \<and> marks r s' = marks r s \<or>
    List.map_filter settled_round xs = [r] \<and> (marks r s = None \<or> (\<exists>e. marks r s = Some (False, e) \<and> marks r s' = Some (True, e)))"
    and "r' \<noteq> r \<Longrightarrow> marks r' s' = marks r' s"
    and "(clock_of s', announced_rounds s') = (clock_of s, announced_rounds s)"
proof -
  have "(List.map_filter settled_round xs = [] \<and> marks r s' = marks r s \<or>
    List.map_filter settled_round xs = [r] \<and> (marks r s = None \<or> (\<exists>e. marks r s = Some (False, e) \<and> marks r s' = Some (True, e)))) \<and>
    (r' \<noteq> r \<longrightarrow> marks r' s' = marks r' s) \<and>
    (clock_of s', announced_rounds s') = (clock_of s, announced_rounds s)"
    using assms
  proof (cases rule: decode_one_cases)
    case settled
    then show ?thesis
      by (cases "marks r s") (auto simp: marks_put free_round_def dest: marks_bucket)
  qed auto
  then show "List.map_filter settled_round xs = [] \<and> marks r s' = marks r s \<or>
    List.map_filter settled_round xs = [r] \<and> (marks r s = None \<or> (\<exists>e. marks r s = Some (False, e) \<and> marks r s' = Some (True, e)))"
    "r' \<noteq> r \<Longrightarrow> marks r' s' = marks r' s"
    "(clock_of s', announced_rounds s') = (clock_of s, announced_rounds s)" by auto
qed

lemma decode_settled_marks:
  assumes "decode_settled C s = Some (s', xs)"
  shows "distinct (List.map_filter settled_round xs)"
    and "if r \<in> set (List.map_filter settled_round xs)
         then \<exists>e. marks r s = Some (False, e) \<and> marks r s' = Some (True, e) else marks r s' = marks r s"
    and "clock_of s' = clock_of s" "announced_rounds s' = announced_rounds s"
proof -
  have run: "run_steps (decode_one C) (fm_keys (rounds s)) s = Some (s', xs)"
    using assms by (simp add: decode_settled_def)
  have keeps: "(clock_of s', announced_rounds s') = (clock_of s, announced_rounds s)"
    by (rule run_steps_keeps [of "decode_one C" "\<lambda>s. (clock_of s, announced_rounds s)", OF _ run])
      (rule decode_one_marks(3))
  have v: "distinct (List.map_filter settled_round xs) \<and>
    set (List.map_filter settled_round xs) \<subseteq> set (fm_keys (rounds s)) \<and>
    (\<forall>r. if r \<in> set (List.map_filter settled_round xs)
       then (marks r s = None \<or> (\<exists>e. marks r s = Some (False, e) \<and> marks r s' = Some (True, e))) else marks r s' = marks r s)"
    by (rule run_steps_view [of "decode_one C" marks settled_round
          "\<lambda>m m'. m = None \<or> (\<exists>e. m = Some (False, e) \<and> m' = Some (True, e))", OF _ _ run])
      (rule decode_one_marks(2), assumption+, rule decode_one_marks(1), assumption, simp)
  then have "if r \<in> set (List.map_filter settled_round xs)
       then (marks r s = None \<or> (\<exists>e. marks r s = Some (False, e) \<and> marks r s' = Some (True, e))) else marks r s' = marks r s"
    "r \<in> set (List.map_filter settled_round xs) \<Longrightarrow> r \<in> fmdom' (rounds s)" by auto
  then show "if r \<in> set (List.map_filter settled_round xs)
     then \<exists>e. marks r s = Some (False, e) \<and> marks r s' = Some (True, e) else marks r s' = marks r s"
    by (auto simp: marks_def fmlookup_dom'_iff split: if_splits)
  show "distinct (List.map_filter settled_round xs)" "clock_of s' = clock_of s"
    "announced_rounds s' = announced_rounds s" using v keeps by simp_all
qed

lemma announce_fold:
  "announced_rounds (fold (\<lambda>(r, canonical, demand) t.
       t\<lparr>client_set_by_round := fmupd r canonical (client_set_by_round t),
         announced_rounds := finsert r (announced_rounds t)\<rparr>) found s) =
     announced_rounds s |\<union>| fset_of_list (map fst found)"
  "marks r (fold (\<lambda>(r, canonical, demand) t.
       t\<lparr>client_set_by_round := fmupd r canonical (client_set_by_round t),
         announced_rounds := finsert r (announced_rounds t)\<rparr>) found s) = marks r s"
  "clock_of (fold (\<lambda>(r, canonical, demand) t.
       t\<lparr>client_set_by_round := fmupd r canonical (client_set_by_round t),
         announced_rounds := finsert r (announced_rounds t)\<rparr>) found s) = clock_of s"
  by (induction found arbitrary: s) (auto simp: marks_def clock_of_def)

lemma announce_one_round:
  "announce_one now r s = Some (r', canonical, demand) \<Longrightarrow> r' = r \<and> r |\<notin>| announced_rounds s \<and> marks r s \<noteq> None"
  by (auto simp: announce_one_def marks_def Let_def split: option.splits if_splits)

lemma announce_settled_marks:
  assumes "announce_settled now s = (s', xs)"
  shows "distinct (List.map_filter announced_round xs)"
    and "r \<in> set (List.map_filter announced_round xs) \<Longrightarrow> r |\<notin>| announced_rounds s \<and> marks r s \<noteq> None"
    and "announced_rounds s' = announced_rounds s |\<union>| fset_of_list (List.map_filter announced_round xs)"
    and "marks r s' = marks r s" "clock_of s' = clock_of s" "List.map_filter shared_round xs = []"
proof -
  let ?found = "List.map_filter (\<lambda>r. announce_one now r s) (fm_keys (rounds s))"
  have xs: "xs = map (\<lambda>(r, canonical, demand). ClientSet r canonical demand) ?found"
    using assms by (simp add: announce_settled_def Let_def)
  have f: "List.map_filter announced_round xs = map fst ?found"
  proof -
    have "List.map_filter announced_round (map (\<lambda>(r, canonical, demand). ClientSet r canonical demand) ys) = map fst ys"
      for ys by (induction ys) auto
    then show ?thesis unfolding xs by blast
  qed
  have r: "map fst (List.map_filter (\<lambda>r. announce_one now r s) rs) =
      filter (\<lambda>r. announce_one now r s \<noteq> None) rs" for rs
    by (induction rs) (auto split: option.splits dest: announce_one_round)
  show "distinct (List.map_filter announced_round xs)" unfolding f r by simp
  show "r \<in> set (List.map_filter announced_round xs) \<Longrightarrow> r |\<notin>| announced_rounds s \<and> marks r s \<noteq> None"
    unfolding f r by (auto dest: announce_one_round)
  show "announced_rounds s' = announced_rounds s |\<union>| fset_of_list (List.map_filter announced_round xs)"
    "marks r s' = marks r s" "clock_of s' = clock_of s"
    using assms announce_fold [where found = ?found and s = s] by (simp_all add: announce_settled_def Let_def f prod_eq_iff)
  have "List.map_filter shared_round (map (\<lambda>(r, canonical, demand). ClientSet r canonical demand) ys) = []"
    for ys by (induction ys) auto
  then show "List.map_filter shared_round xs = []" unfolding xs by blast
qed

lemma gc_marks:
  "marks r (gc now s) = (if now - PANETIERE_ROUND_RETENTION \<le> r then marks r s else None)"
  "clock_of (gc now s) = clock_of s"
  "r |\<in>| announced_rounds (gc now s) \<longleftrightarrow> now - PANETIERE_ROUND_RETENTION \<le> r \<and> r |\<in>| announced_rounds s"
  by (auto simp: gc_def marks_def clock_of_def Let_def split: option.split)

text \<open>What ending a round does to the marks of a round, before old rounds are dropped.\<close>

lemma end_phases_marks:
  assumes "end_phases C now s = Some (s', sent, results)"
  obtains t where "s' = gc now t" "clock_of t = clock_of s"
    "distinct (List.map_filter announced_round sent)" "distinct (List.map_filter shared_round sent)"
    "distinct (List.map_filter settled_round results)"
    "announced_rounds t = announced_rounds s |\<union>| fset_of_list (List.map_filter announced_round sent)"
    "\<And>r. r \<in> set (List.map_filter announced_round sent) \<Longrightarrow> r |\<notin>| announced_rounds s \<and> marks r s \<noteq> None"
    "\<And>r. marks r t = None \<longleftrightarrow> marks r s = None"
    "\<And>r d e. marks r s = Some (d, e) \<Longrightarrow>
       marks r t = Some (d \<or> r \<in> set (List.map_filter settled_round results),
                         e \<or> r \<in> set (List.map_filter shared_round sent))"
    "\<And>r. r \<in> set (List.map_filter settled_round results) \<Longrightarrow> \<exists>e. marks r s = Some (False, e)"
    "\<And>r. r \<in> set (List.map_filter shared_round sent) \<Longrightarrow> \<exists>d. marks r s = Some (d, False)"
  using assms
proof (cases rule: end_phases_cases)
  case (1 s1 announced s2 shares s3 s4)
  have a: "distinct (List.map_filter announced_round announced)"
    "\<And>r. r \<in> set (List.map_filter announced_round announced) \<Longrightarrow> r |\<notin>| announced_rounds s \<and> marks r s \<noteq> None"
    "announced_rounds s1 = announced_rounds s |\<union>| fset_of_list (List.map_filter announced_round announced)"
    "\<And>r. marks r s1 = marks r s" "clock_of s1 = clock_of s" "List.map_filter shared_round announced = []"
    using 1(1) announce_settled_marks [of now s s1 announced] by (auto simp: prod_eq_iff)
  have f: "clock_of s2 = clock_of s1" "announced_rounds s2 = announced_rounds s1" "\<And>r. marks r s2 = marks r s1"
    using 1(2) fix_consensus_sets_keeps [of C now s1 s2] by auto
  note e = emit_server_publics_marks [OF 1(3)]
  note d = decode_settled_marks [OF 1(4)]
  show ?thesis
  proof (rule that [of s4])
    show "s' = gc now s4" by fact
    show "clock_of s4 = clock_of s" using a(5) f(1) e(3) d(3) by simp
    show "distinct (List.map_filter announced_round sent)" "distinct (List.map_filter shared_round sent)"
      "distinct (List.map_filter settled_round results)"
      using a(1,6) e(1,5) d(1) by (simp_all add: 1(6))
    show "announced_rounds s4 = announced_rounds s |\<union>| fset_of_list (List.map_filter announced_round sent)"
      using a(3) f(2) e(4,5) d(4) by (simp add: 1(6))
    show "r |\<notin>| announced_rounds s \<and> marks r s \<noteq> None"
      if "r \<in> set (List.map_filter announced_round sent)" for r
      using that a(2) e(5) by (simp add: 1(6))
    show "marks r s4 = None \<longleftrightarrow> marks r s = None" for r
      using a(4) f(3) e(2) [of r] d(2) [of r] by (auto split: if_splits)
    show "marks r s4 = Some (dd \<or> r \<in> set (List.map_filter settled_round results),
        ee \<or> r \<in> set (List.map_filter shared_round sent))" if "marks r s = Some (dd, ee)" for r dd ee
      using that a(4,6) f(3) e(2) [of r] d(2) [of r] by (auto simp: 1(6) split: if_splits)
    show "\<exists>e. marks r s = Some (False, e)" if "r \<in> set (List.map_filter settled_round results)" for r
      using that a(4) f(3) e(2) [of r] d(2) [of r] by (auto split: if_splits)
    show "\<exists>d. marks r s = Some (d, False)" if "r \<in> set (List.map_filter shared_round sent)" for r
      using that a(4,6) f(3) e(2) [of r] by (auto simp: 1(6) split: if_splits)
  qed
qed

text \<open>Other events only open new buckets, for rounds in the window.\<close>

lemma sv_step_other:
  assumes "sv_step C e s = Some (s', xs)" "\<forall>r. e \<noteq> SvEnd r"
  shows "marks r s' = marks r s \<or> marks r s = None \<and> \<not> past r s \<and> marks r s' = Some (False, False)"
    and "announced_rounds s' = announced_rounds s"
    and "sv_cur_round s' = (case e of SvBegin c \<Rightarrow> Some c | _ \<Rightarrow> sv_cur_round s)"
    and "\<exists>out. xs = map Sent out"
proof -
  have t: "announced_rounds s' = announced_rounds s \<and> sv_cur_round s' = sv_cur_round s \<and>
    (marks r s' = marks r s \<or> r = r0 \<and> marks r s = None \<and> marks r s' = Some (False, False))"
    if "touches r0 s s' \<or> adopts r0 s s'" for r0
    using that
  proof
    assume "touches r0 s s'"
    moreover from this have "announced_rounds s' = announced_rounds s \<and> sv_cur_round s' = sv_cur_round s"
      by (auto simp: touches_def put_bucket_def)
    ultimately show ?thesis using marks_touches [of r0 s s' r] by metis
  qed (auto simp: adopts_def marks_def)
  have "(marks r s' = marks r s \<or> marks r s = None \<and> \<not> past r s \<and> marks r s' = Some (False, False)) \<and>
    announced_rounds s' = announced_rounds s \<and>
    sv_cur_round s' = (case e of SvBegin c \<Rightarrow> Some c | _ \<Rightarrow> sv_cur_round s) \<and> (\<exists>out. xs = map Sent out)"
  proof (cases e)
    case (SvArrive "from" payload)
    then obtain out where o: "sv_on_inbound C from payload s = Some (s', out)" "xs = map Sent out"
      using assms by auto
    from o(1) show ?thesis
    proof (cases rule: sv_on_inbound_cases)
      case (2 r0)
      then show ?thesis using t [of r0] past_out_of_scope [of r s] SvArrive o(2) by auto
    qed (use SvArrive o(2) in auto)
  next
    case (SvCheckpoint r0 k)
    then obtain out where o: "sv_checkpoint C r0 k s = (s', out)" "xs = map Sent out"
      using assms by (auto split: prod.splits)
    then show ?thesis using sv_checkpoint_touches [OF o(1)] t [of r0] SvCheckpoint
      by (auto simp: marks_def dest!: fmdomE)
  qed (use assms in \<open>auto simp: sv_begin_round_def marks_def intro: exI [of _ "[]"]\<close>)
  then show "marks r s' = marks r s \<or> marks r s = None \<and> \<not> past r s \<and> marks r s' = Some (False, False)"
    "announced_rounds s' = announced_rounds s"
    "sv_cur_round s' = (case e of SvBegin c \<Rightarrow> Some c | _ \<Rightarrow> sv_cur_round s)"
    "\<exists>out. xs = map Sent out" by auto
qed

lemma past_stays:
  assumes "sv_step C e s = Some (s', xs)" "in_order e s" "past r s"
  shows "past r s'"
proof (cases "\<exists>now. e = SvEnd now")
  case True
  then obtain now sent results where "end_phases C now s = Some (s', sent, results)" using assms(1) by auto
  then obtain t where "s' = gc now t" "clock_of t = clock_of s" by (rule end_phases_marks)
  then show ?thesis using assms(3) by (auto simp: past_def gc_def Let_def clock_of_def)
next
  case False
  then show ?thesis
    using sv_step_other(3) [OF assms(1)] assms(2,3)
    by (cases e) (auto simp: past_def in_order_def)
qed

text \<open>A round is spent for a kind of output once that output was made, or once it is past.\<close>

definition spent_settled :: "round \<Rightarrow> ('p, 'q, 'o) pan_server \<Rightarrow> bool" where
  "spent_settled r s \<longleftrightarrow> (\<exists>e. marks r s = Some (True, e)) \<or> marks r s = None \<and> past r s"

definition spent_shared :: "round \<Rightarrow> ('p, 'q, 'o) pan_server \<Rightarrow> bool" where
  "spent_shared r s \<longleftrightarrow> (\<exists>d. marks r s = Some (d, True)) \<or> marks r s = None \<and> past r s"

definition spent_announced :: "round \<Rightarrow> ('p, 'q, 'o) pan_server \<Rightarrow> bool" where
  "spent_announced r s \<longleftrightarrow> r |\<in>| announced_rounds s \<or> marks r s = None \<and> past r s"

fun out_settled :: "sv_output \<Rightarrow> round option" where
  "out_settled (Result x) = settled_round x"
| "out_settled _ = None"

fun out_shared :: "sv_output \<Rightarrow> round option" where
  "out_shared (Posted m) = shared_round m"
| "out_shared _ = None"

fun out_announced :: "sv_output \<Rightarrow> round option" where
  "out_announced (Posted m) = announced_round m"
| "out_announced _ = None"

lemma out_rounds [simp]:
  "List.map_filter out_settled (map Sent xs) = []" "List.map_filter out_settled (map Posted ms) = []"
  "List.map_filter out_settled (map Result rs) = List.map_filter settled_round rs"
  "List.map_filter out_shared (map Sent xs) = []" "List.map_filter out_shared (map Result rs) = []"
  "List.map_filter out_shared (map Posted ms) = List.map_filter shared_round ms"
  "List.map_filter out_announced (map Sent xs) = []" "List.map_filter out_announced (map Result rs) = []"
  "List.map_filter out_announced (map Posted ms) = List.map_filter announced_round ms"
  by (simp_all add: List.map_filter_def filter_map comp_def)

lemma sv_end_step:
  assumes "sv_step C (SvEnd now) s = Some (s', xs)"
  obtains t sent results where "s' = gc now t" "clock_of t = clock_of s" "xs = map Posted sent @ map Result results"
    "distinct (List.map_filter announced_round sent)" "distinct (List.map_filter shared_round sent)"
    "distinct (List.map_filter settled_round results)"
    "announced_rounds t = announced_rounds s |\<union>| fset_of_list (List.map_filter announced_round sent)"
    "\<And>r. r \<in> set (List.map_filter announced_round sent) \<Longrightarrow> r |\<notin>| announced_rounds s \<and> marks r s \<noteq> None"
    "\<And>r. marks r t = None \<longleftrightarrow> marks r s = None"
    "\<And>r d e. marks r s = Some (d, e) \<Longrightarrow>
       marks r t = Some (d \<or> r \<in> set (List.map_filter settled_round results),
                         e \<or> r \<in> set (List.map_filter shared_round sent))"
    "\<And>r. r \<in> set (List.map_filter settled_round results) \<Longrightarrow> \<exists>e. marks r s = Some (False, e)"
    "\<And>r. r \<in> set (List.map_filter shared_round sent) \<Longrightarrow> \<exists>d. marks r s = Some (d, False)"
proof -
  obtain sent results where "end_phases C now s = Some (s', sent, results)"
    "xs = map Posted sent @ map Result results" using assms by auto
  then show thesis using that by (elim end_phases_marks) blast
qed

text \<open>A round dropped at the end of a round not ahead of the clock is past.\<close>

lemma dropped_past:
  assumes "in_order (SvEnd now) s" "\<not> now - PANETIERE_ROUND_RETENTION \<le> r"
  shows "past r s"
  using assms by (auto simp: in_order_def past_def split: option.splits)

lemma spent_stays:
  assumes step: "sv_step C e s = Some (s', xs)" "in_order e s"
  shows "spent_settled r s \<or> r \<in> set (List.map_filter out_settled xs) \<Longrightarrow> spent_settled r s'"
    and "spent_shared r s \<or> r \<in> set (List.map_filter out_shared xs) \<Longrightarrow> spent_shared r s'"
    and "spent_announced r s \<or> r \<in> set (List.map_filter out_announced xs) \<Longrightarrow> spent_announced r s'"
proof -
  note p = past_stays [OF step, of r]
  have "(spent_settled r s \<or> r \<in> set (List.map_filter out_settled xs) \<longrightarrow> spent_settled r s') \<and>
    (spent_shared r s \<or> r \<in> set (List.map_filter out_shared xs) \<longrightarrow> spent_shared r s') \<and>
    (spent_announced r s \<or> r \<in> set (List.map_filter out_announced xs) \<longrightarrow> spent_announced r s')"
  proof (cases "\<exists>now. e = SvEnd now")
    case False
    then obtain out where xs: "xs = map Sent out" using sv_step_other(4) [OF step(1)] by auto
    show ?thesis
      using sv_step_other(1) [OF step(1), of r] sv_step_other(2) [OF step(1)] False p xs
      by (auto simp: spent_settled_def spent_shared_def spent_announced_def)
  next
    case True
    then obtain now where e: "e = SvEnd now" by blast
    from step(1) [unfolded e] show ?thesis
    proof (cases rule: sv_end_step)
      case (1 t sent results)
      have drop: "past r s" if "\<not> now - PANETIERE_ROUND_RETENTION \<le> r"
        using dropped_past [of now s r] step(2) e that by simp
      show ?thesis
      proof (cases "now - PANETIERE_ROUND_RETENTION \<le> r")
        case False
        then show ?thesis using drop p 1(1) by (simp add: spent_settled_def spent_shared_def spent_announced_def gc_marks)
      next
        case True
        then have m: "marks r s' = marks r t" "r |\<in>| announced_rounds s' \<longleftrightarrow> r |\<in>| announced_rounds t"
          using 1(1) by (simp_all add: gc_marks)
        have xs: "List.map_filter out_settled xs = List.map_filter settled_round results"
          "List.map_filter out_shared xs = List.map_filter shared_round sent"
          "List.map_filter out_announced xs = List.map_filter announced_round sent" by (simp_all add: 1(3))
        have an: "r |\<in>| announced_rounds s' \<longleftrightarrow>
          r |\<in>| announced_rounds s \<or> r \<in> set (List.map_filter announced_round sent)"
          unfolding m(2) 1(7) by (simp add: fset_of_list_elem)
        show ?thesis
        proof (cases "marks r s")
          case None
          then have "r \<notin> set (List.map_filter settled_round results)"
            "r \<notin> set (List.map_filter shared_round sent)" "marks r s' = None"
            using 1(9,11,12) [of r] m(1) by auto
          then show ?thesis unfolding spent_settled_def spent_shared_def spent_announced_def an xs None
            using p by simp
        next
          case (Some de)
          obtain d e' where "marks r s = Some (d, e')" using Some by (cases de) simp
          moreover from this have "marks r s' = Some (d \<or> r \<in> set (List.map_filter settled_round results),
              e' \<or> r \<in> set (List.map_filter shared_round sent))" using 1(10) m(1) by simp
          ultimately show ?thesis unfolding spent_settled_def spent_shared_def spent_announced_def an xs by simp
        qed
      qed
    qed
  qed
  then show "spent_settled r s \<or> r \<in> set (List.map_filter out_settled xs) \<Longrightarrow> spent_settled r s'"
    "spent_shared r s \<or> r \<in> set (List.map_filter out_shared xs) \<Longrightarrow> spent_shared r s'"
    "spent_announced r s \<or> r \<in> set (List.map_filter out_announced xs) \<Longrightarrow> spent_announced r s'" by auto
qed

lemma emitted_fresh:
  assumes "sv_step C e s = Some (s', xs)"
  shows "r \<in> set (List.map_filter out_settled xs) \<Longrightarrow> \<not> spent_settled r s"
    and "r \<in> set (List.map_filter out_shared xs) \<Longrightarrow> \<not> spent_shared r s"
    and "r \<in> set (List.map_filter out_announced xs) \<Longrightarrow> \<not> spent_announced r s"
    and "distinct (List.map_filter out_settled xs)" "distinct (List.map_filter out_shared xs)"
    and "distinct (List.map_filter out_announced xs)"
proof -
  have "(r \<in> set (List.map_filter out_settled xs) \<longrightarrow> \<not> spent_settled r s) \<and>
    (r \<in> set (List.map_filter out_shared xs) \<longrightarrow> \<not> spent_shared r s) \<and>
    (r \<in> set (List.map_filter out_announced xs) \<longrightarrow> \<not> spent_announced r s) \<and>
    distinct (List.map_filter out_settled xs) \<and> distinct (List.map_filter out_shared xs) \<and>
    distinct (List.map_filter out_announced xs)"
  proof (cases "\<exists>now. e = SvEnd now")
    case False
    then obtain out where "xs = map Sent out" using sv_step_other(4) [OF assms] by auto
    then show ?thesis by simp
  next
    case True
    then obtain now where e: "e = SvEnd now" by blast
    from assms [unfolded e] show ?thesis
    proof (cases rule: sv_end_step)
      case (1 t sent results)
      show ?thesis
        using 1(4-6) 1(8,11,12) [of r] 1(3)
        by (auto simp: spent_settled_def spent_shared_def spent_announced_def)
    qed
  qed
  then show "r \<in> set (List.map_filter out_settled xs) \<Longrightarrow> \<not> spent_settled r s"
    "r \<in> set (List.map_filter out_shared xs) \<Longrightarrow> \<not> spent_shared r s"
    "r \<in> set (List.map_filter out_announced xs) \<Longrightarrow> \<not> spent_announced r s"
    "distinct (List.map_filter out_settled xs)" "distinct (List.map_filter out_shared xs)"
    "distinct (List.map_filter out_announced xs)" by auto
qed

interpretation settled_once: once_per_round "sv_step C" in_order out_settled spent_settled for C
  by unfold_locales (blast intro: emitted_fresh spent_stays dest: emitted_fresh)+

interpretation shared_once: once_per_round "sv_step C" in_order out_shared spent_shared for C
  by unfold_locales (blast intro: emitted_fresh spent_stays dest: emitted_fresh)+

interpretation announced_once: once_per_round "sv_step C" in_order out_announced spent_announced for C
  by unfold_locales (blast intro: emitted_fresh spent_stays dest: emitted_fresh)+

lemma worker_order_step:
  assumes "worker_order (sv_cur_round s) (e # evs)" "sv_step C e s = Some (s', xs)"
  shows "worker_order (sv_cur_round s') evs"
proof (cases "\<exists>now. e = SvEnd now")
  case True
  then obtain now where e: "e = SvEnd now" by blast
  from assms(2) [unfolded e] have "sv_cur_round s' = sv_cur_round s"
    by (rule sv_end_step) (simp add: gc_def clock_of_def Let_def)
  then show ?thesis using assms(1) e by simp
next
  case False
  then show ?thesis using assms(1) sv_step_other(3) [OF assms(2)] by (cases e) auto
qed

lemma worker_order_in_order: "worker_order (sv_cur_round s) (e # evs) \<Longrightarrow> evs = [] \<or> in_order e s"
  by (cases e) (auto simp: in_order_def)

lemma worker_order_allowed: "worker_order (sv_cur_round s) evs \<Longrightarrow> steps_allowed (sv_step C) in_order evs s"
proof (induction evs arbitrary: s)
  case (Cons e evs)
  have "\<forall>s' xs. sv_step C e s = Some (s', xs) \<longrightarrow> steps_allowed (sv_step C) in_order evs s'"
    using worker_order_step [OF Cons.prems, of C] Cons.IH by blast
  then show ?case using worker_order_in_order [OF Cons.prems] by simp
qed simp

end
