(* ===== verification/Panetiere_Bounds.thy ===== *)
theory Panetiere_Bounds
  imports Panetiere_Rounds
begin

text \<open>
  Bounds, ownership and coverage in the Panetiere server session: how large its state gets,
  who can write a client's slot, and which set a relay shares over.
\<close>

section \<open>Buckets stay in good shape\<close>

definition buckets_ok :: "('p, 'q, 'o) pan_server \<Rightarrow> bool" where
  "buckets_ok s \<longleftrightarrow> (\<forall>r b. fmlookup (rounds s) r = Some b \<longrightarrow> bucket_ok (admission_cap s) b)"

lemma admission_cap_static: "static_of s' = static_of s \<Longrightarrow> admission_cap s' = admission_cap s"
  using static_fields [of s' s] by (simp add: admission_cap_def)

lemma buckets_ok_at: "buckets_ok s \<Longrightarrow> bucket_ok (admission_cap s) (bucket_at r s)"
  by (auto simp: buckets_ok_def bucket_at_def split: option.split)

lemma admission_cap_put [simp]: "admission_cap (put_bucket r b s) = admission_cap s"
  by (simp add: admission_cap_def put_bucket_def)

lemma buckets_ok_put:
  "buckets_ok s \<Longrightarrow> bucket_ok (admission_cap s) b \<Longrightarrow> buckets_ok (put_bucket r b s)"
  by (auto simp: buckets_ok_def) (auto simp: put_bucket_def split: if_splits)

lemma buckets_ok_sets [simp]: "buckets_ok (s\<lparr>client_set_by_round := m\<rparr>) = buckets_ok s"
  by (simp add: buckets_ok_def admission_cap_def)

lemma touches_buckets_ok: "touches r s s' \<Longrightarrow> buckets_ok s \<Longrightarrow> buckets_ok s'"
  using buckets_ok_at [of s r] by (auto simp: touches_def kept_def intro: buckets_ok_put)

text \<open>The clients of a fixed set have one bulletin each, and at most one opening and slice.\<close>

lemma judge_client_reported:
  assumes "judge_client C pp sid ss cid t = Some t'"
  shows "map fst (admitted t') = map fst (admitted t) \<or>
    map fst (admitted t') = map fst (admitted t) @ [cid] \<and> cid |\<in>| fmdom (bulletins ss)"
proof (cases "reported_key cid ss")
  case (Some pk)
  then have "cid |\<in>| fmdom (bulletins ss)"
    by (auto simp: reported_key_def fmlookup_dom_iff split: option.splits list.splits)
  moreover
  let ?covered = "covered_lanes cid pk ss"
  let ?missing = "missing_lanes (ss_n_lanes ss) ?covered"
  have "map fst (admitted t') = map fst (admitted t) \<or> map fst (admitted t') = map fst (admitted t) @ [cid]"
  proof (cases "rebuild C pp sid cid pk ?covered ?missing ss")
    case (Some res)
    then show ?thesis
      using assms \<open>reported_key cid ss = Some pk\<close>
      by (cases res) (auto simp: judge_client_def Let_def admit_def exclude_def split: if_splits option.splits)
  qed (use assms \<open>reported_key cid ss = Some pk\<close> in \<open>auto simp: judge_client_def Let_def admit_def split: if_splits\<close>)
  ultimately show ?thesis by blast
qed (use assms in \<open>auto simp: judge_client_def exclude_def split: if_splits\<close>)

lemma judge_clients_reported:
  "judge_clients C pp sid ss cids t = Some t' \<Longrightarrow> distinct cids \<Longrightarrow>
   \<exists>ys. map fst (admitted t') = map fst (admitted t) @ ys \<and> distinct ys \<and> set ys \<subseteq> set cids \<and>
     set ys \<subseteq> fset (fmdom (bulletins ss))"
proof (induction cids arbitrary: t)
  case (Cons cid cids)
  from Cons.prems(1) obtain u where u: "judge_client C pp sid ss cid t = Some u"
    "judge_clients C pp sid ss cids u = Some t'" by (auto simp: bind_eq_Some_conv)
  obtain ys where ys: "map fst (admitted t') = map fst (admitted u) @ ys" "distinct ys"
    "set ys \<subseteq> set cids" "set ys \<subseteq> fset (fmdom (bulletins ss))"
    using Cons.IH [OF u(2)] Cons.prems(2) by auto
  from judge_client_reported [OF u(1)] show ?case
  proof
    assume "map fst (admitted u) = map fst (admitted t)"
    then show ?thesis using ys by (intro exI [of _ ys]) auto
  next
    assume "map fst (admitted u) = map fst (admitted t) @ [cid] \<and> cid |\<in>| fmdom (bulletins ss)"
    then show ?thesis using ys Cons.prems(2) by (intro exI [of _ "cid # ys"]) auto
  qed
qed simp

definition adds_some :: "client_id list \<Rightarrow> (client_id \<times> 'a) list \<Rightarrow> (client_id \<times> 'a) list \<Rightarrow> bool" where
  "adds_some cids xs xs' \<longleftrightarrow>
     (\<exists>ys. map fst xs' = map fst xs @ ys \<and> set ys \<subseteq> set cids \<and> (distinct cids \<longrightarrow> distinct ys))"

lemma adds_some_refl [simp]: "adds_some cids xs xs"
  by (simp add: adds_some_def)

lemma adds_some_Cons:
  assumes "xs' = xs \<or> (\<exists>x. xs' = xs @ [(cid, x)])" "adds_some cids xs' xs''"
  shows "adds_some (cid # cids) xs xs''"
proof -
  obtain ys where ys: "map fst xs'' = map fst xs' @ ys" "set ys \<subseteq> set cids" "distinct cids \<longrightarrow> distinct ys"
    using assms(2) unfolding adds_some_def by blast
  from assms(1) show ?thesis
  proof
    assume "xs' = xs"
    then show ?thesis unfolding adds_some_def using ys by (intro exI [of _ ys]) auto
  next
    assume "\<exists>x. xs' = xs @ [(cid, x)]"
    then show ?thesis unfolding adds_some_def using ys by (intro exI [of _ "cid # ys"]) auto
  qed
qed

lemma serve_clients_items:
  "adds_some cids (inbox_items out) (inbox_items (fold (serve_client C key sid ss rebuilt) cids out)) \<and>
   adds_some cids (lane_items out) (lane_items (fold (serve_client C key sid ss rebuilt) cids out))"
proof (induction cids arbitrary: out)
  case (Cons cid cids)
  let ?out = "serve_client C key sid ss rebuilt cid out"
  have "inbox_items ?out = inbox_items out \<or> (\<exists>x. inbox_items ?out = inbox_items out @ [(cid, x)])"
    "lane_items ?out = lane_items out \<or> (\<exists>x. lane_items ?out = lane_items out @ [(cid, x)])"
    by (auto simp: serve_client_def Let_def split: option.splits)
  from this [THEN adds_some_Cons] Cons.IH [of ?out] show ?case by simp
qed simp

lemma finalize_items:
  assumes "finalize C pp key sid ss = Some fixed"
  shows "distinct (map fst (inbox_items fixed)) \<and> fst ` set (inbox_items fixed) \<subseteq> fset (fmdom (bulletins ss)) \<and>
    distinct (map fst (lane_items fixed)) \<and> fst ` set (lane_items fixed) \<subseteq> fset (fmdom (bulletins ss))"
proof -
  obtain t where t: "judge_clients C pp sid ss (reported_clients ss) empty_tally = Some t"
    "fixed = fold (serve_client C key sid ss (rebuilt_for t)) (map fst (admitted t))
       \<lparr>sr_set = [], inbox_items = [], lane_items = [], excluded = t_excluded t,
        conflicted = t_conflicted t, repaired = []\<rparr>"
    using assms by (auto simp: finalize_def)
  have adm: "distinct (map fst (admitted t))" "set (map fst (admitted t)) \<subseteq> fset (fmdom (bulletins ss))"
    using judge_clients_reported [OF t(1)] by (auto simp: reported_clients_def empty_tally_def)
  have "adds_some (map fst (admitted t)) [] (inbox_items fixed) \<and> adds_some (map fst (admitted t)) [] (lane_items fixed)"
    using serve_clients_items [of "map fst (admitted t)" "\<lparr>sr_set = [], inbox_items = [], lane_items = [],
      excluded = t_excluded t, conflicted = t_conflicted t, repaired = []\<rparr>"] unfolding t(2) by simp
  then have "distinct (map fst (inbox_items fixed)) \<and> fst ` set (inbox_items fixed) \<subseteq> set (map fst (admitted t)) \<and>
      distinct (map fst (lane_items fixed)) \<and> fst ` set (lane_items fixed) \<subseteq> set (map fst (admitted t))"
    using adm(1) unfolding adds_some_def by (metis append_Nil list.map(1) set_map)
  then show ?thesis using adm(2) by (meson subset_trans)
qed

lemma fix_one_buckets_ok:
  assumes "fix_one C now r s = Some (s', xs)" "buckets_ok s"
  shows "buckets_ok s'"
proof -
  note b = buckets_ok_at [OF assms(2), of r]
  have 1: "buckets_ok (put_bucket r (bucket_at r s\<lparr>finalized := True\<rparr>) s)"
    by (rule buckets_ok_put [OF assms(2)]) (use b in \<open>simp add: bucket_ok_def set_bulletins_def\<close>)
  have 2: "buckets_ok (put_bucket r (bucket_at r s\<lparr>finalized := True, inbox := inbox_items fixed,
      lane_shares := lane_items fixed\<rparr>) s)"
    if "set_state (bucket_at r s) = Some ss" "finalize C pp key sid ss = Some fixed" for pp key sid ss fixed
  proof (rule buckets_ok_put [OF assms(2)])
    have "fset (fmdom (bulletins ss)) \<subseteq> fset (fmdom (owners (bucket_at r s)))"
      using b that(1) by (auto simp: bucket_ok_def set_bulletins_def)
    with finalize_items [OF that(2)] b show "bucket_ok (admission_cap s) (bucket_at r s\<lparr>finalized := True,
        inbox := inbox_items fixed, lane_shares := lane_items fixed\<rparr>)"
      by (auto simp: bucket_ok_def set_bulletins_def)
  qed
  show ?thesis
    using assms 1 2 unfolding fix_one_def Let_def
    by (auto split: if_split_asm option.split_asm)
qed

lemma emit_one_buckets_ok:
  assumes "emit_one C now r s = Some (s', xs)" "buckets_ok s"
  shows "buckets_ok s'"
proof -
  note b = buckets_ok_at [OF assms(2), of r]
  from assms(1) show ?thesis
  proof (cases rule: emit_one_cases)
    case (lost ls)
    then have "bucket_ok (admission_cap s) (bucket_at r s\<lparr>inbox := [], lane_shares := ls\<rparr>)"
      using b by (auto simp: bucket_ok_def set_bulletins_def)
    then show ?thesis using lost(5) assms(2) buckets_ok_put by blast
  next
    case (shared cids sp lane lane_open agg_share share_sum)
    have "bucket_ok (admission_cap s) (bucket_at r s\<lparr>inbox := [], lane_shares := [],
        peer_lane_sums := x, peer_server_publics := y, emitted_my_public := True\<rparr>)" for x y
      using b by (auto simp: bucket_ok_def set_bulletins_def)
    then show ?thesis using shared(6) assms(2) buckets_ok_put by blast
  qed (use assms(2) in simp)
qed

lemma decode_one_buckets_ok:
  assumes "decode_one C r s = Some (s', xs)" "buckets_ok s"
  shows "buckets_ok s'"
  using assms(1)
proof (cases rule: decode_one_cases)
  case settled
  have "bucket_ok (admission_cap s) (free_round (bucket_at r s))"
    using buckets_ok_at [OF assms(2), of r] by (auto simp: bucket_ok_def set_bulletins_def free_round_def)
  then show ?thesis using settled(2) assms(2) buckets_ok_put by blast
qed (use assms(2) in simp)

lemma run_steps_inv:
  assumes "\<And>r s s' xs. step r s = Some (s', xs) \<Longrightarrow> P s \<Longrightarrow> P s'"
  shows "run_steps step rs s = Some (s', xs) \<Longrightarrow> P s \<Longrightarrow> P s'"
  by (induction rs arbitrary: s xs) (auto elim!: run_steps_ConsE dest: assms)

lemma end_phases_buckets_ok:
  assumes "end_phases C now s = Some (s', sent, results)" "buckets_ok s"
  shows "buckets_ok s'"
  using assms(1)
proof (cases rule: end_phases_cases)
  case (1 s1 announced s2 shares s3 s4)
  have rs: "rounds (fst (announce_settled now s)) = rounds s"
  proof -
    have "rounds (fold (\<lambda>(r, canonical, demand) t.
       t\<lparr>client_set_by_round := fmupd r canonical (client_set_by_round t),
         announced_rounds := finsert r (announced_rounds t)\<rparr>) found s) = rounds s" for found
      by (induction found arbitrary: s) auto
    then show ?thesis by (simp add: announce_settled_def Let_def)
  qed
  have "buckets_ok s1"
    using 1(1) assms(2) rs admission_cap_static [OF announce_settled_static [of now s]]
    by (auto simp: buckets_ok_def)
  then have "buckets_ok s2"
    using 1(2) run_steps_inv [of "fix_one C now" buckets_ok, OF fix_one_buckets_ok]
    by (auto simp: fix_consensus_sets_def)
  then have "buckets_ok s3"
    using 1(3) run_steps_inv [of "emit_one C now" buckets_ok, OF emit_one_buckets_ok]
    by (auto simp: emit_server_publics_def split: if_splits)
  then have "buckets_ok s4"
    using 1(4) run_steps_inv [of "decode_one C" buckets_ok, OF decode_one_buckets_ok]
    by (auto simp: decode_settled_def)
  then show ?thesis
    by (auto simp: 1(5) buckets_ok_def gc_def admission_cap_def Let_def split: option.splits if_splits)
qed

lemma sv_step_buckets_ok:
  assumes "sv_step C e s = Some (s', xs)" "buckets_ok s"
  shows "buckets_ok s'"
proof (cases e)
  case (SvArrive "from" payload)
  then obtain out where "sv_on_inbound C from payload s = Some (s', out)" using assms by auto
  then show ?thesis
    using assms(2) by (cases rule: sv_on_inbound_cases) (auto dest: touches_buckets_ok simp: adopts_def)
next
  case (SvCheckpoint r k)
  then obtain out where "sv_checkpoint C r k s = (s', out)" using assms by (auto split: prod.splits)
  then show ?thesis using sv_checkpoint_touches touches_buckets_ok assms(2) by blast
qed (use assms in \<open>auto dest: end_phases_buckets_ok simp: sv_begin_round_def buckets_ok_def admission_cap_def\<close>)

section \<open>The window of rounds\<close>

text \<open>Once a session has a clock, no bucket lies more than the window ahead of it.\<close>

definition in_window :: "('p, 'q, 'o) pan_server \<Rightarrow> bool" where
  "in_window s \<longleftrightarrow> (\<exists>c. sv_cur_round s = Some c \<and> (\<forall>r \<in> fmdom' (rounds s). r \<le> c + PANETIERE_ROUND_WINDOW))"

lemma dom_marks: "r \<in> fmdom' (rounds s) \<longleftrightarrow> marks r s \<noteq> None"
  by (simp add: marks_def fmlookup_dom'_iff)

lemma in_scope_ahead: "in_scope r s \<Longrightarrow> sv_cur_round s = Some c \<Longrightarrow> r \<le> c + PANETIERE_ROUND_WINDOW"
  by (simp add: in_scope_def round_in_window_def saturating_add_def)

lemma sv_step_in_window:
  assumes "sv_step C e s = Some (s', xs)" "\<And>r. e = SvBegin r \<Longrightarrow> in_order e s" "in_window s"
  shows "in_window s'"
proof -
  obtain c where c: "sv_cur_round s = Some c" "\<And>r. marks r s \<noteq> None \<Longrightarrow> r \<le> c + PANETIERE_ROUND_WINDOW"
    using assms(3) by (auto simp: in_window_def dom_marks)
  show ?thesis
  proof (cases e)
    case (SvEnd now)
    from assms(1) [unfolded SvEnd] show ?thesis
    proof (cases rule: sv_end_step)
      case (1 t sent results)
      then have "sv_cur_round s' = Some c" using c(1) by (simp add: gc_def clock_of_def Let_def)
      moreover have "marks r s \<noteq> None" if "marks r s' \<noteq> None" for r
        using that 1(1) 1(9) [of r] by (simp add: gc_marks del: not_None_eq split: if_splits)
      ultimately show ?thesis using c(2) by (auto simp: in_window_def dom_marks)
    qed
  next
    case (SvArrive "from" payload)
    then obtain out where o: "sv_on_inbound C from payload s = Some (s', out)" using assms by auto
    have cur: "sv_cur_round s' = Some c" using sv_step_other(3) [OF assms(1)] SvArrive c(1) by simp
    have "r \<le> c + PANETIERE_ROUND_WINDOW" if "marks r s' \<noteq> None" for r
      using o
    proof (cases rule: sv_on_inbound_cases)
      case 1
      then show ?thesis using that c(2) by simp
    next
      case (2 r0)
      have "r = r0 \<or> marks r s \<noteq> None"
        using 2(2) that marks_touches [of r0 s s' r] by (metis adopts_def marks_client_sets)
      then show ?thesis using c(2) in_scope_ahead [OF 2(1) c(1)] by blast
    qed
    then show ?thesis using cur by (auto simp: in_window_def dom_marks)
  next
    case (SvCheckpoint r0 k)
    then obtain out where o: "sv_checkpoint C r0 k s = (s', out)" using assms by (auto split: prod.splits)
    have "sv_cur_round s' = Some c" using sv_step_other(3) [OF assms(1)] SvCheckpoint c(1) by simp
    moreover have "marks r s \<noteq> None" if "marks r s' \<noteq> None" for r
    proof -
      have "r0 |\<in>| fmdom (rounds s) \<Longrightarrow> marks r0 s \<noteq> None" by (auto simp: marks_def fmlookup_dom_iff)
      then show ?thesis
        using sv_checkpoint_touches [OF o] marks_touches [of r0 s s' r] that by metis
    qed
    ultimately show ?thesis using c(2) by (auto simp: in_window_def dom_marks)
  next
    case (SvBegin r0)
    then have "c \<le> r0" "s' = sv_begin_round r0 s" using assms c(1) by (auto simp: in_order_def)
    moreover have "r \<le> r0 + PANETIERE_ROUND_WINDOW" if "marks r s \<noteq> None" for r
      using c(2) [OF that] \<open>c \<le> r0\<close> by simp
    ultimately show ?thesis
      by (simp add: in_window_def dom_marks sv_begin_round_def marks_def)
  next
    case (SvMisbehave x)
    then show ?thesis using assms by (auto simp: in_window_def)
  qed
qed

lemma run_in_window:
  assumes "run_steps (sv_step C) evs s = Some (s', outs)" "worker_order (sv_cur_round s) evs" "in_window s"
  shows "in_window s'"
  using assms
proof (induction evs arbitrary: s outs)
  case (Cons e evs)
  from Cons.prems(1) obtain s1 us vs where 1: "sv_step C e s = Some (s1, us)"
    "run_steps (sv_step C) evs s1 = Some (s', vs)" by (rule run_steps_ConsE)
  have "in_window s1"
  proof (rule sv_step_in_window [OF 1(1) _ Cons.prems(3)])
    show "in_order e s" if "e = SvBegin r" for r using Cons.prems(2) that by (simp add: in_order_def)
  qed
  then show ?case using Cons.IH [OF 1(2)] worker_order_step [OF Cons.prems(2) 1(1)] by blast
qed simp

lemma window_size:
  assumes "in_window s" "sv_cur_round s = Some c" "\<And>r. r \<in> fmdom' (rounds s) \<Longrightarrow> c - PANETIERE_ROUND_RETENTION \<le> r"
  shows "fm_size (rounds s) \<le> 9"
proof -
  have "fmdom' (rounds s) \<subseteq> {c - 4..c + 4}"
    using assms by (auto simp: in_window_def PANETIERE_ROUND_WINDOW_def PANETIERE_ROUND_RETENTION_def)
  then have "card (fmdom' (rounds s)) \<le> card {c - 4..c + 4}" by (rule card_mono [rotated]) simp
  moreover have "fm_size (rounds s) = card (fmdom' (rounds s))"
    by (simp add: fm_size_def fcard.rep_eq fmdom'_alt_def)
  ultimately show ?thesis by simp
qed

lemma run_steps_snoc:
  assumes "run_steps step (ops @ [op]) s = Some (s', xs)"
  obtains s1 us vs where "run_steps step ops s = Some (s1, us)" "step op s1 = Some (s', vs)" "xs = us @ vs"
  using assms
proof (induction ops arbitrary: s xs thesis)
  case Nil
  from Nil(2) obtain s1 us vs where "step op s = Some (s1, us)" "run_steps step [] s1 = Some (s', vs)" "xs = us @ vs"
    using run_steps_ConsE [of step op "[]"] by (metis append_Nil)
  then show ?case using Nil(1) by auto
next
  case (Cons op' ops)
  from Cons.prems(2) obtain s1 us vs where 1: "step op' s = Some (s1, us)"
    "run_steps step (ops @ [op]) s1 = Some (s', vs)" "xs = us @ vs"
    using run_steps_ConsE [of step op' "ops @ [op]"] by (metis append_Cons)
  obtain s2 us' vs' where 2: "run_steps step ops s1 = Some (s2, us')" "step op s2 = Some (s', vs')" "vs = us' @ vs'"
    using Cons.IH [OF _ 1(2)] by blast
  show ?case using Cons.prems(1) run_steps_Cons_Some [of step, OF 1(1) 2(1)] 2(2,3) 1(3) by simp
qed

section \<open>Who writes a client's slot\<close>

text \<open>The client messages: round, client, signer, signed bytes and signature.\<close>

fun contribution ::
    "('p, 'q, 'o, 'z) pan_codecs_scheme \<Rightarrow> panetiere_wire \<Rightarrow> (round \<times> client_id \<times> pubkey \<times> bytes \<times> bytes) option" where
  "contribution C (ClientPublic r cid entry pk sg) = Some (r, cid, pk, client_public_signing_bytes C r cid entry, sg)"
| "contribution C (Opening r cid target sealed pk sg) =
     Some (r, cid, pk, client_opening_signing_bytes C r cid target sealed, sg)"
| "contribution C (ClientSlice r cid lane share path pk sg) =
     Some (r, cid, pk, client_slice_signing_bytes C r cid lane share path, sg)"
| "contribution C (Bundle r cid lane dat pk sg) = Some (r, cid, pk, client_bundle_signing_bytes C r cid lane dat, sg)"
| "contribution C (SetFragment r cid target dat pk sg) =
     Some (r, cid, pk, client_fragment_signing_bytes C r cid target dat, sg)"
| "contribution C _ = None"

lemma admit_to_unchanged:
  assumes "admit_to cid pk cap b = (b', go)"
    "\<not> (client_id_from_pubkey pk = cid \<and> fmlookup (owners b) cid \<in> {None, Some pk})"
  shows "b' = b" "\<not> go"
  using assms by (auto simp: admit_to_def admit_client_def split: option.splits if_splits)

lemma bucket_at_put [simp]: "bucket_at r' (put_bucket r b s) = (if r' = r then b else bucket_at r' s)"
  by (simp add: bucket_at_def put_bucket_def)

text \<open>A message that is not accepted, or from a key the slot is closed to, changes no bucket.\<close>

lemma refused_contribution:
  assumes "sv_dispatch C from payload m s = Some (s', out)" "contribution C m = Some (r, cid, pk, msg, sg)"
    "\<not> accept_client C pk sg msg s \<or>
     \<not> (client_id_from_pubkey pk = cid \<and> fmlookup (owners (bucket_at r s)) cid \<in> {None, Some pk})"
  shows "bucket_at r' s' = bucket_at r' s"
proof -
  obtain b go where a: "admit_to cid pk (admission_cap s) (bucket_at r s) = (b, go)" by fastforce
  have u: "accept_client C pk sg msg s \<Longrightarrow> b = bucket_at r s \<and> \<not> go"
    using admit_to_unchanged [OF a] assms(3) by blast
  show ?thesis
  proof (cases m)
    case (ClientPublic r0 cid0 entry pk0 sg0)
    then show ?thesis using assms(1,2) u
      by (auto simp: sv_dispatch_def on_client_public_def Let_def a split: if_split_asm)
  next
    case (Opening r0 cid0 target sealed pk0 sg0)
    then show ?thesis using assms(1,2) u
      by (auto simp: sv_dispatch_def on_opening_def Let_def a split: if_split_asm)
  next
    case (ClientSlice r0 cid0 lane share path pk0 sg0)
    then show ?thesis using assms(1,2) u
      by (auto simp: sv_dispatch_def on_client_slice_def Let_def a split: if_split_asm)
  next
    case (Bundle r0 cid0 lane dat pk0 sg0)
    then show ?thesis using assms(1,2) u
      by (auto simp: sv_dispatch_def on_bundle_def Let_def a split: if_split_asm option.split_asm)
  next
    case (SetFragment r0 cid0 target dat pk0 sg0)
    then show ?thesis using assms(1,2) u
      by (auto simp: sv_dispatch_def on_set_fragment_def Let_def a split: if_split_asm option.split_asm)
  qed (use assms(2) in auto)
qed

lemma contribution_round: "contribution C m = Some (r, x) \<Longrightarrow> wire_round m = r"
  by (cases m) auto

section \<open>What a relay shares over\<close>

text \<open>A message the relay posts for a round, with what it held for that round.\<close>

definition covered_share ::
    "('p, 'q, 'o, 'z) pan_codecs_scheme \<Rightarrow> ('p, 'q, 'o) pan_server \<Rightarrow> panetiere_wire \<Rightarrow> bool" where
  "covered_share C s m =
     (case m of
        ServerPublic r i cids agg_open agg_share share_sum lane_open sg \<Rightarrow>
          i = sv_server_id s \<and> cids \<noteq> [] \<and>
          (sv_mode s \<noteq> ModeSelfDerived \<longrightarrow> fmlookup (client_set_by_round s) r = Some cids) \<and>
          (\<forall>c \<in> set cids. c \<in> fst ` set (inbox (bucket_at r s)) \<and>
             c \<in> fst ` set (lane_shares (bucket_at r s)) \<and> c |\<in>| fmdom (publics (bucket_at r s))) \<and>
          verify C (identity_pubkey C (sv_identity s))
            (server_public_signing_bytes (wire C) r i cids agg_open agg_share share_sum lane_open) sg
      | _ \<Rightarrow> False)"

lemma share_set_held:
  assumes "share_set r b s = Some cids" "c \<in> set cids"
  shows "c \<in> fst ` set (inbox b)"
  using assms
  by (auto simp: share_set_def Let_def list_ex_iff servable_def split: option.splits if_splits)

lemma emit_one_covered:
  assumes "share_crate_ok C" "signing_ok C" "emit_one C now r s = Some (s', xs)" "m \<in> set xs"
  shows "covered_share C s m"
  using assms(3)
proof (cases rule: emit_one_cases)
  case (shared cids sp lane lane_open agg_share share_sum)
  have sp: "se_server sp = sv_server_id s" "se_clients sp = cids"
    using assms(1) shared(5) by (auto simp: share_crate_ok_def)
  have anchor: "sv_mode s \<noteq> ModeSelfDerived \<longrightarrow> fmlookup (client_set_by_round s) r = Some cids"
    using shared(4) by (auto simp: share_set_def Let_def split: option.splits if_splits)
  have m: "m = share_message C r sp agg_share share_sum lane_open s" using assms(4) shared(7) by simp
  show ?thesis
    unfolding m covered_share_def share_message_def Let_def
    using sp anchor share_set_covered [OF shared(4)] share_set_held [OF shared(4)]
      verify_sign [OF assms(2)] by simp
qed (use assms(4) in auto)

text \<open>Emitting for one round does not change what the other rounds are shared over.\<close>

lemma emit_one_local:
  assumes "emit_one C now r s = Some (s', xs)"
  shows "r' \<noteq> r \<Longrightarrow> bucket_at r' s' = bucket_at r' s" "client_set_by_round s' = client_set_by_round s"
  using assms by (auto elim!: emit_one_cases simp: put_bucket_def bucket_at_def)

lemma share_round: "covered_share C s m \<Longrightarrow> shared_round m \<noteq> None"
  by (cases m) (auto simp: covered_share_def)

lemma covered_share_transfer:
  assumes "covered_share C t m" "shared_round m = Some r" "static_of t = static_of s"
    "bucket_at r t = bucket_at r s" "client_set_by_round t = client_set_by_round s"
  shows "covered_share C s m"
  using assms static_fields [OF assms(3)] by (cases m) (simp_all add: covered_share_def)

lemma emit_round:
  assumes "share_crate_ok C" "signing_ok C" "emit_one C now r s = Some (s', xs)" "m \<in> set xs"
  shows "shared_round m = Some r"
  using assms(3) by (cases rule: emit_one_cases) (use assms(4) in auto)

lemma emitted_covered:
  assumes "share_crate_ok C" "signing_ok C" "run_steps (emit_one C now) rs t = Some (s', xs)" "distinct rs"
    "static_of t = static_of s" "\<And>r. r \<in> set rs \<Longrightarrow> bucket_at r t = bucket_at r s"
    "client_set_by_round t = client_set_by_round s" "m \<in> set xs"
  shows "covered_share C s m"
  using assms(3-)
proof (induction rs arbitrary: t xs)
  case (Cons r rs)
  from Cons.prems(1) obtain t1 us vs where 1: "emit_one C now r t = Some (t1, us)"
    "run_steps (emit_one C now) rs t1 = Some (s', vs)" "xs = us @ vs" by (rule run_steps_ConsE)
  show ?case
  proof (cases "m \<in> set us")
    case True
    then show ?thesis
      using covered_share_transfer [OF emit_one_covered [OF assms(1,2) 1(1) True] emit_round [OF assms(1,2) 1(1) True]]
        Cons.prems by simp
  next
    case False
    have "bucket_at r' t1 = bucket_at r' s" if "r' \<in> set rs" for r'
    proof -
      have "r' \<noteq> r" using that Cons.prems(2) by auto
      then show ?thesis using emit_one_local(1) [OF 1(1)] Cons.prems(4) that by simp
    qed
    then show ?thesis
      using Cons.IH [OF 1(2)] Cons.prems False 1(3) emit_one_static [OF 1(1)] emit_one_local(2) [OF 1(1)] by auto
  qed
qed simp

section \<open>A concrete session\<close>

text \<open>
  A subnet of one relay and one client: every signature verifies, the crate's functions
  succeed, and a message is two bytes, its kind and its round.
\<close>

definition demo_pan_wire :: "bytes \<Rightarrow> panetiere_wire option" where
  "demo_pan_wire bs =
     (case bs of
        [k, r] \<Rightarrow>
          (let rr = unat r; pk = Pubkey [0, 0, 0, 0]
           in if k = 0 then Some (ClientPublic rr 0 [] pk [])
              else if k = 1 then Some (Opening rr 0 0 [] pk [])
              else if k = 2 then Some (ClientSlice rr 0 0 [0, 0, 0, 0, 0] [] pk [])
              else None)
      | _ \<Rightarrow> None)"

fun demo_wire_bytes :: "panetiere_wire \<Rightarrow> bytes" where
  "demo_wire_bytes (ClientPublic r _ _ _ _) = [0, word_of_nat r]"
| "demo_wire_bytes (Opening r _ _ _ _ _) = [1, word_of_nat r]"
| "demo_wire_bytes (ClientSlice r _ _ _ _ _ _) = [2, word_of_nat r]"
| "demo_wire_bytes _ = []"

definition demo_pan_codecs :: "(40 word, unit, unit) pan_codecs" where
  "demo_pan_codecs = set_codecs.extend
     (demo_set_codecs\<lparr>ed_sign := \<lambda>_ _ _. [], ed_verify := \<lambda>_ _ _ _. True, sig_verify := \<lambda>_ _ _. True\<rparr>)
     \<lparr>wire = demo_wire_codecs\<lparr>pan_wire_of_bytes := demo_pan_wire\<rparr>,
      wire_to_bytes = demo_wire_bytes,
      client_public_tuple = (\<lambda>_ _ _. []), client_lane_tuple = (\<lambda>_ _ _ _. []),
      client_slice_tuple = (\<lambda>_ _ _ _ _. []),
      entry_packed_len = 0, entry_to_bytes = (\<lambda>_. []),
      entry_of_bytes = (\<lambda>_. Some \<lparr>comm = [], share_root = [], post_pubkey = [1], post_sig = []\<rparr>),
      entry_signing_bytes = (\<lambda>_ _ _ _. []),
      opening_of_packed = (\<lambda>_. Some ()), pack_opening = (\<lambda>_ _. []), pack_cs_shares = concat,
      lane_open_of_bytes = (\<lambda>_ _ b. Some b), lane_open_to_bytes = (\<lambda>_ b. Some b),
      run_server_round = (\<lambda>i items cids.
        Some \<lparr>se_server = i, se_clients = cids, se_agg_open = (), se_agg_share = []\<rparr>),
      run_rs_node_round = (\<lambda>scp i items cids roots.
        Some \<lparr>ne_node = i, ne_clients = cids, ne_share_sum = [], ne_agg_open = []\<rparr>),
      aggregate_and_decrypt_rs = (\<lambda>sid cids entries servers lanes. Inr [[7]]),
      decode_messages = Some,
      hash_order = (\<lambda>ks. ks)\<rparr>"

definition demo_session :: "(40 word, unit, unit) pan_server" where
  "demo_session =
     new_pan_server (demo_params 1 1) 1 0 \<lparr>keypair = [1], exchange = [2]\<rparr> ModeLeader
       (fmap_of_list [(0, Pubkey [1])])\<lparr>sv_client_set_max := 2\<rparr>"

definition demo_events :: "sv_event list" where
  "demo_events =
     [SvBegin 1, SvArrive (Pubkey [0]) [0, 1], SvArrive (Pubkey [0]) [1, 1], SvArrive (Pubkey [0]) [2, 1],
      SvEnd 1, SvBegin 2, SvEnd 2]"

definition demo_outputs :: "sv_output list" where
  "demo_outputs = (case run_steps (sv_step demo_pan_codecs) demo_events demo_session of
     Some (_, outs) \<Rightarrow> outs | None \<Rightarrow> [])"

lemma demo_run:
  "List.map_filter out_settled demo_outputs = [1]"
  by code_simp

section \<open>Properties\<close>

lemma demo_crate_ok: "share_crate_ok demo_pan_codecs" "decode_crate_ok demo_pan_codecs"
  by (simp_all add: share_crate_ok_def decode_crate_ok_def demo_pan_codecs_def set_codecs.defs demo_set_codecs_def
      crypto.defs demo_crypto_def)

lemma demo_session_ok: "session_ok demo_session"
  by (simp add: session_ok_def demo_session_def new_pan_server_def demo_params_def code_def)

text \<open>
  C10. A server session never panics: whatever messages arrive, in whatever order rounds and
  checkpoints come, every event of the session returns, provided the session was built for
  Reed-Solomon mode with a full roster and the crate's verifier blames only what it was
  given. In particular the loop that excludes bad shares ends.
\<close>

theorem server_never_panics:
  assumes "session_ok s" "share_crate_ok C" "decode_crate_ok C"
  shows "\<exists>s' outs. run_steps (sv_step C) evs s = Some (s', outs)"
  using server_machine.run_returns assms by blast

theorem server_never_panics_witness:
  "\<exists>s' outs. run_steps (sv_step demo_pan_codecs) demo_events demo_session = Some (s', outs)"
  by (rule server_never_panics [OF demo_session_ok demo_crate_ok])

text \<open>
  C11. Over any run of a worker, a server announces a client set, posts a share and delivers
  a plaintext at most once for each round. Late and replayed messages of a round that was
  dropped do not bring it back, since the clock has left its window.
\<close>

theorem rounds_settle_once:
  assumes "worker_order (sv_cur_round s) evs" "run_steps (sv_step C) evs s = Some (s', outs)"
  shows "distinct (List.map_filter out_settled outs) \<and> distinct (List.map_filter out_shared outs) \<and>
    distinct (List.map_filter out_announced outs)"
  using settled_once.run_distinct [OF assms(2)] shared_once.run_distinct [OF assms(2)]
    announced_once.run_distinct [OF assms(2)] worker_order_allowed [OF assms(1)] by blast

lemma demo_run_returns:
  "\<exists>s'. run_steps (sv_step demo_pan_codecs) demo_events demo_session = Some (s', demo_outputs)"
  using server_machine.run_returns [of demo_session demo_pan_codecs demo_events] demo_session_ok demo_crate_ok
  by (auto simp: demo_outputs_def)

theorem rounds_settle_once_witness:
  "distinct (List.map_filter out_settled demo_outputs) \<and> distinct (List.map_filter out_shared demo_outputs) \<and>
   distinct (List.map_filter out_announced demo_outputs)"
proof -
  obtain s' where run: "run_steps (sv_step demo_pan_codecs) demo_events demo_session = Some (s', demo_outputs)"
    using demo_run_returns by blast
  show ?thesis
    by (rule rounds_settle_once [OF _ run]) (simp add: demo_session_def new_pan_server_def demo_events_def)
qed

text \<open>The sizes of a bucket in good shape.\<close>

definition bucket_bounded :: "usize \<Rightarrow> ('p, 'q, 'o) round_state \<Rightarrow> bool" where
  "bucket_bounded cap b \<longleftrightarrow>
     fm_size (owners b) \<le> cap \<and> fm_size (publics b) \<le> cap \<and> fcard (rejected b) \<le> saturating_mul cap 4 \<and>
     length (relay_buf b) \<le> RELAY_BUF_MAX \<and> length (inbox b) \<le> cap \<and> length (lane_shares b) \<le> cap"

lemma owned_length:
  assumes "distinct (map fst xs)" "\<forall>x \<in> set xs. fst x |\<in>| fmdom m"
  shows "length xs \<le> fm_size m"
proof -
  have "card (fst ` set xs) \<le> fm_size m"
    unfolding fm_size_def fcard.rep_eq using assms(2) by (intro card_mono) auto
  then show ?thesis using assms(1) by (metis distinct_card length_map set_map)
qed

lemma bucket_ok_bounded: "bucket_ok cap b \<Longrightarrow> bucket_bounded cap b"
  using owned_length [of "inbox b" "owners b"] owned_length [of "lane_shares b" "owners b"]
    fcard_mono [of "fmdom (publics b)" "fmdom (owners b)"]
  by (auto simp: bucket_ok_def bucket_bounded_def fm_size_def)

text \<open>
  C15. The memory of a server is bounded by its configuration: in every reachable state,
  before and after the set of a round is fixed, the round holds at most twice the client cap
  of owners, posts, openings and slices, eight times the cap of rejections and 4096 buffered
  relays, and at the end of a round at most nine rounds are held. Pending bulletins and the
  state of set formation are not part of the bound.
\<close>

theorem server_memory_bounded:
  assumes "rounds s = fmempty" "sv_cur_round s = None" "worker_order None (SvBegin r0 # evs)"
    "run_steps (sv_step C) (SvBegin r0 # evs) s = Some (s', outs)"
  shows "(\<forall>r b. fmlookup (rounds s') r = Some b \<longrightarrow> bucket_bounded (admission_cap s) b) \<and>
    (\<forall>now evs'. evs = evs' @ [SvEnd now] \<and> sv_cur_round s' = Some now \<longrightarrow> fm_size (rounds s') \<le> 9)"
proof (intro conjI allI impI)
  have ok: "buckets_ok s'"
    by (rule run_steps_inv [of "sv_step C" buckets_ok, OF sv_step_buckets_ok assms(4)])
      (use assms(1) in \<open>simp_all add: buckets_ok_def\<close>)
  have "static_of s' = static_of s"
    by (rule run_steps_keeps [of "sv_step C" static_of, OF _ assms(4)]) (rule sv_step_static)
  then show "bucket_bounded (admission_cap s) b" if "fmlookup (rounds s') r = Some b" for r b
    using that ok admission_cap_static bucket_ok_bounded by (metis buckets_ok_def)
  fix now evs' assume e: "evs = evs' @ [SvEnd now] \<and> sv_cur_round s' = Some now"
  from assms(4) obtain s1 us vs where 1: "sv_step C (SvBegin r0) s = Some (s1, us)"
    "run_steps (sv_step C) evs s1 = Some (s', vs)" by (rule run_steps_ConsE)
  have s1: "s1 = sv_begin_round r0 s" using 1(1) by simp
  have "in_window s1" using assms(1) by (simp add: s1 in_window_def sv_begin_round_def)
  then have w: "in_window s'"
    using run_in_window [OF 1(2)] assms(3) by (simp add: s1 sv_begin_round_def)
  from 1(2) e obtain s2 ws zs where "sv_step C (SvEnd now) s2 = Some (s', zs)"
    by (metis run_steps_snoc)
  then obtain t where "s' = gc now t" by (rule sv_end_step)
  then have "now - PANETIERE_ROUND_RETENTION \<le> r" if "r \<in> fmdom' (rounds s')" for r
    using that by (auto simp: dom_marks gc_marks split: if_splits)
  then show "fm_size (rounds s') \<le> 9" using window_size [OF w] e by blast
qed

theorem server_memory_bounded_witness:
  "\<exists>s'. run_steps (sv_step demo_pan_codecs) demo_events demo_session = Some (s', demo_outputs) \<and>
     (\<forall>r b. fmlookup (rounds s') r = Some b \<longrightarrow> bucket_bounded 4 b)"
proof -
  obtain s' where run: "run_steps (sv_step demo_pan_codecs) demo_events demo_session = Some (s', demo_outputs)"
    using demo_run_returns by blast
  have cap: "admission_cap demo_session = 4"
    by (simp add: admission_cap_def demo_session_def saturating_mul_def U64_MAX_def)
  have "(\<forall>r b. fmlookup (rounds s') r = Some b \<longrightarrow> bucket_bounded (admission_cap demo_session) b) \<and>
    (\<forall>now evs'. tl demo_events = evs' @ [SvEnd now] \<and> sv_cur_round s' = Some now \<longrightarrow> fm_size (rounds s') \<le> 9)"
    by (rule server_memory_bounded [of demo_session 1 "tl demo_events" demo_pan_codecs s' demo_outputs])
      (use run in \<open>simp_all add: demo_session_def new_pan_server_def demo_events_def\<close>)
  then show ?thesis using run cap by auto
qed

text \<open>
  C12. A client's slot in a round belongs to one key: a contribution changes the round's
  bucket only when its signature verifies, its signer is an accepted client whose key
  derives the client id, and no other key holds the slot; the buckets of other rounds never
  change.
\<close>

theorem contributions_bound_to_keys:
  assumes "sv_dispatch C from payload m s = Some (s', out)" "contribution C m = Some (r, cid, pk, msg, sg)"
    "bucket_at r' s' \<noteq> bucket_at r' s"
  shows "r' = r \<and> verify C pk msg sg \<and> good_clients s pk \<and> client_id_from_pubkey pk = cid \<and>
    (fmlookup (owners (bucket_at r s)) cid = None \<or> fmlookup (owners (bucket_at r s)) cid = Some pk)"
proof -
  have "accept_client C pk sg msg s \<and> client_id_from_pubkey pk = cid \<and>
    fmlookup (owners (bucket_at r s)) cid \<in> {None, Some pk}"
    using refused_contribution [OF assms(1,2)] assms(3) by blast
  moreover have "r' = r"
    using sv_dispatch_cases [OF assms(1)] contribution_round [OF assms(2)] assms(3)
    by (auto simp: touches_def adopts_def bucket_at_def put_bucket_def split: if_splits)
  ultimately show ?thesis by (auto simp: accept_client_def)
qed

theorem contributions_bound_to_keys_witness:
  "verify demo_pan_codecs (Pubkey [0, 0, 0, 0]) (client_public_signing_bytes demo_pan_codecs 1 0 []) [] \<and>
   client_id_from_pubkey (Pubkey [0, 0, 0, 0]) = 0"
proof -
  let ?s = "on_client_public demo_pan_codecs 1 0 [] (Pubkey [0, 0, 0, 0]) [] demo_session"
  have "inbox (bucket_at 1 ?s) = [] \<and> fm_size (publics (bucket_at 1 ?s)) = 1 \<and>
    fm_size (publics (bucket_at 1 demo_session)) = 0" by code_simp
  then have "bucket_at 1 ?s \<noteq> bucket_at 1 demo_session" by auto
  then show ?thesis
    using contributions_bound_to_keys [of demo_pan_codecs "Pubkey []" "[]"
        "ClientPublic 1 0 [] (Pubkey [0, 0, 0, 0]) []" demo_session ?s "[]" 1 0 "Pubkey [0, 0, 0, 0]"
        "client_public_signing_bytes demo_pan_codecs 1 0 []" "[]" 1]
    by (simp add: sv_dispatch_def)
qed

text \<open>
  C13. A relay shares all or nothing: every share it posts for a round is signed by it and is
  over exactly the set announced or agreed for the round, and for every client of the set
  the relay holds the opening, the slice and the public.
\<close>

theorem shares_cover_announced_set:
  assumes "share_crate_ok C" "signing_ok C" "emit_server_publics C now s = Some (s', xs)" "m \<in> set xs"
  shows "covered_share C s m"
proof -
  have "run_steps (emit_one C now) (fm_keys (rounds s)) s = Some (s', xs)"
    using assms(3,4) by (auto simp: emit_server_publics_def split: if_splits)
  then show ?thesis using emitted_covered [OF assms(1,2)] assms(4) by simp
qed

definition demo_announced :: "(40 word, unit, unit) pan_server" where
  "demo_announced =
     demo_session\<lparr>client_set_by_round := fmap_of_list [(1, [0])],
       rounds := fmap_of_list [(1, empty_round
         \<lparr>publics := fmap_of_list [(0, \<lparr>comm = [], share_root = [], post_pubkey = [1], post_sig = []\<rparr>)],
          inbox := [(0, ())], lane_shares := [(0, [], \<lparr>lane_index = 0, nodes = []\<rparr>)]\<rparr>)]\<rparr>"

definition demo_emitted :: "panetiere_wire list" where
  "demo_emitted = (case emit_server_publics demo_pan_codecs 1 demo_announced of
     Some (_, xs) \<Rightarrow> xs | None \<Rightarrow> [])"

theorem shares_cover_announced_set_witness:
  "demo_emitted \<noteq> [] \<and> covered_share demo_pan_codecs demo_announced (hd demo_emitted)"
proof -
  have len: "length demo_emitted = 1" by code_simp
  then obtain s' where e: "emit_server_publics demo_pan_codecs 1 demo_announced = Some (s', demo_emitted)"
    by (auto simp: demo_emitted_def split: option.splits)
  have sg: "signing_ok demo_pan_codecs"
    by (simp add: signing_ok_def demo_pan_codecs_def set_codecs.defs demo_set_codecs_def crypto.defs demo_crypto_def)
  have "hd demo_emitted \<in> set demo_emitted" using len by (metis hd_in_set length_0_conv zero_neq_one)
  then show ?thesis
    using len shares_cover_announced_set [OF demo_crate_ok(1) sg e] by auto
qed

text \<open>
  C28. The posts waiting for the batch are not bounded: an admitted client that repeats its
  own post grows the list of pending bulletins of the round by one entry each time.
\<close>

theorem replayed_post_grows_bucket:
  assumes "length entry = entry_packed_len C" "entry_of_bytes C entry = Some e" "post_valid C (sid_of C r s) cid e"
    "accept_client C pk sg (client_public_signing_bytes C r cid entry) s"
    "client_id_from_pubkey pk = cid" "fmlookup (owners (bucket_at r s)) cid = Some pk"
  shows "length (pending_bulletins (bucket_at r ((on_client_public C r cid entry pk sg ^^ n) s))) =
    length (pending_bulletins (bucket_at r s)) + n"
proof -
  let ?f = "on_client_public C r cid entry pk sg"
  have step: "static_of (?f t) = static_of s \<and> owners (bucket_at r (?f t)) = owners (bucket_at r t) \<and>
    good_clients (?f t) = good_clients s \<and>
    length (pending_bulletins (bucket_at r (?f t))) = Suc (length (pending_bulletins (bucket_at r t)))"
    if "static_of t = static_of s" "good_clients t = good_clients s"
      "fmlookup (owners (bucket_at r t)) cid = Some pk" for t
  proof -
    have "sid_of C r t = sid_of C r s" using static_fields [OF that(1)] by (simp add: sid_of_def)
    then show ?thesis using assms that
      by (simp add: on_client_public_def accept_client_def admit_to_def admit_client_def file_public_def
          Let_def) (simp add: put_bucket_def)
  qed
  have "static_of ((?f ^^ n) s) = static_of s \<and> good_clients ((?f ^^ n) s) = good_clients s \<and>
    owners (bucket_at r ((?f ^^ n) s)) = owners (bucket_at r s) \<and>
    length (pending_bulletins (bucket_at r ((?f ^^ n) s))) = length (pending_bulletins (bucket_at r s)) + n"
  proof (induction n)
    case (Suc n)
    then show ?case using step [of "(?f ^^ n) s"] assms(6) by simp
  qed simp
  then show ?thesis by simp
qed

theorem replayed_post_grows_bucket_witness:
  "length (pending_bulletins (bucket_at 1
     ((on_client_public demo_pan_codecs 1 0 [] (Pubkey [0, 0, 0, 0]) [] ^^ 1000)
       (on_client_public demo_pan_codecs 1 0 [] (Pubkey [0, 0, 0, 0]) [] demo_session)))) = 1001"
proof -
  let ?pk = "Pubkey [0, 0, 0, 0]"
  let ?s = "on_client_public demo_pan_codecs 1 0 [] ?pk [] demo_session"
  have 1: "length (pending_bulletins (bucket_at 1 ?s)) = 1" by code_simp
  have 2: "fmlookup (owners (bucket_at 1 ?s)) 0 = Some ?pk" by code_simp
  have 3: "accept_client demo_pan_codecs ?pk [] (client_public_signing_bytes demo_pan_codecs 1 0 []) ?s" by code_simp
  have 4: "post_valid demo_pan_codecs (sid_of demo_pan_codecs 1 ?s) 0
      \<lparr>comm = [], share_root = [], post_pubkey = [1], post_sig = []\<rparr>" by code_simp
  show ?thesis
    using replayed_post_grows_bucket [of "[]" demo_pan_codecs _ 1 ?s 0 ?pk "[]" 1000, OF _ _ 4 3 _ 2] 1
    by (simp add: demo_pan_codecs_def set_codecs.defs demo_set_codecs_def crypto.defs client_id_from_pubkey_def
        from_be_bytes_def)
qed

end
