(* ===== verification/Panetiere_Service.thy ===== *)
theory Panetiere_Service
  imports Panetiere_Client Panetiere_Bounds Set_Agreement
begin

text \<open>
  The client and the server of a Panetiere subnet together: an honest client's messages are
  filed by every relay they are addressed to, repair is sent once, to enough lanes, and the
  watcher routes each round once.
\<close>

section \<open>Filing an honest client's messages\<close>

text \<open>
  A relay's slot for a client is open: the client is accepted, its key owns the slot or the
  slot is free and there is room.
\<close>

definition slot_open :: "pubkey \<Rightarrow> round \<Rightarrow> ('p, 'q, 'o) pan_server \<Rightarrow> bool" where
  "slot_open pk r s \<longleftrightarrow> good_clients s pk \<and>
     (fmlookup (owners (bucket_at r s)) (client_id_from_pubkey pk) = Some pk \<or>
      fmlookup (owners (bucket_at r s)) (client_id_from_pubkey pk) = None \<and>
      fm_size (owners (bucket_at r s)) < admission_cap s)"

text \<open>
  What the panetiere crate promises of a client round for the relay \<open>i\<close>: the entry
  survives its packed form and is signed, and the relay's slice and opening parse.
\<close>

definition output_ok ::
    "('p, 'q, 'o, 'z) pan_codecs_scheme \<Rightarrow> bulletin_entry \<Rightarrow> ('p, 'q) rs_round_output \<Rightarrow> round \<Rightarrow>
     ('p, 'q, 'o) pan_server \<Rightarrow> bool" where
  "output_ok C e ro r s \<longleftrightarrow>
     length (entry_to_bytes C e) = entry_packed_len C \<and> entry_of_bytes C (entry_to_bytes C e) = Some e \<and>
     post_valid C (sid_of C r s) (ro_client ro) e \<and>
     (\<forall>(lane, share, path) \<in> set (enumerate 0 (zip (rs_shares ro) (share_paths ro))).
        (case path_to_bytes C path of
           None \<Rightarrow> False
         | Some pb \<Rightarrow> lane = sv_server_id s \<longrightarrow>
             (length (pack_share C share), length pb) = slice_wire_lens C (sv_pp s) \<and>
             parse_slice C (sv_pp s) lane (pack_share C share) pb \<noteq> None)) \<and>
     (\<forall>(i, sealed) \<in> set (sealed_openings ro). i = sv_server_id s \<longrightarrow>
        unseal_opening C (exchange (sv_identity s)) (sid_of C r s) (ro_client ro) i sealed \<noteq> None)"

lemma admit_open:
  assumes "slot_open pk r s"
  obtains b where "admit_to (client_id_from_pubkey pk) pk (admission_cap s) (bucket_at r s) = (b, True)"
    "fmlookup (owners b) (client_id_from_pubkey pk) = Some pk"
    "publics b = publics (bucket_at r s)" "inbox b = inbox (bucket_at r s)"
    "lane_shares b = lane_shares (bucket_at r s)"
  using assms
  by (auto simp: slot_open_def admit_to_def admit_client_def split: if_splits)

text \<open>The three ways a message of the client can be filed, and that none is ever undone.\<close>

definition has_public :: "client_id \<Rightarrow> round \<Rightarrow> ('p, 'q, 'o) pan_server \<Rightarrow> bool" where
  "has_public cid r s \<longleftrightarrow> cid |\<in>| fmdom (publics (bucket_at r s))"

definition has_opening :: "client_id \<Rightarrow> round \<Rightarrow> ('p, 'q, 'o) pan_server \<Rightarrow> bool" where
  "has_opening cid r s \<longleftrightarrow> cid \<in> fst ` set (inbox (bucket_at r s))"

definition has_slice :: "client_id \<Rightarrow> round \<Rightarrow> ('p, 'q, 'o) pan_server \<Rightarrow> bool" where
  "has_slice cid r s \<longleftrightarrow> cid \<in> fst ` set (lane_shares (bucket_at r s))"

text \<open>Handling one more message of the client keeps the slot open and what was filed.\<close>

definition keeps_slot ::
    "pubkey \<Rightarrow> round \<Rightarrow> ('p, 'q, 'o) pan_server \<Rightarrow> ('p, 'q, 'o) pan_server \<Rightarrow> bool" where
  "keeps_slot pk r s s' \<longleftrightarrow> static_of s' = static_of s \<and> good_clients s' = good_clients s \<and> slot_open pk r s' \<and>
     (has_public (client_id_from_pubkey pk) r s \<longrightarrow> has_public (client_id_from_pubkey pk) r s') \<and>
     (has_opening (client_id_from_pubkey pk) r s \<longrightarrow> has_opening (client_id_from_pubkey pk) r s') \<and>
     (has_slice (client_id_from_pubkey pk) r s \<longrightarrow> has_slice (client_id_from_pubkey pk) r s')"

lemma good_put [simp]: "good_clients (put_bucket r b s) = good_clients s"
  by (simp add: put_bucket_def)

lemmas slot_simps = keeps_slot_def has_public_def has_opening_def has_slice_def slot_open_def file_public_def

lemma public_filed:
  assumes "signing_ok C" "slot_open pk r s" "pk = identity_pubkey C ident" "cid = client_id_from_pubkey pk"
    "length (entry_to_bytes C e) = entry_packed_len C" "entry_of_bytes C (entry_to_bytes C e) = Some e"
    "post_valid C (sid_of C r s) cid e"
  obtains s' where "sv_dispatch C from payload (public_message C r cid e ident) s = Some (s', [])"
    "has_public cid r s'" "keeps_slot pk r s s'"
proof -
  obtain b where b: "admit_to cid pk (admission_cap s) (bucket_at r s) = (b, True)"
    "fmlookup (owners b) cid = Some pk" "publics b = publics (bucket_at r s)" "inbox b = inbox (bucket_at r s)"
    "lane_shares b = lane_shares (bucket_at r s)" using admit_open [OF assms(2)] assms(4) by blast
  have acc: "accept_client C pk (sign C ident msg) msg s" for msg
    using verify_sign [OF assms(1)] assms(2,3) by (simp add: accept_client_def slot_open_def)
  have "sv_dispatch C from payload (public_message C r cid e ident) s =
      Some (put_bucket r (file_public cid e b) s, [])"
    using assms(3,5-7) acc b(1)
    by (simp add: sv_dispatch_def public_message_def on_client_public_def Let_def)
  then show thesis
    using that b(2-5) assms(2,4) by (simp add: slot_simps)
qed

lemma opening_filed:
  assumes "signing_ok C" "slot_open pk r s" "pk = identity_pubkey C ident" "cid = client_id_from_pubkey pk"
    "i = sv_server_id s \<Longrightarrow> unseal_opening C (exchange (sv_identity s)) (sid_of C r s) cid i sealed \<noteq> None"
  obtains s' where "sv_dispatch C from payload (opening_message C r cid ident (i, sealed)) s = Some (s', [])"
    "i = sv_server_id s \<longrightarrow> has_opening cid r s'" "keeps_slot pk r s s'"
proof (cases "i = sv_server_id s")
  case False
  then show thesis using that [of s] assms(2)
    by (simp add: sv_dispatch_def opening_message_def on_opening_def slot_simps)
next
  case True
  obtain b where b: "admit_to cid pk (admission_cap s) (bucket_at r s) = (b, True)"
    "fmlookup (owners b) cid = Some pk" "publics b = publics (bucket_at r s)" "inbox b = inbox (bucket_at r s)"
    "lane_shares b = lane_shares (bucket_at r s)" using admit_open [OF assms(2)] assms(4) by blast
  have acc: "accept_client C pk (sign C ident msg) msg s" for msg
    using verify_sign [OF assms(1)] assms(2,3) by (simp add: accept_client_def slot_open_def)
  obtain o' where o': "unseal_opening C (exchange (sv_identity s)) (sid_of C r s) cid i sealed = Some o'"
    using assms(5) True by blast
  define b' where "b' = (if cid \<in> fst ` set (inbox b) then b else b\<lparr>inbox := inbox b @ [(cid, o')]\<rparr>)"
  have "sv_dispatch C from payload (opening_message C r cid ident (i, sealed)) s = Some (put_bucket r b' s, [])"
    using assms(3) acc b(1) o' True
    by (simp add: sv_dispatch_def opening_message_def on_opening_def b'_def)
  moreover have "has_opening cid r (put_bucket r b' s)" "keeps_slot pk r s (put_bucket r b' s)"
    using b(2-5) assms(2,4) by (auto simp: slot_simps b'_def)
  ultimately show thesis using that by blast
qed

lemma slice_filed:
  assumes "signing_ok C" "slot_open pk r s" "pk = identity_pubkey C ident" "cid = client_id_from_pubkey pk"
    "client_slice_wire C r cid ident (lane, share, path) = Some m"
    "lane = sv_server_id s \<Longrightarrow> path_to_bytes C path = Some pb \<and>
       (length (pack_share C share), length pb) = slice_wire_lens C (sv_pp s) \<and>
       parse_slice C (sv_pp s) lane (pack_share C share) pb \<noteq> None"
  obtains s' where "sv_dispatch C sender payload m s = Some (s', [])"
    "lane = sv_server_id s \<longrightarrow> has_slice cid r s'" "keeps_slot pk r s s'"
proof (cases "lane = sv_server_id s")
  case False
  then show thesis using that [of s] assms(2,5)
    by (auto simp: sv_dispatch_def client_slice_wire_def on_client_slice_def slot_simps Let_def)
next
  case True
  obtain b where b: "admit_to cid pk (admission_cap s) (bucket_at r s) = (b, True)"
    "fmlookup (owners b) cid = Some pk" "publics b = publics (bucket_at r s)" "inbox b = inbox (bucket_at r s)"
    "lane_shares b = lane_shares (bucket_at r s)" using admit_open [OF assms(2)] assms(4) by blast
  have acc: "accept_client C pk (sign C ident msg) msg s" for msg
    using verify_sign [OF assms(1)] assms(2,3) by (simp add: accept_client_def slot_open_def)
  obtain sh pa where p: "path_to_bytes C path = Some pb"
    "(length (pack_share C share), length pb) = slice_wire_lens C (sv_pp s)"
    "parse_slice C (sv_pp s) lane (pack_share C share) pb = Some (sh, pa)" using assms(6) True by auto
  define b' where
    "b' = (if cid \<in> fst ` set (lane_shares b) then b else b\<lparr>lane_shares := lane_shares b @ [(cid, sh, pa)]\<rparr>)"
  have m: "m = ClientSlice r cid lane (pack_share C share) pb pk
      (sign C ident (client_slice_signing_bytes C r cid lane (pack_share C share) pb))"
    using assms(3,5) p(1) by (simp add: client_slice_wire_def Let_def)
  have "sv_dispatch C sender payload m s = Some (put_bucket r b' s, [])"
    using acc b(1) p(2,3) True by (simp add: m sv_dispatch_def on_client_slice_def b'_def)
  moreover have "has_slice cid r (put_bucket r b' s)" "keeps_slot pk r s (put_bucket r b' s)"
    using b(2-5) assms(2,4) by (auto simp: slot_simps b'_def)
  ultimately show thesis using that by blast
qed

definition wire_ok :: "('p, 'q, 'o, 'z) pan_codecs_scheme \<Rightarrow> panetiere_wire list \<Rightarrow> bool" where
  "wire_ok C ms \<longleftrightarrow> (\<forall>m \<in> set ms. pan_wire_of_bytes (wire C) (wire_to_bytes C m) = Some m)"

definition deliver ::
    "('p, 'q, 'o, 'z) pan_codecs_scheme \<Rightarrow> peer_id \<Rightarrow> panetiere_wire \<Rightarrow> ('p, 'q, 'o) pan_server \<Rightarrow>
     (('p, 'q, 'o) pan_server \<times> bytes list) option" where
  "deliver C from m s = sv_on_inbound C from (wire_to_bytes C m) s"

text \<open>The kinds of message the client sends this relay.\<close>

fun files :: "client_id \<Rightarrow> round \<Rightarrow> panetiere_wire \<Rightarrow> ('p, 'q, 'o) pan_server \<Rightarrow> bool" where
  "files cid r (ClientPublic _ _ _ _ _) s \<longleftrightarrow> has_public cid r s"
| "files cid r (ClientSlice _ _ lane _ _ _ _) s \<longleftrightarrow> lane = sv_server_id s \<longrightarrow> has_slice cid r s"
| "files cid r (Opening _ _ i _ _ _) s \<longleftrightarrow> i = sv_server_id s \<longrightarrow> has_opening cid r s"
| "files cid r _ s \<longleftrightarrow> True"

lemma those_nth:
  "those xs = Some ys \<Longrightarrow> length ys = length xs \<and> (\<forall>i < length xs. xs ! i = Some (ys ! i))"
proof (induction xs arbitrary: ys)
  case (Cons x xs)
  then show ?case by (auto split: option.splits simp: nth_Cons split: nat.splits)
qed simp

lemma those_set:
  assumes "those (map f xs) = Some ys"
  shows "y \<in> set ys \<longleftrightarrow> (\<exists>x \<in> set xs. f x = Some y)"
  using those_nth [OF assms] by (auto simp: in_set_conv_nth) (metis nth_mem option.inject)+

lemma output_ok_static:
  "static_of t = static_of s \<Longrightarrow> output_ok C e ro r t = output_ok C e ro r s"
  unfolding output_ok_def sid_of_def by (simp only: static_fields [of t s])

lemma deliver_in_scope:
  assumes "wire_ok C ms" "m \<in> set ms" "in_scope (wire_round m) s"
  shows "deliver C from m s = sv_dispatch C from (wire_to_bytes C m) m s"
  using assms by (simp add: deliver_def sv_on_inbound_def wire_ok_def)

lemma client_message_filed:
  assumes "signing_ok C" "wire_ok C msgs" "leader_mode_wire C r e ro ident = Some msgs" "m \<in> set msgs"
    "ro_client ro = client_id_from_pubkey (identity_pubkey C ident)" "output_ok C e ro r s"
    "slot_open (identity_pubkey C ident) r s" "in_scope r s" "length (rs_shares ro) \<le> U32_MAX"
  obtains s' where "deliver C from m s = Some (s', [])" "files (ro_client ro) r m s'"
    "keeps_slot (identity_pubkey C ident) r s s'"
proof -
  let ?pk = "identity_pubkey C ident"
  obtain slices where sl: "those (map (client_slice_wire C r (ro_client ro) ident)
       (map (\<lambda>(i, x). (as_u32 i, x)) (enumerate 0 (zip (rs_shares ro) (share_paths ro))))) = Some slices"
    "msgs = public_message C r (ro_client ro) e ident # slices @
       map (opening_message C r (ro_client ro) ident) (sealed_openings ro)"
    using assms(3) by (auto simp: leader_mode_wire_def)
  have ok: "length (entry_to_bytes C e) = entry_packed_len C" "entry_of_bytes C (entry_to_bytes C e) = Some e"
    "post_valid C (sid_of C r s) (ro_client ro) e"
    "\<And>i sealed. (i, sealed) \<in> set (sealed_openings ro) \<Longrightarrow> i = sv_server_id s \<Longrightarrow>
       unseal_opening C (exchange (sv_identity s)) (sid_of C r s) (ro_client ro) i sealed \<noteq> None"
    using assms(6) unfolding output_ok_def by blast+
  consider "m = public_message C r (ro_client ro) e ident"
    | i share path where "(i, share, path) \<in> set (enumerate 0 (zip (rs_shares ro) (share_paths ro)))"
        "client_slice_wire C r (ro_client ro) ident (as_u32 i, share, path) = Some m"
    | i sealed where "(i, sealed) \<in> set (sealed_openings ro)" "m = opening_message C r (ro_client ro) ident (i, sealed)"
    using assms(4) those_set [OF sl(1), of m] unfolding sl(2) by auto
  then show thesis
  proof cases
    case 1
    have "wire_round m = r" by (simp add: 1 public_message_def Let_def)
    moreover obtain s' where "sv_dispatch C from (wire_to_bytes C m) m s = Some (s', [])"
      "has_public (ro_client ro) r s'" "keeps_slot ?pk r s s'"
      unfolding 1 by (rule public_filed [OF assms(1,7) refl assms(5) ok(1-3)])
    ultimately show thesis
      using that deliver_in_scope [OF assms(2,4)] assms(8) by (simp add: 1 public_message_def Let_def)
  next
    case (2 i share path)
    have "i < length (rs_shares ro)" using 2(1) by (auto simp: in_set_enumerate_eq)
    then have i: "as_u32 i = i" using assms(9) by simp
    obtain pb where pb: "path_to_bytes C path = Some pb"
      "i = sv_server_id s \<longrightarrow> (length (pack_share C share), length pb) = slice_wire_lens C (sv_pp s) \<and>
         parse_slice C (sv_pp s) i (pack_share C share) pb \<noteq> None"
    proof -
      have "case path_to_bytes C path of None \<Rightarrow> False
        | Some pb \<Rightarrow> i = sv_server_id s \<longrightarrow> (length (pack_share C share), length pb) = slice_wire_lens C (sv_pp s) \<and>
            parse_slice C (sv_pp s) i (pack_share C share) pb \<noteq> None"
        using assms(6) 2(1) unfolding output_ok_def by blast
      then show thesis using that by (cases "path_to_bytes C path") simp_all
    qed
    have "path_to_bytes C path = Some pb \<and>
        (length (pack_share C share), length pb) = slice_wire_lens C (sv_pp s) \<and>
        parse_slice C (sv_pp s) i (pack_share C share) pb \<noteq> None" if "i = sv_server_id s"
      using pb that by blast
    note here = this
    obtain s' where s': "sv_dispatch C from (wire_to_bytes C m) m s = Some (s', [])"
      "i = sv_server_id s \<longrightarrow> has_slice (ro_client ro) r s'" "keeps_slot ?pk r s s'"
      by (rule slice_filed [where sender = "from" and payload = "wire_to_bytes C m",
            OF assms(1,7) refl assms(5) 2(2) [unfolded i] here])
    have m: "wire_round m = r" "files (ro_client ro) r m t \<longleftrightarrow> (i = sv_server_id t \<longrightarrow> has_slice (ro_client ro) r t)"
      for t :: "('a, 'b, 'c) pan_server"
      using 2(2) pb(1) i by (auto simp: client_slice_wire_def Let_def)
    have "sv_server_id s' = sv_server_id s" using s'(3) static_fields(3) by (auto simp: keeps_slot_def)
    then show thesis
      using that s' m deliver_in_scope [OF assms(2,4)] assms(8) by auto
  next
    case (3 i sealed)
    obtain s' where s': "sv_dispatch C from (wire_to_bytes C m) m s = Some (s', [])"
      "i = sv_server_id s \<longrightarrow> has_opening (ro_client ro) r s'" "keeps_slot ?pk r s s'"
      unfolding 3(2)
      by (rule opening_filed [OF assms(1,7) refl assms(5) ok(4) [OF 3(1)]])
    have m: "wire_round m = r" "files (ro_client ro) r m t \<longleftrightarrow> (i = sv_server_id t \<longrightarrow> has_opening (ro_client ro) r t)"
      for t :: "('a, 'b, 'c) pan_server" by (simp_all add: 3(2) opening_message_def)
    have "sv_server_id s' = sv_server_id s" using s'(3) static_fields(3) by (auto simp: keeps_slot_def)
    then show thesis
      using that s' m deliver_in_scope [OF assms(2,4)] assms(8) by auto
  qed
qed

lemma files_keeps: "keeps_slot pk r s s' \<Longrightarrow> files (client_id_from_pubkey pk) r m s \<Longrightarrow>
    files (client_id_from_pubkey pk) r m s'"
  using static_fields(3) [of s' s] by (cases m) (auto simp: keeps_slot_def)

lemma sv_dispatch_clock: "sv_dispatch C from payload m s = Some (s', out) \<Longrightarrow> clock_of s' = clock_of s"
  using sv_dispatch_cases [of C "from" payload m s s' out] by (auto simp: touches_def adopts_def)

lemma in_scope_clock: "clock_of s' = clock_of s \<Longrightarrow> in_scope r s' = in_scope r s"
  by (simp add: in_scope_def clock_of_def)

lemma client_served:
  assumes "signing_ok C" "wire_ok C msgs" "leader_mode_wire C r e ro ident = Some msgs"
    "ro_client ro = client_id_from_pubkey (identity_pubkey C ident)" "length (rs_shares ro) \<le> U32_MAX"
    "output_ok C e ro r s" "slot_open (identity_pubkey C ident) r s" "in_scope r s" "set ms \<subseteq> set msgs"
  shows "\<exists>s'. run_steps (deliver C from) ms s = Some (s', []) \<and> (\<forall>m \<in> set ms. files (ro_client ro) r m s') \<and>
    keeps_slot (identity_pubkey C ident) r s s'"
  using assms(6-9)
proof (induction ms arbitrary: s)
  case Nil
  then show ?case by (simp add: keeps_slot_def)
next
  case (Cons m ms)
  let ?pk = "identity_pubkey C ident"
  have "m \<in> set msgs" using Cons.prems(4) by simp
  then obtain s1 where 1: "deliver C from m s = Some (s1, [])" "files (ro_client ro) r m s1" "keeps_slot ?pk r s s1"
    using client_message_filed [OF assms(1-3) _ assms(4) Cons.prems(1-3) assms(5)] by blast
  have "in_scope r s1"
  proof -
    have "clock_of s1 = clock_of s"
      using 1(1) sv_dispatch_clock by (auto simp: deliver_def sv_on_inbound_def split: option.splits if_splits)
    then show ?thesis using in_scope_clock Cons.prems(3) by blast
  qed
  moreover have "output_ok C e ro r s1" "slot_open ?pk r s1"
    using 1(3) output_ok_static [of s1 s C e ro r] Cons.prems(1) unfolding keeps_slot_def by blast+
  moreover have "set ms \<subseteq> set msgs" using Cons.prems(4) by simp
  ultimately obtain s' where s': "run_steps (deliver C from) ms s1 = Some (s', [])"
    "\<forall>m \<in> set ms. files (ro_client ro) r m s'" "keeps_slot ?pk r s1 s'" using Cons.IH by blast
  have "files (ro_client ro) r m s'" using files_keeps [OF s'(3)] 1(2) assms(4) by simp
  moreover have "keeps_slot ?pk r s s'" using 1(3) s'(3) by (auto simp: keeps_slot_def)
  ultimately show ?case
    using run_steps_Cons_Some [of "deliver C from", OF 1(1) s'(1)] s'(2) by auto
qed

text \<open>
  C14. An honest client is served: when its slot is open and its round in the relay's window,
  the relay files the client's post, slice and opening, in whatever order and however often
  the client's messages arrive.
\<close>

theorem honest_client_served:
  assumes "signing_ok C" "wire_ok C msgs" "leader_mode_wire C r e ro ident = Some msgs"
    "ro_client ro = client_id_from_pubkey (identity_pubkey C ident)" "length (rs_shares ro) \<le> U32_MAX"
    "output_ok C e ro r s" "slot_open (identity_pubkey C ident) r s" "in_scope r s" "set ms = set msgs"
    "sv_server_id s < length (rs_shares ro)" "sv_server_id s < length (share_paths ro)"
    "sv_server_id s \<in> fst ` set (sealed_openings ro)"
  shows "\<exists>s'. run_steps (deliver C from) ms s = Some (s', []) \<and>
    ro_client ro |\<in>| fmdom (publics (bucket_at r s')) \<and>
    ro_client ro \<in> fst ` set (inbox (bucket_at r s')) \<and> ro_client ro \<in> fst ` set (lane_shares (bucket_at r s'))"
proof -
  obtain s' where s': "run_steps (deliver C from) ms s = Some (s', [])"
    "\<And>m. m \<in> set msgs \<Longrightarrow> files (ro_client ro) r m s'" "keeps_slot (identity_pubkey C ident) r s s'"
    using client_served [OF assms(1-8)] assms(9) by blast
  have id: "sv_server_id s' = sv_server_id s" using s'(3) static_fields(3) by (auto simp: keeps_slot_def)
  obtain slices where sl: "those (map (client_slice_wire C r (ro_client ro) ident)
       (map (\<lambda>(i, x). (as_u32 i, x)) (enumerate 0 (zip (rs_shares ro) (share_paths ro))))) = Some slices"
    "msgs = public_message C r (ro_client ro) e ident # slices @
       map (opening_message C r (ro_client ro) ident) (sealed_openings ro)"
    using assms(3) by (auto simp: leader_mode_wire_def)
  have "has_public (ro_client ro) r s'"
    using s'(2) [of "public_message C r (ro_client ro) e ident"] sl(2) by (simp add: public_message_def Let_def)
  moreover have "has_opening (ro_client ro) r s'"
  proof -
    obtain sealed where "(sv_server_id s, sealed) \<in> set (sealed_openings ro)" using assms(12) by auto
    then have "opening_message C r (ro_client ro) ident (sv_server_id s, sealed) \<in> set msgs" using sl(2) by simp
    from s'(2) [OF this] show ?thesis using id by (simp add: opening_message_def)
  qed
  moreover have "has_slice (ro_client ro) r s'"
  proof -
    let ?i = "sv_server_id s"
    let ?x = "(rs_shares ro ! ?i, share_paths ro ! ?i)"
    have x: "(?i, ?x) \<in> set (enumerate 0 (zip (rs_shares ro) (share_paths ro)))"
      using assms(10,11) by (simp add: in_set_enumerate_eq)
    obtain j where "client_slice_wire C r (ro_client ro) ident (as_u32 ?i, ?x) = Some j" "j \<in> set slices"
    proof -
      have "client_slice_wire C r (ro_client ro) ident (as_u32 ?i, ?x) \<noteq> None"
        using those_nth [OF sl(1)] assms(10,11) by (auto simp: nth_enumerate_eq)
      then show thesis using that x those_set [OF sl(1)] by force
    qed
    then have "files (ro_client ro) r j s'" "as_u32 ?i = ?i" using s'(2) sl(2) assms(5,10) by auto
    then show ?thesis
      using \<open>client_slice_wire C r (ro_client ro) ident (as_u32 ?i, ?x) = Some j\<close> id
      by (auto simp: client_slice_wire_def Let_def)
  qed
  ultimately show ?thesis using s'(1) by (auto simp: has_public_def has_opening_def has_slice_def)
qed

definition demo_output :: "(40 word, unit) rs_round_output" where
  "demo_output = \<lparr>ro_client = 0, rs_shares = [[0]], share_paths = [\<lparr>lane_index = 0, nodes = []\<rparr>],
     sealed_openings = [(0, [])]\<rparr>"

definition demo_entry :: bulletin_entry where
  "demo_entry = \<lparr>comm = [], share_root = [], post_pubkey = [1], post_sig = []\<rparr>"

definition demo_client_identity :: identity where
  "demo_client_identity = \<lparr>keypair = [0, 0, 0, 0], exchange = []\<rparr>"

definition demo_messages :: "panetiere_wire list" where
  "demo_messages =
     [ClientPublic 1 0 [] (Pubkey [0, 0, 0, 0]) [],
      ClientSlice 1 0 0 [0, 0, 0, 0, 0] [] (Pubkey [0, 0, 0, 0]) [],
      Opening 1 0 0 [] (Pubkey [0, 0, 0, 0]) []]"

lemmas demo_codec_defs = demo_pan_codecs_def set_codecs.defs demo_set_codecs_def crypto.defs demo_crypto_def

lemma demo_signing: "signing_ok demo_pan_codecs"
  by (simp add: signing_ok_def demo_codec_defs)

lemma demo_messages_sent:
  "leader_mode_wire demo_pan_codecs 1 demo_entry demo_output demo_client_identity = Some demo_messages"
  by code_simp

lemma demo_output_ok: "output_ok demo_pan_codecs demo_entry demo_output 1 (sv_begin_round 1 demo_session)"
  by code_simp

theorem honest_client_served_witness:
  "\<exists>s'. run_steps (deliver demo_pan_codecs (Pubkey [9])) (rev demo_messages) (sv_begin_round 1 demo_session) = Some (s', []) \<and>
    ro_client demo_output |\<in>| fmdom (publics (bucket_at 1 s')) \<and>
    ro_client demo_output \<in> fst ` set (inbox (bucket_at 1 s')) \<and>
    ro_client demo_output \<in> fst ` set (lane_shares (bucket_at 1 s'))"
proof (rule honest_client_served [OF demo_signing _ demo_messages_sent _ _ demo_output_ok])
  show "wire_ok demo_pan_codecs demo_messages" by code_simp
  show "slot_open (identity_pubkey demo_pan_codecs demo_client_identity) 1 (sv_begin_round 1 demo_session)" by code_simp
  show "in_scope 1 (sv_begin_round 1 demo_session)" by code_simp
qed (simp_all add: demo_output_def sv_begin_round_def demo_session_def new_pan_server_def U32_MAX_def
  identity_pubkey_def demo_client_identity_def client_id_from_pubkey_def from_be_bytes_def demo_codec_defs)

section \<open>Repair\<close>

lemma map_filter_get:
  assumes "\<And>l. l \<in> set ls \<Longrightarrow> l < length fs"
  shows "List.map_filter (\<lambda>l. map_option (Pair l) (slice_get fs l)) ls = map (\<lambda>l. (l, fs ! l)) ls"
  using assms by (induction ls) (auto simp: slice_get_def)

text \<open>
  C21. A client repairs a round at most once, only when its gap exceeds what the lanes may
  abstain from and enough lanes hold its bundle. It then sends exactly one message to each
  covered lane, in the order of the lanes, and that message carries the fragment of the lane
  itself among those built for the gap: as many as a server needs to rebuild.
\<close>

theorem repair_reaches_enough_lanes:
  assumes "rs_ok C" "code pp = Some rs" "fragment_wire C pp sid r key ident st = Some (st', out)" "out \<noteq> []"
    "fset (cs_covered st) \<subseteq> {..<rs_n rs}"
  shows "\<not> cs_repaired st \<and> rs_n rs - rs_k rs < rs_n rs - fcard (cs_covered st) \<and>
    (\<exists>fs. build_fragments C pp sid (cs_round_out st) (sorted_list_of_fset (cs_covered st)) key = Some fs \<and>
      length fs = rs_n rs \<and>
      out = map (\<lambda>lane. fragment_message C r (csr_client (cs_round_out st)) ident (lane, fs ! lane))
        (sorted_list_of_fset (cs_covered st))) \<and>
    length out = fcard (cs_covered st) \<and> rs_n rs - rs_k rs \<le> length out \<and>
    fragment_wire C pp sid r key ident st' = Some (st', [])"
proof -
  have pp: "pp_rs pp = Some rs" using assms(2) by (auto simp: code_def split: option.splits if_splits)
  let ?cov = "sorted_list_of_fset (cs_covered st)"
  have due: "repair_due rs st" using assms(3,4) pp by (auto simp: fragment_wire_def split: if_splits)
  obtain fs where fs: "build_fragments C pp sid (cs_round_out st) ?cov key = Some fs" "st' = st\<lparr>cs_repaired := True\<rparr>"
    "out = map (fragment_message C r (csr_client (cs_round_out st)) ident)
       (List.map_filter (\<lambda>lane. map_option (Pair lane) (slice_get fs lane)) ?cov)"
    using assms(3) pp due by (auto simp: fragment_wire_def bind_eq_Some_conv Let_def)
  have len: "length fs = rs_n rs"
  proof -
    have "fs \<noteq> []" using assms(4) fs(3) by (auto simp: slice_get_def List.map_filter_def split: if_splits)
    then show ?thesis
      using fs(1) assms(1,2)
      by (auto simp: build_fragments_def fragment_params_def rs_ok_def bind_eq_Some_conv Let_def split: if_splits)
  qed
  have out: "out = map (\<lambda>l. fragment_message C r (csr_client (cs_round_out st)) ident (l, fs ! l)) ?cov"
  proof -
    have "l < length fs" if "l \<in> set ?cov" for l using that assms(5) len by auto
    then have "List.map_filter (\<lambda>l. map_option (Pair l) (slice_get fs l)) ?cov = map (\<lambda>l. (l, fs ! l)) ?cov"
      by (rule map_filter_get)
    then show ?thesis by (simp add: fs(3))
  qed
  have n: "length out = fcard (cs_covered st)"
    by (simp add: out sorted_list_of_fset.rep_eq fcard.rep_eq)
  have "fragment_wire C pp sid r key ident st' = Some (st', [])"
    by (simp add: fragment_wire_def pp repair_due_def fs(2) Let_def)
  moreover have "\<not> cs_repaired st" "rs_n rs - rs_k rs < rs_n rs - fcard (cs_covered st)"
      "rs_n rs - rs_k rs \<le> fcard (cs_covered st)"
    using due unfolding repair_due_def Let_def by auto
  ultimately show ?thesis using n fs(1) len out by simp
qed

definition demo_gap :: "(40 word, unit) client_set_state" where
  "demo_gap = (new_client_set_state demo_entry demo_client_round)\<lparr>cs_covered := {|0|}\<rparr>"

definition demo_repair :: "panetiere_wire list" where
  "demo_repair = (case fragment_wire demo_pan_codecs (demo_params 2 3) [9] 1 [5] demo_client_identity demo_gap of
     Some (_, out) \<Rightarrow> out | None \<Rightarrow> [])"

lemma demo_pan_rs_ok: "rs_ok demo_pan_codecs"
proof -
  have "rs_encode demo_pan_codecs = rs_encode demo_set_codecs"
    "rs_reconstruct demo_pan_codecs = rs_reconstruct demo_set_codecs"
    by (simp_all add: demo_codec_defs)
  then show ?thesis using demo_rs_ok by (simp add: rs_ok_def)
qed

theorem repair_reaches_enough_lanes_witness:
  "\<exists>fs. build_fragments demo_pan_codecs (demo_params 2 3) [9] demo_client_round [0] [5] = Some fs \<and> length fs = 3 \<and>
     demo_repair = [fragment_message demo_pan_codecs 1 (csr_client demo_client_round) demo_client_identity (0, fs ! 0)]"
proof -
  have len: "length demo_repair = 1" by code_simp
  then obtain st' where w: "fragment_wire demo_pan_codecs (demo_params 2 3) [9] 1 [5] demo_client_identity demo_gap =
      Some (st', demo_repair)" by (auto simp: demo_repair_def split: option.splits)
  have gap: "cs_covered demo_gap = {|0|}" "cs_round_out demo_gap = demo_client_round"
    by (simp_all add: demo_gap_def new_client_set_state_def)
  have cov: "sorted_list_of_fset {|0 :: nat|} = [0]" by code_simp
  have "demo_repair \<noteq> []" "fset (cs_covered demo_gap) \<subseteq> {..<3}" using len by (auto simp: gap)
  then show ?thesis
    using repair_reaches_enough_lanes [OF demo_pan_rs_ok demo_pp(1) w] by (simp add: gap cov)
qed

text \<open>Without fragments a client is served by the lanes that hold its receipt only.\<close>

lemma served_without_fragments:
  assumes "fmlookup (ss_fragments s) cid = None" "reported_key cid s = Some pk"
  shows "served C pp sid s cid l \<longleftrightarrow> l \<in> set (covered_lanes cid pk s)"
  using assms by (auto simp: served_def rebuild_def rebuild_from_def split: option.splits)

lemma covered_reported:
  assumes "covered_lanes cid pk s \<noteq> []"
  shows "cid \<in> set (reported_clients s)"
proof -
  have "set (covered_lanes cid pk s) \<noteq> {}" using assms by simp
  then obtain b r where "b \<in> set (fm_values (batches s))" "r \<in> set (rb_receipts b)" "r_client r = cid"
    by (auto simp: covered_lanes_def list_ex_iff)
  then show ?thesis by (force simp: reported_clients_def)
qed

text \<open>
  A client whose view of the round is what the server's receipts say, that misses no more
  lanes than may abstain, and of which the server has no fragments.
\<close>

definition small_gap ::
    "rs_params \<Rightarrow> ('p, 'q) set_server \<Rightarrow> client_id \<Rightarrow> bytes \<Rightarrow> ('p, 'q) client_set_state \<Rightarrow> bool" where
  "small_gap rs s cid pk st \<longleftrightarrow>
     reported_key cid s = Some pk \<and> fmlookup (ss_fragments s) cid = None \<and>
     cs_covered st = fset_of_list (covered_lanes cid pk s) \<and>
     rs_n rs - fcard (cs_covered st) \<le> rs_n rs - rs_k rs"

lemma small_gap_silent:
  assumes "small_gap rs s cid pk st" "pp_rs pp = Some rs"
  shows "fragment_wire C pp sid r key ident st = Some (st, [])"
proof -
  have "\<not> repair_due rs st" using assms(1) by (auto simp: small_gap_def repair_due_def Let_def)
  then show ?thesis using assms(2) by (simp add: fragment_wire_def)
qed

lemma small_gap_reported:
  assumes "small_gap rs s cid pk st" "0 < rs_k rs" "rs_k rs \<le> rs_n rs"
  shows "cid \<in> set (reported_clients s)"
proof (rule covered_reported)
  show "covered_lanes cid pk s \<noteq> []" using assms by (auto simp: small_gap_def fcard.rep_eq)
qed

text \<open>
  C26. Whether a gap can be absorbed is decided by each client for itself, but the budget of
  abstaining lanes is shared: let two clients each miss no more than the \<open>n - k\<close> lanes that
  may abstain, and let the lanes that miss the one or the other be more than \<open>n - k\<close>. Then
  neither sends a repair fragment, and a server that has no fragments of them excludes one of
  the two from the set it fixes.
\<close>

theorem unrepaired_gaps_exclude_client:
  assumes "finalize C pp skey sid s = Some out" "code pp = Some rs" "0 < rs_k rs" "rs_k rs \<le> rs_n rs"
    and "ss_n_lanes s = rs_n rs" "ss_k s = rs_k rs"
    and "small_gap rs s a pka sta" "small_gap rs s b pkb stb"
    and "rs_n rs - rs_k rs < card ({..<rs_n rs} - fset (cs_covered sta) \<inter> fset (cs_covered stb))"
  shows "fragment_wire C pp sid' r keya identa sta = Some (sta, []) \<and>
    fragment_wire C pp sid' r keyb identb stb = Some (stb, []) \<and>
    (a \<in> set (excluded out) \<or> b \<in> set (excluded out))"
proof -
  have pp: "pp_rs pp = Some rs" using assms(2) by (auto simp: code_def split: option.splits if_splits)
  obtain t where ok: "tally_ok C pp sid s (reported_clients s) t" and t: "sr_set out = admitted_ids t"
    "excluded out = t_excluded t"
    by (rule finalize_tally [OF assms(1)])
  have "\<not> (a \<in> set (sr_set out) \<and> b \<in> set (sr_set out))"
  proof
    assume both: "a \<in> set (sr_set out) \<and> b \<in> set (sr_set out)"
    have "l |\<in>| abstaining t \<or> l |\<in>| cs_covered st"
      if "c \<in> set (sr_set out)" "small_gap rs s c pk st" "l < rs_n rs" for c pk st l
    proof -
      have "l |\<in>| abstaining t \<or> Set_Agreement.served C pp sid s c l"
        using ok that(1,3) assms(5) by (simp add: tally_ok_def t)
      then show ?thesis
        using served_without_fragments [of s c pk C pp sid l] that(2) by (auto simp: small_gap_def fset_of_list_elem)
    qed
    then have "{..<rs_n rs} - fset (cs_covered sta) \<inter> fset (cs_covered stb) \<subseteq> fset (abstaining t)"
      using both assms(7,8) by blast
    then have "card ({..<rs_n rs} - fset (cs_covered sta) \<inter> fset (cs_covered stb)) \<le> fcard (abstaining t)"
      unfolding fcard.rep_eq by (intro card_mono) simp_all
    then show False using assms(5,6,9) ok by (simp add: tally_ok_def)
  qed
  moreover have "{a, b} \<subseteq> set (sr_set out) \<union> set (excluded out)"
    using ok small_gap_reported [OF assms(7,3,4)] small_gap_reported [OF assms(8,3,4)] by (auto simp: tally_ok_def t)
  ultimately have "a \<in> set (excluded out) \<or> b \<in> set (excluded out)" by auto
  then show ?thesis by (intro conjI small_gap_silent [OF assms(7) pp] small_gap_silent [OF assms(8) pp])
qed

text \<open>Three lanes of which one may abstain, and two clients that each miss a different lane.\<close>

definition gap_receipt :: "client_id \<Rightarrow> receipt" where
  "gap_receipt cid = \<lparr>r_client = cid, pk_c = [1], bundle_hash = []\<rparr>"

definition gap_batch :: "server_id \<Rightarrow> client_id list \<Rightarrow> receipt_batch" where
  "gap_batch lane cids = \<lparr>rb_server = lane, rb_receipts = map gap_receipt cids, rb_sig = []\<rparr>"

definition gap_server :: "(40 word, unit) set_server" where
  "gap_server =
     (the (new_set_server (demo_params 2 3) 0 [5] [[0], [1], [2]]))
       \<lparr>batches := fmap_of_list [(0, gap_batch 0 [8]), (1, gap_batch 1 [7]), (2, gap_batch 2 [7, 8])],
        bulletins := fmap_of_list [(7, {|[1]|}), (8, {|[1]|})]\<rparr>"

definition gap_client :: "usize list \<Rightarrow> (40 word, unit) client_set_state" where
  "gap_client lanes = (new_client_set_state demo_entry demo_client_round)\<lparr>cs_covered := fset_of_list lanes\<rparr>"

theorem unrepaired_gaps_exclude_client_witness:
  "\<exists>out. finalize demo_pan_codecs (demo_params 2 3) [] [9] gap_server = Some out \<and>
     (7 \<in> set (excluded out) \<or> 8 \<in> set (excluded out)) \<and> sr_set out = [7] \<and>
     fragment_wire demo_pan_codecs (demo_params 2 3) [9] 1 [5] demo_client_identity (gap_client [0, 2]) =
       Some (gap_client [0, 2], [])"
proof -
  have "map_option sr_set (finalize demo_pan_codecs (demo_params 2 3) [] [9] gap_server) = Some [7]" by code_simp
  then obtain out where out: "finalize demo_pan_codecs (demo_params 2 3) [] [9] gap_server = Some out" "sr_set out = [7]"
    by blast
  have lanes: "ss_n_lanes gap_server = 3" "ss_k gap_server = 2" by code_simp+
  have gaps: "small_gap \<lparr>rs_k = 2, rs_n = 3\<rparr> gap_server 7 [1] (gap_client [1, 2])"
    "small_gap \<lparr>rs_k = 2, rs_n = 3\<rparr> gap_server 8 [1] (gap_client [0, 2])" by code_simp+
  have cov: "fset (cs_covered (gap_client [1, 2])) \<inter> fset (cs_covered (gap_client [0, 2])) = {2}"
    by (simp add: gap_client_def)
  have "{..<3 :: nat} - {2} = {0, 1}" by auto
  then have card: "card ({..<3 :: nat} - {2}) = 2" by simp
  have "rs_n \<lparr>rs_k = 2, rs_n = 3\<rparr> - rs_k \<lparr>rs_k = 2, rs_n = 3\<rparr> < card ({..<rs_n \<lparr>rs_k = 2, rs_n = 3\<rparr>} -
      fset (cs_covered (gap_client [1, 2])) \<inter> fset (cs_covered (gap_client [0, 2])))"
    unfolding cov rs_params.simps card by simp
  then show ?thesis
    using unrepaired_gaps_exclude_client [OF out(1) demo_pp(1) _ _ _ _ gaps, of "[9]" 1 _ _ "[5]" demo_client_identity]
      out lanes by auto
qed

section \<open>Sessions are built right\<close>

lemma server_index_bound:
  assumes "server_index peers pk = Some i" "length peers \<le> U32_MAX"
  shows "i < length peers" "sort peers ! i = pk"
  using assms position_Some [of "\<lambda>p. p = pk" "sort peers"]
  by (auto simp: server_index_def as_u32_id)

text \<open>
  A session the subnet's driver builds meets the condition under which it never panics: the
  roster of set keys is complete or absent, and the relay's index lies in it.
\<close>

lemma built_session_ok:
  assumes "server_session C pp t cfg relay_xk sn ident leader_pk good = Some s" "code pp = Some rs"
    "rs_n rs = length (relays sn)" "share_comm pp \<noteq> None" "length (relays sn) \<le> U32_MAX"
  shows "session_ok s" "fmlookup (server_pubkeys s) (sv_server_id s) = Some (identity_pubkey C ident)"
proof -
  obtain i where i: "server_index (relays sn) (identity_pubkey C ident) = Some i"
    using assms(1) by (auto simp: server_session_def)
  note b = server_index_bound [OF i assms(5)]
  show "session_ok s"
    using assms i b(1)
    by (auto simp: server_session_def session_ok_def new_pan_server_def set_roster_def Let_def
        split: if_splits option.splits)
  have "distinct (map fst (map (\<lambda>(i, pk). (as_u32 i, pk)) (enumerate 0 (sort (relays sn)))))"
  proof -
    have "map fst (map (\<lambda>(i, pk). (as_u32 i, pk)) (enumerate 0 (sort (relays sn)))) = [0..<length (relays sn)]"
      using assms(5) by (auto intro!: nth_equalityI simp: nth_enumerate_eq)
    then show ?thesis by simp
  qed
  note lk = fmlookup_collect_distinct [OF this]
  have "(as_u32 i, identity_pubkey C ident) \<in> set (map (\<lambda>(i, pk). (as_u32 i, pk)) (enumerate 0 (sort (relays sn))))"
    using b by (force simp: in_set_enumerate_eq)
  moreover have "as_u32 i = i" using b(1) assms(5) by simp
  ultimately show "fmlookup (server_pubkeys s) (sv_server_id s) = Some (identity_pubkey C ident)"
    using assms(1) i \<open>distinct _\<close> lk
    by (auto simp: server_session_def new_pan_server_def Let_def map_of_eq_Some_iff split: if_splits option.splits)
qed

end
