(* ===== verification/Adcnet.thy ===== *)
theory Adcnet
  imports Observers Panetiere_Codecs
begin

text \<open>
  The sessions of the one-round ADCNet flow (\<open>anymone-core/src/adcnet.rs\<close>): the client, the
  aggregator of a group, the relay (leader or not) and the watcher. Contributions, shares,
  their combination and signed envelopes belong to the adcnet crate and are the fields of
  \<open>adc_codecs\<close>; random draws are arguments of the operations that make them.
\<close>

section \<open>Functions of the adcnet crate\<close>

text \<open>A \<open>Signed\<close> value is bytes; recovering it gives its content and the key that signed it.\<close>

record adc_share =
  sh_server :: u32
  sh_round :: u32
  sh_share :: "u64 list"

type_synonym adc_contribution = "u32 \<times> u64 list"

record adc_codecs = wire_codecs +
  adcnet_wire_to_bytes :: "adcnet_wire \<Rightarrow> bytes"
  key_list_bytes :: "bytes list \<Rightarrow> bytes"
  recover_contribution :: "bytes \<Rightarrow> (adc_contribution \<times> bytes) option"
  recover_key :: "bytes \<Rightarrow> (bytes \<times> bytes) option"
  recover_server :: "bytes \<Rightarrow> (adc_share \<times> bytes) option"
  sign_key :: "identity \<Rightarrow> bytes \<Rightarrow> bytes option"
  shared_key :: "bytes \<Rightarrow> bytes \<Rightarrow> bytes"
  client_contribute ::
    "adcnet_config \<Rightarrow> u32 \<Rightarrow> identity \<Rightarrow> (u32, bytes) fmap \<Rightarrow> bytes option \<Rightarrow> bytes \<Rightarrow> bytes option"
  server_contribute :: "adcnet_config \<Rightarrow> u32 \<Rightarrow> u32 \<Rightarrow> identity \<Rightarrow> (bytes, bytes) fmap \<Rightarrow> bytes option"
  combine_round ::
    "adcnet_config \<Rightarrow> u32 \<Rightarrow> adc_contribution list \<Rightarrow> adc_share list \<Rightarrow> usize \<Rightarrow> bytes list option"
  aggregate_clients :: "u64 list list \<Rightarrow> u64 list"

section \<open>Keys, groups and signed bytes\<close>

definition relay_index :: "pubkey list \<Rightarrow> pubkey \<Rightarrow> u32 option" where
  "relay_index rs pk = map_option as_u32 (position (\<lambda>p. p = pk) (sort rs))"

definition client_shared_secrets ::
    "'z adc_codecs_scheme \<Rightarrow> (pubkey \<times> xk_wire) list \<Rightarrow> identity \<Rightarrow> pubkey list \<Rightarrow> (u32, bytes) fmap" where
  "client_shared_secrets C relay_xk ident rs =
     fm_collect (map (\<lambda>(i, xk). (as_u32 i, shared_key C (exchange ident) xk))
       (roster_keys rs relay_xk (\<lambda>xk. if ecdh_valid C (ecdh xk) then Some (ecdh xk) else None)))"

definition group_aggregate_signing_bytes ::
    "'z adc_codecs_scheme \<Rightarrow> u32 \<Rightarrow> u32 \<Rightarrow> u64 list \<Rightarrow> bytes list \<Rightarrow> bytes" where
  "group_aggregate_signing_bytes C r g blinded keys =
     le_bytes 4 r @ le_bytes 4 g @ concat (map (le_bytes 8) blinded) @ key_list_bytes C keys"

text \<open>The group of a client; a key of fewer than four bytes is an index out of range.\<close>

definition adcnet_client_group :: "bytes \<Rightarrow> u32 \<Rightarrow> u32 option" where
  "adcnet_client_group pk n = (if length pk < 4 then None else Some (from_be_bytes (take 4 pk) mod max n 1))"

definition is_client_message :: "'z wire_codecs_scheme \<Rightarrow> bytes \<Rightarrow> bool" where
  "is_client_message C bs \<longleftrightarrow> (case adcnet_wire_of_bytes C bs of Some (AdcClient _ _) \<Rightarrow> True | _ \<Rightarrow> False)"

definition is_server_share :: "'z wire_codecs_scheme \<Rightarrow> bytes \<Rightarrow> bool" where
  "is_server_share C bs \<longleftrightarrow> (case adcnet_wire_of_bytes C bs of Some (AdcServer _) \<Rightarrow> True | _ \<Rightarrow> False)"

text \<open>Both ends of the round window, and the screening of a client by its key.\<close>

definition adc_in_window :: "u32 \<Rightarrow> u32 \<Rightarrow> bool" where
  "adc_in_window r cur \<longleftrightarrow> cur \<le> saturating_add32 r ROUND_WINDOW \<and> r \<le> saturating_add32 cur FUTURE_ROUND_SLACK"

definition adc_good :: "(pubkey \<Rightarrow> bool) \<Rightarrow> bytes \<Rightarrow> bool" where
  "adc_good good pk \<longleftrightarrow> length pk = 32 \<and> good (Pubkey pk)"

section \<open>The client session\<close>

record adc_client =
  adcl_config :: adcnet_config
  adcl_identity :: identity
  adcl_secrets :: "(u32, bytes) fmap"
  adcl_xpub :: bytes
  adcl_signed_key :: "bytes option"
  adcl_pending :: "bytes option"
  adcl_cover_rate :: f32

definition new_adc_client ::
    "adcnet_config \<Rightarrow> identity \<Rightarrow> (u32, bytes) fmap \<Rightarrow> bytes \<Rightarrow> adc_client" where
  "new_adc_client cfg ident shared xpub =
     \<lparr>adcl_config = cfg, adcl_identity = ident, adcl_secrets = shared, adcl_xpub = xpub,
      adcl_signed_key = None, adcl_pending = None, adcl_cover_rate = F32_ONE\<rparr>"

definition stage_message :: "bytes \<Rightarrow> adc_client \<Rightarrow> adc_client" where
  "stage_message payload s = s\<lparr>adcl_pending := Some payload\<rparr>"

datatype contribute_error = RoundExceedsU32 | PayloadExceedsChannel | SigningFailed | ContributionFailed

text \<open>The signed key is made once and kept, also when the contribution then fails.\<close>

definition contribute ::
    "'z adc_codecs_scheme \<Rightarrow> bytes \<Rightarrow> round \<Rightarrow> bytes option \<Rightarrow> adc_client \<Rightarrow>
     adc_client \<times> (contribute_error + adcnet_wire)" where
  "contribute C rnd r payload s =
     (if U32_MAX < r then (s, Inl RoundExceedsU32)
      else if is_some_and (\<lambda>p. ac_max_payload_bytes (adcl_config s) < length p) payload
      then (s, Inl PayloadExceedsChannel)
      else case (case adcl_signed_key s of
                   Some k \<Rightarrow> Some k
                 | None \<Rightarrow> sign_key C (adcl_identity s) (adcl_xpub s)) of
             None \<Rightarrow> (s, Inl SigningFailed)
           | Some key \<Rightarrow>
               (s\<lparr>adcl_signed_key := Some key\<rparr>,
                case client_contribute C (adcl_config s) r (adcl_identity s) (adcl_secrets s) payload rnd of
                  None \<Rightarrow> Inl ContributionFailed
                | Some c \<Rightarrow> Inr (AdcClient c key)))"

text \<open>The cover draw: silent when the draw, a number from the unit interval, reaches the rate.\<close>

definition stays_silent :: "f32 \<Rightarrow> f32 \<Rightarrow> bool" where
  "stays_silent draw rate \<longleftrightarrow> \<not> f32_is_nan rate \<and> (0x80000000 \<le> rate \<or> rate \<le> draw)"

definition adcl_begin_round ::
    "'z adc_codecs_scheme \<Rightarrow> f32 \<Rightarrow> bytes \<Rightarrow> round \<Rightarrow> adc_client \<Rightarrow> adc_client \<times> adcnet_wire list" where
  "adcl_begin_round C draw rnd r s =
     (let s1 = s\<lparr>adcl_pending := None\<rparr>
      in if adcl_pending s = None \<and> stays_silent draw (adcl_cover_rate s) then (s1, [])
         else case contribute C rnd r (adcl_pending s) s1 of
                (s2, Inr m) \<Rightarrow> (s2, [m])
              | (s2, Inl _) \<Rightarrow> (s2, []))"

definition adcl_set_cover_rate :: "f32 \<Rightarrow> adc_client \<Rightarrow> adc_client" where
  "adcl_set_cover_rate rate s = s\<lparr>adcl_cover_rate := rate\<rparr>"

section \<open>The aggregator of a group\<close>

record adc_aggregator =
  ag_group :: u32
  ag_group_count :: u32
  ag_identity :: identity
  ag_rounds :: "(u32, (bytes, u64 list \<times> bytes) fmap) fmap"
  ag_emitted :: "u32 fset"
  ag_cur_round :: u32
  ag_client_set_max :: usize
  ag_good_clients :: "pubkey \<Rightarrow> bool"

definition new_adc_aggregator :: "u32 \<Rightarrow> u32 \<Rightarrow> identity \<Rightarrow> adc_aggregator" where
  "new_adc_aggregator g n ident =
     \<lparr>ag_group = g, ag_group_count = n, ag_identity = ident, ag_rounds = fmempty, ag_emitted = {||},
      ag_cur_round = 0, ag_client_set_max = U64_MAX, ag_good_clients = (\<lambda>_. True)\<rparr>"

text \<open>The cap of a group, as the subnet's driver and the leader compute it.\<close>

definition group_cap :: "usize \<Rightarrow> usize \<Rightarrow> usize" where
  "group_cap client_max n = max (client_max div max n 1) 1"

definition ag_begin_round :: "round \<Rightarrow> adc_aggregator \<Rightarrow> adc_aggregator" where
  "ag_begin_round r s =
     (let cur = as_u32 r; keep = cur - ROUND_WINDOW
      in s\<lparr>ag_cur_round := cur, ag_rounds := fm_retain (\<lambda>r' _. keep \<le> r') (ag_rounds s),
           ag_emitted := ffilter (\<lambda>r'. keep \<le> r') (ag_emitted s)\<rparr>)"

definition ag_bucket :: "u32 \<Rightarrow> adc_aggregator \<Rightarrow> (bytes, u64 list \<times> bytes) fmap" where
  "ag_bucket r s = (case fmlookup (ag_rounds s) r of Some b \<Rightarrow> b | None \<Rightarrow> fmempty)"

definition ag_accept ::
    "u32 \<Rightarrow> u64 list \<Rightarrow> bytes \<Rightarrow> bytes \<Rightarrow> adc_aggregator \<Rightarrow> adc_aggregator" where
  "ag_accept r blinded who key s =
     (if \<not> adc_good (ag_good_clients s) who \<or> \<not> adc_in_window r (ag_cur_round s) then s
      else
        (let b = ag_bucket r s;
             b' = (if who |\<notin>| fmdom b \<and> ag_client_set_max s \<le> fm_size b then b
                   else fmupd who (blinded, key) b)
         in s\<lparr>ag_rounds := fmupd r b' (ag_rounds s)\<rparr>))"

definition ag_on_inbound ::
    "'z adc_codecs_scheme \<Rightarrow> bytes \<Rightarrow> adc_aggregator \<Rightarrow> adc_aggregator option" where
  "ag_on_inbound C payload s =
     (case adcnet_wire_of_bytes C payload of
        Some (AdcClient c key) \<Rightarrow>
          (case (recover_contribution C c, recover_key C key) of
             (Some ((r, blinded), who), Some (_, key_owner)) \<Rightarrow>
               map_option
                 (\<lambda>g. if g \<noteq> ag_group s \<or> key_owner \<noteq> who then s
                      else ag_accept r blinded who key s)
                 (adcnet_client_group who (ag_group_count s))
           | _ \<Rightarrow> Some s)
      | _ \<Rightarrow> Some s)"

definition ag_message :: "'z adc_codecs_scheme \<Rightarrow> u32 \<Rightarrow> adc_aggregator \<Rightarrow> adcnet_wire" where
  "ag_message C r s =
     (let members = fm_items (ag_bucket r s);
          blinded = aggregate_clients C (map (\<lambda>(_, b, _). b) members);
          keys = map (\<lambda>(_, _, k). k) members
      in AdcGroupAggregate r (ag_group s) blinded keys (identity_pubkey C (ag_identity s))
           (sign C (ag_identity s) (group_aggregate_signing_bytes C r (ag_group s) blinded keys)))"

definition ag_checkpoint ::
    "'z adc_codecs_scheme \<Rightarrow> round \<Rightarrow> nat \<Rightarrow> adc_aggregator \<Rightarrow> adc_aggregator \<times> adcnet_wire list" where
  "ag_checkpoint C r0 k s =
     (let r = as_u32 r0
      in if k \<noteq> 1 \<or> r |\<in>| ag_emitted s \<or> fm_size (ag_bucket r s) = 0 then (s, [])
         else (s\<lparr>ag_emitted := finsert r (ag_emitted s)\<rparr>, [ag_message C r s]))"

section \<open>The relay session\<close>

record adc_server =
  ads_config :: adcnet_config
  ads_server_id :: u32
  ads_identity :: identity
  ads_secrets :: "(bytes, bytes) fmap"
  ads_client_keys :: "(bytes, bytes) fmap"
  ads_expected :: usize
  ads_roster :: "pubkey list"
  ads_min_clients :: usize
  ads_client_set_max :: usize
  ads_good_clients :: "pubkey \<Rightarrow> bool"
  ads_is_leader :: bool
  ads_leader :: peer_id
  ads_clients :: "(u32, (adc_contribution \<times> bytes) list) fmap"
  ads_sets :: "(u32, bytes list) fmap"
  ads_shares :: "(u32, (u32, adc_share) fmap) fmap"
  ads_announced :: "u32 fset"
  ads_shared :: "u32 fset"
  ads_combined :: "u32 fset"
  ads_pending :: "bytes list"
  ads_routed :: "u32 fset"
  ads_cur :: u32
  ads_misbehavior :: "misbehavior option"
  ads_aggregation :: "(u32, pubkey) fmap option"
  ads_aggs :: "(u32, (u32, u64 list \<times> bytes list) fmap) fmap"

definition new_adc_server ::
    "adcnet_config \<Rightarrow> u32 \<Rightarrow> identity \<Rightarrow> usize \<Rightarrow> pubkey list \<Rightarrow> usize \<Rightarrow> usize \<Rightarrow> bool \<Rightarrow> peer_id \<Rightarrow>
     (u32, pubkey) fmap option \<Rightarrow> adc_server" where
  "new_adc_server cfg sid ident expected rs min_clients client_max leads leader agg =
     \<lparr>ads_config = cfg, ads_server_id = sid, ads_identity = ident, ads_secrets = fmempty,
      ads_client_keys = fmempty, ads_expected = expected, ads_roster = rs, ads_min_clients = min_clients,
      ads_client_set_max = client_max, ads_good_clients = (\<lambda>_. True), ads_is_leader = leads,
      ads_leader = leader, ads_clients = fmempty, ads_sets = fmempty, ads_shares = fmempty,
      ads_announced = {||}, ads_shared = {||}, ads_combined = {||}, ads_pending = [], ads_routed = {||},
      ads_cur = 0, ads_misbehavior = None, ads_aggregation = agg, ads_aggs = fmempty\<rparr>"

text \<open>\<open>None\<close> is the panic of a caller that is not a relay of the subnet.\<close>

definition adc_server_session ::
    "'z crypto_scheme \<Rightarrow> adcnet_config \<Rightarrow> subnet \<Rightarrow> identity \<Rightarrow> pubkey \<Rightarrow> (pubkey \<Rightarrow> bool) \<Rightarrow> adc_server option" where
  "adc_server_session C cfg sn ident leader good =
     map_option
       (\<lambda>idx. (let leads = (identity_pubkey C ident = leader);
                   agg = (if leads then map_option leader_aggregation (ac_aggregation cfg) else None)
               in (new_adc_server cfg idx ident (length (relays sn)) (sort (relays sn)) (ac_client_set_min cfg)
                     (ac_client_set_max cfg) leads leader agg)\<lparr>ads_good_clients := good\<rparr>))
       (relay_index (relays sn) (identity_pubkey C ident))"

definition server_id_of :: "bytes \<Rightarrow> adc_server \<Rightarrow> u32 option" where
  "server_id_of who s = map_option as_u32 (position (\<lambda>p. pubkey_bytes p = who) (ads_roster s))"

definition prune_stale :: "adc_server \<Rightarrow> adc_server" where
  "prune_stale s =
     (let keep = ads_cur s - ROUND_WINDOW
      in s\<lparr>ads_clients := fm_retain (\<lambda>r _. keep \<le> r) (ads_clients s),
           ads_sets := fm_retain (\<lambda>r _. keep \<le> r) (ads_sets s),
           ads_shares := fm_retain (\<lambda>r _. keep \<le> r) (ads_shares s),
           ads_announced := ffilter (\<lambda>r. keep \<le> r) (ads_announced s),
           ads_shared := ffilter (\<lambda>r. keep \<le> r) (ads_shared s),
           ads_combined := ffilter (\<lambda>r. keep \<le> r) (ads_combined s),
           ads_routed := ffilter (\<lambda>r. keep \<le> r) (ads_routed s),
           ads_aggs := fm_retain (\<lambda>r _. keep \<le> r) (ads_aggs s)\<rparr>)"

definition cache_client_key :: "'z adc_codecs_scheme \<Rightarrow> bytes \<Rightarrow> bytes \<Rightarrow> bytes \<Rightarrow> adc_server \<Rightarrow> adc_server" where
  "cache_client_key C who xpub key s =
     (if \<not> ecdh_valid C xpub then s
      else s\<lparr>ads_secrets :=
               (if who |\<in>| fmdom (ads_secrets s) then ads_secrets s
                else fmupd who (shared_key C (exchange (ads_identity s)) xpub) (ads_secrets s)),
             ads_client_keys :=
               (if who |\<in>| fmdom (ads_client_keys s) then ads_client_keys s
                else fmupd who key (ads_client_keys s))\<rparr>)"

definition cache_member :: "'z adc_codecs_scheme \<Rightarrow> bytes \<Rightarrow> adc_server \<Rightarrow> adc_server" where
  "cache_member C key s =
     (case recover_key C key of Some (xpub, who) \<Rightarrow> cache_client_key C who xpub key s | None \<Rightarrow> s)"

definition key_signers :: "'z adc_codecs_scheme \<Rightarrow> bytes list \<Rightarrow> bytes list" where
  "key_signers C keys = List.map_filter (\<lambda>k. map_option snd (recover_key C k)) keys"

section \<open>Messages of a relay\<close>

definition ads_bucket :: "u32 \<Rightarrow> adc_server \<Rightarrow> (adc_contribution \<times> bytes) list" where
  "ads_bucket r s = (case fmlookup (ads_clients s) r of Some b \<Rightarrow> b | None \<Rightarrow> [])"

definition on_adc_client :: "'z adc_codecs_scheme \<Rightarrow> bytes \<Rightarrow> bytes \<Rightarrow> adc_server \<Rightarrow> adc_server" where
  "on_adc_client C c key s =
     (if \<not> ads_is_leader s then s
      else case (recover_contribution C c, recover_key C key) of
             (Some ((r, blinded), who), Some (xpub, key_owner)) \<Rightarrow>
               if key_owner \<noteq> who \<or> r < ads_cur s \<or> saturating_add32 (ads_cur s) FUTURE_ROUND_SLACK < r \<or>
                 \<not> adc_good (ads_good_clients s) who then s
               else
                 (let b = ads_bucket r s
                  in if who \<in> snd ` set b \<or> ads_client_set_max s \<le> length b
                     then s\<lparr>ads_clients := fmupd r b (ads_clients s)\<rparr>
                     else (cache_client_key C who xpub key s)
                            \<lparr>ads_clients := fmupd r (b @ [((r, blinded), who)]) (ads_clients s)\<rparr>)
           | _ \<Rightarrow> s)"

definition ads_share_map :: "u32 \<Rightarrow> adc_server \<Rightarrow> (u32, adc_share) fmap" where
  "ads_share_map r s = (case fmlookup (ads_shares s) r of Some m \<Rightarrow> m | None \<Rightarrow> fmempty)"

definition file_share :: "u32 \<Rightarrow> u32 \<Rightarrow> adc_share \<Rightarrow> adc_server \<Rightarrow> adc_server" where
  "file_share r i sh s = s\<lparr>ads_shares := fmupd r (fmupd i sh (ads_share_map r s)) (ads_shares s)\<rparr>"

definition on_adc_server :: "'z adc_codecs_scheme \<Rightarrow> bytes \<Rightarrow> adc_server \<Rightarrow> adc_server" where
  "on_adc_server C msg s =
     (if \<not> ads_is_leader s then s
      else case recover_server C msg of
             None \<Rightarrow> s
           | Some (sh, who) \<Rightarrow>
               if \<not> adc_in_window (sh_round sh) (ads_cur s) then s
               else case server_id_of who s of
                      None \<Rightarrow> s
                    | Some i \<Rightarrow> file_share (sh_round sh) i (sh\<lparr>sh_server := i\<rparr>) s)"

definition adopt_set :: "u32 \<Rightarrow> bytes list \<Rightarrow> adc_server \<Rightarrow> adc_server" where
  "adopt_set r signers s =
     (if r |\<in>| fmdom (ads_sets s) then s else s\<lparr>ads_sets := fmupd r signers (ads_sets s)\<rparr>)"

definition on_adc_client_set ::
    "'z adc_codecs_scheme \<Rightarrow> peer_id \<Rightarrow> u32 \<Rightarrow> bytes list \<Rightarrow> adc_server \<Rightarrow> adc_server" where
  "on_adc_client_set C from r keys s =
     (if \<not> adc_in_window r (ads_cur s) \<or> from \<noteq> ads_leader s \<or> ads_client_set_max s < length keys then s
      else adopt_set r (key_signers C keys) (fold (cache_member C) keys s))"

definition on_adc_decoded :: "peer_id \<Rightarrow> u32 \<Rightarrow> bytes list \<Rightarrow> adc_server \<Rightarrow> adc_server" where
  "on_adc_decoded from r payloads s =
     (if from \<noteq> ads_leader s \<or> saturating_add32 (ads_cur s) ROUND_WINDOW < r \<or> r |\<in>| ads_routed s then s
      else s\<lparr>ads_routed := finsert r (ads_routed s), ads_pending := ads_pending s @ payloads\<rparr>)"

definition ads_agg_map :: "u32 \<Rightarrow> adc_server \<Rightarrow> (u32, u64 list \<times> bytes list) fmap" where
  "ads_agg_map r s = (case fmlookup (ads_aggs s) r of Some m \<Rightarrow> m | None \<Rightarrow> fmempty)"

definition file_aggregate :: "u32 \<Rightarrow> u32 \<Rightarrow> u64 list \<Rightarrow> bytes list \<Rightarrow> adc_server \<Rightarrow> adc_server" where
  "file_aggregate r g blinded signers s =
     (let m = ads_agg_map r s
      in s\<lparr>ads_aggs := fmupd r (if g |\<in>| fmdom m then m else fmupd g (blinded, signers) m) (ads_aggs s)\<rparr>)"

definition aggregate_ok ::
    "'z adc_codecs_scheme \<Rightarrow> u32 \<Rightarrow> u32 \<Rightarrow> u64 list \<Rightarrow> bytes list \<Rightarrow> pubkey \<Rightarrow> bytes \<Rightarrow> (u32, pubkey) fmap \<Rightarrow>
     adc_server \<Rightarrow> bool" where
  "aggregate_ok C r g blinded keys pk sg agg s \<longleftrightarrow>
     fmlookup agg g = Some pk \<and> length keys \<le> group_cap (ads_client_set_max s) (fm_size agg) \<and>
     verify C pk (group_aggregate_signing_bytes C r g blinded keys) sg \<and> adc_in_window r (ads_cur s)"

definition on_group_aggregate ::
    "'z adc_codecs_scheme \<Rightarrow> u32 \<Rightarrow> u32 \<Rightarrow> u64 list \<Rightarrow> bytes list \<Rightarrow> pubkey \<Rightarrow> bytes \<Rightarrow> adc_server \<Rightarrow> adc_server" where
  "on_group_aggregate C r g blinded keys pk sg s =
     (case ads_aggregation s of
        None \<Rightarrow> s
      | Some agg \<Rightarrow>
          if \<not> aggregate_ok C r g blinded keys pk sg agg s then s
          else file_aggregate r g blinded (key_signers C keys) (fold (cache_member C) keys s))"

definition ads_begin_round :: "round \<Rightarrow> adc_server \<Rightarrow> adc_server" where
  "ads_begin_round r s = prune_stale (s\<lparr>ads_cur := as_u32 r\<rparr>)"

definition ads_on_inbound :: "'z adc_codecs_scheme \<Rightarrow> peer_id \<Rightarrow> bytes \<Rightarrow> adc_server \<Rightarrow> adc_server" where
  "ads_on_inbound C from payload s =
     (case adcnet_wire_of_bytes C payload of
        None \<Rightarrow> s
      | Some (AdcClient c key) \<Rightarrow> on_adc_client C c key s
      | Some (AdcServer msg) \<Rightarrow> on_adc_server C msg s
      | Some (AdcClientSet r keys) \<Rightarrow> on_adc_client_set C from r keys s
      | Some (AdcDecoded r payloads) \<Rightarrow> on_adc_decoded from r payloads s
      | Some (AdcGroupAggregate r g blinded keys pk sg) \<Rightarrow> on_group_aggregate C r g blinded keys pk sg s)"

section \<open>The end of a round\<close>

text \<open>What a relay publishes, with the round it belongs to.\<close>

datatype adc_output = SetOut u32 "bytes list" | ShareOut u32 bytes | DecodedOut u32 "bytes list"

fun adc_out_wire :: "adc_output \<Rightarrow> adcnet_wire" where
  "adc_out_wire (SetOut r keys) = AdcClientSet r keys"
| "adc_out_wire (ShareOut r msg) = AdcServer msg"
| "adc_out_wire (DecodedOut r payloads) = AdcDecoded r payloads"

text \<open>The keys of those of the given clients whose key is known, without repetition, by key.\<close>

definition known_keys :: "bytes list \<Rightarrow> adc_server \<Rightarrow> bytes list" where
  "known_keys cs s =
     List.map_filter (fmlookup (ads_client_keys s))
       (sort_dedup (filter (\<lambda>c. c |\<in>| fmdom (ads_client_keys s)) cs))"

definition leader_set_for_round :: "u32 \<Rightarrow> adc_server \<Rightarrow> bytes list" where
  "leader_set_for_round r s = known_keys (map snd (ads_bucket r s)) s"

definition leader_agg_set_for_round :: "u32 \<Rightarrow> adc_server \<Rightarrow> bytes list option" where
  "leader_agg_set_for_round r s =
     map_option (\<lambda>m. known_keys (concat (map snd (fm_values m))) s) (fmlookup (ads_aggs s) r)"

definition announce_set :: "'z adc_codecs_scheme \<Rightarrow> u32 \<Rightarrow> bytes list \<Rightarrow> adc_server \<Rightarrow> adc_server \<times> adc_output list" where
  "announce_set C r keys s =
     (if keys = [] then (s, [])
      else ((adopt_set r (key_signers C keys) s)\<lparr>ads_announced := finsert r (ads_announced s)\<rparr>, [SetOut r keys]))"

definition announce_aggregated ::
    "'z adc_codecs_scheme \<Rightarrow> u32 \<Rightarrow> adc_server \<Rightarrow> adc_server \<times> adc_output list" where
  "announce_aggregated C r s =
     (case leader_agg_set_for_round r s of None \<Rightarrow> (s, []) | Some keys \<Rightarrow> announce_set C r keys s)"

definition announce_phase ::
    "'z adc_codecs_scheme \<Rightarrow> u32 \<Rightarrow> adc_server \<Rightarrow> adc_server \<times> adc_output list" where
  "announce_phase C cur s =
     (if \<not> ads_is_leader s then (s, [])
      else case ads_aggregation s of
             Some _ \<Rightarrow> run_ops (announce_aggregated C) (filter (\<lambda>r. r |\<notin>| ads_announced s) (fm_keys (ads_aggs s))) s
           | None \<Rightarrow>
               if cur |\<in>| ads_announced s then (s, [])
               else announce_set C cur (leader_set_for_round cur s) s)"

text \<open>A corrupt relay flips the first byte of one secret.\<close>

definition corrupt_first :: "(bytes, bytes) fmap \<Rightarrow> (bytes, bytes) fmap" where
  "corrupt_first m =
     (case fm_items m of
        (k, b # bs) # _ \<Rightarrow> fmupd k (xor b 0xff # bs) m
      | _ \<Rightarrow> m)"

definition set_secrets :: "bytes list \<Rightarrow> adc_server \<Rightarrow> (bytes, bytes) fmap" where
  "set_secrets cs s =
     fm_collect (List.map_filter (\<lambda>c. map_option (Pair c) (fmlookup (ads_secrets s) c)) cs)"

definition share_one :: "'z adc_codecs_scheme \<Rightarrow> u32 \<Rightarrow> adc_server \<Rightarrow> adc_server \<times> adc_output list" where
  "share_one C t s =
     (let cs = (case fmlookup (ads_sets s) t of Some cs \<Rightarrow> cs | None \<Rightarrow> []);
          keys = set_secrets cs s;
          used = (if ads_misbehavior s = Some CorruptShare then corrupt_first keys else keys)
      in if fm_size keys \<noteq> length cs \<or> fm_size keys = 0 then (s, [])
         else case server_contribute C (ads_config s) t (ads_server_id s) (ads_identity s) used of
                None \<Rightarrow> (s, [])
              | Some msg \<Rightarrow>
                  (let s1 = (if ads_is_leader s
                             then (case recover_server C msg of
                                     Some (own, _) \<Rightarrow> file_share t (ads_server_id s) own s
                                   | None \<Rightarrow> s)
                             else s)
                   in (s1\<lparr>ads_shared := finsert t (ads_shared s1)\<rparr>, [ShareOut t msg])))"

definition share_phase :: "'z adc_codecs_scheme \<Rightarrow> adc_server \<Rightarrow> adc_server \<times> adc_output list" where
  "share_phase C s = run_ops (share_one C) (filter (\<lambda>r. r |\<notin>| ads_shared s) (fm_keys (ads_sets s))) s"

text \<open>
  The contributions to combine: one sum per group in the aggregated flow, else the
  contribution of every member of the announced set, or nothing when one is missing.
\<close>

definition combine_inputs :: "u32 \<Rightarrow> bytes list \<Rightarrow> adc_server \<Rightarrow> adc_contribution list option" where
  "combine_inputs t cs s =
     (case ads_aggregation s of
        Some _ \<Rightarrow> map_option (\<lambda>m. map (\<lambda>(blinded, _). (t, blinded)) (fm_values m)) (fmlookup (ads_aggs s) t)
      | None \<Rightarrow>
          (case fmlookup (ads_clients s) t of
             None \<Rightarrow> None
           | Some items \<Rightarrow>
               (let found = List.map_filter (\<lambda>c. map_option fst (find (\<lambda>(_, who). who = c) items)) cs
                in if length found = length cs then Some found else None)))"

definition leader_combine :: "'z adc_codecs_scheme \<Rightarrow> u32 \<Rightarrow> adc_server \<Rightarrow> adc_server \<times> adc_output list" where
  "leader_combine C t s =
     (if t |\<in>| ads_combined s then (s, [])
      else case do {
             cs \<leftarrow> fmlookup (ads_sets s) t;
             if length cs < ads_min_clients s then None
             else do {
               shares \<leftarrow> fmlookup (ads_shares s) t;
               if fm_size shares < ads_expected s then None
               else do {
                 inputs \<leftarrow> combine_inputs t cs s;
                 combine_round C (ads_config s) t inputs (fm_values shares) (ads_expected s)
               }
             }
           } of
             None \<Rightarrow> (s, [])
           | Some payloads \<Rightarrow>
               (s\<lparr>ads_combined := finsert t (ads_combined s), ads_clients := fmdrop t (ads_clients s),
                  ads_aggs := fmdrop t (ads_aggs s), ads_shares := fmdrop t (ads_shares s)\<rparr>,
                [DecodedOut t payloads]))"

definition combine_phase :: "'z adc_codecs_scheme \<Rightarrow> adc_server \<Rightarrow> adc_server \<times> adc_output list" where
  "combine_phase C s = (if ads_is_leader s then run_ops (leader_combine C) (fm_keys (ads_sets s)) s else (s, []))"

definition ads_phases :: "'z adc_codecs_scheme \<Rightarrow> round \<Rightarrow> adc_server \<Rightarrow> adc_server \<times> adc_output list" where
  "ads_phases C r s =
     (let (s1, sets) = announce_phase C (as_u32 r) s;
          (s2, shares) = share_phase C s1;
          (s3, results) = combine_phase C s2
      in (s3, sets @ shares @ results))"

text \<open>A withholding relay publishes nothing, and still surfaces what the leader broadcast.\<close>

definition ads_emit :: "'z adc_codecs_scheme \<Rightarrow> round \<Rightarrow> adc_server \<Rightarrow> adc_server \<times> adc_output list" where
  "ads_emit C r s = (if ads_misbehavior s = Some Withhold then (s, []) else ads_phases C r s)"

definition ads_end_round ::
    "'z adc_codecs_scheme \<Rightarrow> round \<Rightarrow> adc_server \<Rightarrow> adc_server \<times> round_outcome" where
  "ads_end_round C r s =
     (let (s1, outs) = ads_emit C r s
      in (s1\<lparr>ads_pending := []\<rparr>,
          \<lparr>outbound = map (\<lambda>x. adcnet_wire_to_bytes C (adc_out_wire x)) outs,
           decoded = ads_pending s1, faults = []\<rparr>))"

definition ads_set_misbehavior :: "misbehavior option \<Rightarrow> adc_server \<Rightarrow> adc_server" where
  "ads_set_misbehavior m s = s\<lparr>ads_misbehavior := m\<rparr>"

section \<open>The watch session\<close>

record adc_watch =
  adw_leader :: peer_id
  adw_routed :: "u32 fset"
  adw_pending :: "bytes list"

definition new_adc_watch :: "peer_id \<Rightarrow> adc_watch" where
  "new_adc_watch leader = \<lparr>adw_leader = leader, adw_routed = {||}, adw_pending = []\<rparr>"

definition adw_on_inbound :: "'z wire_codecs_scheme \<Rightarrow> peer_id \<Rightarrow> bytes \<Rightarrow> adc_watch \<Rightarrow> adc_watch" where
  "adw_on_inbound C from payload s =
     (case adcnet_wire_of_bytes C payload of
        Some (AdcDecoded r payloads) \<Rightarrow>
          if from \<noteq> adw_leader s \<or> r |\<in>| adw_routed s then s
          else s\<lparr>adw_routed := finsert r (adw_routed s), adw_pending := adw_pending s @ payloads\<rparr>
      | _ \<Rightarrow> s)"

definition adw_end_round :: "adc_watch \<Rightarrow> adc_watch \<times> round_outcome" where
  "adw_end_round s = (s\<lparr>adw_pending := []\<rparr>, \<lparr>outbound = [], decoded = adw_pending s, faults = []\<rparr>)"

end
