(* ===== verification/Adcnet_Rounds.thy ===== *)
theory Adcnet_Rounds
  imports Adcnet Panetiere_Rounds
begin

text \<open>
  Runs of an ADCNet relay: every round is announced, shared and combined at most once, and
  what the leader decodes is combined from the contributions of the announced set and from
  the shares of distinct relays.
\<close>

section \<open>The relay as a machine\<close>

datatype ads_event =
    AdsBegin round
  | AdsInbound peer_id bytes
  | AdsEnd round
  | AdsMisbehave "misbehavior option"

fun ads_step :: "'z adc_codecs_scheme \<Rightarrow> ads_event \<Rightarrow> adc_server \<Rightarrow> adc_server \<times> adc_output list" where
  "ads_step C (AdsBegin r) s = (ads_begin_round r s, [])"
| "ads_step C (AdsInbound from payload) s = (ads_on_inbound C from payload s, [])"
| "ads_step C (AdsEnd r) s = (let (s1, outs) = ads_emit C r s in (s1\<lparr>ads_pending := []\<rparr>, outs))"
| "ads_step C (AdsMisbehave m) s = (ads_set_misbehavior m s, [])"

lemma run_steps_total: "run_steps (\<lambda>op s. Some (step op s)) ops s = Some (run_ops step ops s)"
proof (induction ops arbitrary: s)
  case (Cons op ops)
  then show ?case
    by (cases "step op s") (simp add: run_steps.simps(2) run_ops.simps(2) split: prod.splits)
qed simp

section \<open>Passes over rounds\<close>

text \<open>
  A pass visits rounds one by one. For a round it either emits nothing or one value of that
  round, which it then marks; it changes the rest of the state only within a given preorder.
\<close>

locale round_pass =
  fixes f :: "nat \<Rightarrow> 's \<Rightarrow> 's \<times> 'o list"
    and emits :: "'o \<Rightarrow> nat option"
    and mark :: "'s \<Rightarrow> nat fset"
    and rel :: "'s \<Rightarrow> 's \<Rightarrow> bool"
  assumes shape: "f r s = (s', out) \<Longrightarrow>
      out = [] \<and> mark s' = mark s \<or> (\<exists>x. out = [x] \<and> emits x = Some r \<and> mark s' = finsert r (mark s))"
    and rel_step: "f r s = (s', out) \<Longrightarrow> rel s s'"
    and rel_refl: "rel s s"
    and rel_trans: "rel s1 s2 \<Longrightarrow> rel s2 s3 \<Longrightarrow> rel s1 s3"
begin

lemma pass_rel: "rel s (fst (run_ops f rs s))"
proof (induction rs arbitrary: s)
  case (Cons r rs)
  have "rel s (fst (f r s))" using rel_step [of r s] by (cases "f r s") simp
  then show ?case using Cons rel_trans by fastforce
qed (simp add: rel_refl)

lemma pass_emits:
  "set (List.map_filter emits (snd (run_ops f rs s))) \<subseteq> set rs \<and>
   (distinct rs \<longrightarrow> distinct (List.map_filter emits (snd (run_ops f rs s)))) \<and>
   fset (mark (fst (run_ops f rs s))) = fset (mark s) \<union> set (List.map_filter emits (snd (run_ops f rs s))) \<and>
   (\<forall>x \<in> set (snd (run_ops f rs s)). \<exists>r. emits x = Some r)"
proof (induction rs arbitrary: s)
  case (Cons r rs)
  obtain s1 out where 1: "f r s = (s1, out)" by force
  have split: "List.map_filter emits (snd (run_ops f (r # rs) s)) =
      List.map_filter emits out @ List.map_filter emits (snd (run_ops f rs s1))"
    using 1 by (simp add: List.map_filter_def)
  have "fst (run_ops f (r # rs) s) = fst (run_ops f rs s1)"
    "snd (run_ops f (r # rs) s) = out @ snd (run_ops f rs s1)" using 1 by simp_all
  then show ?case unfolding split using shape [OF 1] Cons [of s1] by (auto simp: List.map_filter_simps)
qed (simp add: List.map_filter_def)

lemma pass_run:
  assumes "run_ops f rs s = (s', outs)" "distinct rs"
  shows "distinct (List.map_filter emits outs)" "set (List.map_filter emits outs) \<subseteq> set rs"
    "fset (mark s') = fset (mark s) \<union> set (List.map_filter emits outs)"
    "\<forall>x \<in> set outs. \<exists>r. emits x = Some r" "rel s s'"
  using pass_emits [of rs s] pass_rel [of s rs] assms by simp_all

end

section \<open>What the phases do to the state\<close>

fun set_out :: "adc_output \<Rightarrow> nat option" where
  "set_out (SetOut r _) = Some r" | "set_out _ = None"

fun share_out :: "adc_output \<Rightarrow> nat option" where
  "share_out (ShareOut r _) = Some r" | "share_out _ = None"

fun decoded_out :: "adc_output \<Rightarrow> nat option" where
  "decoded_out (DecodedOut r _) = Some r" | "decoded_out _ = None"

text \<open>The rounds a relay still holds something of, and how a phase may change them.\<close>

definition held_rounds :: "adc_server \<Rightarrow> nat set" where
  "held_rounds s = fmdom' (ads_clients s) \<union> fmdom' (ads_aggs s) \<union> fmdom' (ads_sets s)"

definition settles :: "adc_server \<Rightarrow> adc_server \<Rightarrow> bool" where
  "settles s s' \<longleftrightarrow> ads_cur s' = ads_cur s \<and> held_rounds s' \<subseteq> held_rounds s"

definition settles_sets :: "adc_server \<Rightarrow> adc_server \<Rightarrow> bool" where
  "settles_sets s s' \<longleftrightarrow> settles s s' \<and> ads_shared s' = ads_shared s \<and> ads_combined s' = ads_combined s"

definition settles_shares :: "adc_server \<Rightarrow> adc_server \<Rightarrow> bool" where
  "settles_shares s s' \<longleftrightarrow> settles s s' \<and> ads_announced s' = ads_announced s \<and> ads_combined s' = ads_combined s"

definition settles_results :: "adc_server \<Rightarrow> adc_server \<Rightarrow> bool" where
  "settles_results s s' \<longleftrightarrow> settles s s' \<and> ads_announced s' = ads_announced s \<and> ads_shared s' = ads_shared s"

lemmas settles_defs = settles_def settles_sets_def settles_shares_def settles_results_def held_rounds_def

lemma announce_set_shape:
  assumes "announce_set C r keys s = (s', out)" "keys \<noteq> [] \<Longrightarrow> r \<in> held_rounds s"
  shows "out = [] \<and> s' = s \<or> out = [SetOut r keys] \<and> ads_announced s' = finsert r (ads_announced s) \<and> r \<in> held_rounds s"
    and "settles_sets s s'"
  using assms by (auto simp: announce_set_def adopt_set_def settles_defs split: if_splits)

lemma known_keys_Nil: "known_keys [] s = []"
  by (simp add: known_keys_def sort_dedup_def List.map_filter_def)

lemma leader_set_held: "leader_set_for_round r s \<noteq> [] \<Longrightarrow> r \<in> held_rounds s"
  by (auto simp: leader_set_for_round_def ads_bucket_def held_rounds_def known_keys_Nil fmdom'I split: option.splits)

lemma agg_set_held: "leader_agg_set_for_round r s = Some keys \<Longrightarrow> r \<in> held_rounds s"
  by (auto simp: leader_agg_set_for_round_def held_rounds_def fmdom'I)

lemma announce_aggregated_shape:
  assumes "announce_aggregated C r s = (s', out)"
  shows "out = [] \<and> s' = s \<or>
      (\<exists>keys. out = [SetOut r keys] \<and> ads_announced s' = finsert r (ads_announced s) \<and> r \<in> held_rounds s)"
    and "settles_sets s s'"
proof -
  have "(out = [] \<and> s' = s \<or>
      (\<exists>keys. out = [SetOut r keys] \<and> ads_announced s' = finsert r (ads_announced s) \<and> r \<in> held_rounds s)) \<and>
    settles_sets s s'"
  proof (cases "leader_agg_set_for_round r s")
    case None
    then show ?thesis using assms by (simp add: announce_aggregated_def settles_sets_def settles_def)
  next
    case (Some keys)
    then have "announce_set C r keys s = (s', out)" using assms by (simp add: announce_aggregated_def)
    from announce_set_shape [OF this agg_set_held [OF Some]] show ?thesis by blast
  qed
  then show "out = [] \<and> s' = s \<or>
      (\<exists>keys. out = [SetOut r keys] \<and> ads_announced s' = finsert r (ads_announced s) \<and> r \<in> held_rounds s)"
    "settles_sets s s'" by blast+
qed

lemma file_share_fields [simp]:
  "ads_clients (file_share r i sh s) = ads_clients s" "ads_aggs (file_share r i sh s) = ads_aggs s"
  "ads_sets (file_share r i sh s) = ads_sets s" "ads_cur (file_share r i sh s) = ads_cur s"
  "ads_announced (file_share r i sh s) = ads_announced s" "ads_shared (file_share r i sh s) = ads_shared s"
  "ads_combined (file_share r i sh s) = ads_combined s"
  by (simp_all add: file_share_def)

lemma share_one_shape:
  assumes "share_one C t s = (s', out)"
  shows "out = [] \<and> s' = s \<or> (\<exists>m. out = [ShareOut t m] \<and> ads_shared s' = finsert t (ads_shared s))"
    and "settles_shares s s'"
  using assms by (auto simp: share_one_def settles_defs Let_def split: if_splits option.splits)

lemma leader_combine_shape:
  assumes "leader_combine C t s = (s', out)"
  shows "out = [] \<and> s' = s \<or>
      (\<exists>p. out = [DecodedOut t p] \<and> ads_combined s' = finsert t (ads_combined s) \<and> t |\<notin>| ads_combined s)"
    and "settles_results s s'"
  using assms by (auto simp: leader_combine_def settles_defs split: if_splits option.splits)

interpretation set_pass: round_pass "announce_aggregated C" set_out ads_announced settles_sets for C
proof
  fix r s s' out assume "announce_aggregated C r s = (s', out)"
  note sh = announce_aggregated_shape [OF this]
  show "out = [] \<and> ads_announced s' = ads_announced s \<or>
      (\<exists>x. out = [x] \<and> set_out x = Some r \<and> ads_announced s' = finsert r (ads_announced s))" using sh(1) by auto
  show "settles_sets s s'" by (rule sh(2))
qed (auto simp: settles_sets_def settles_def)

interpretation share_pass: round_pass "share_one C" share_out ads_shared settles_shares for C
proof
  fix r s s' out assume "share_one C r s = (s', out)"
  note sh = share_one_shape [OF this]
  show "out = [] \<and> ads_shared s' = ads_shared s \<or>
      (\<exists>x. out = [x] \<and> share_out x = Some r \<and> ads_shared s' = finsert r (ads_shared s))" using sh(1) by auto
  show "settles_shares s s'" by (rule sh(2))
qed (auto simp: settles_shares_def settles_def)

interpretation result_pass: round_pass "leader_combine C" decoded_out ads_combined settles_results for C
proof
  fix r s s' out assume "leader_combine C r s = (s', out)"
  note sh = leader_combine_shape [OF this]
  show "out = [] \<and> ads_combined s' = ads_combined s \<or>
      (\<exists>x. out = [x] \<and> decoded_out x = Some r \<and> ads_combined s' = finsert r (ads_combined s))" using sh(1) by auto
  show "settles_results s s'" by (rule sh(2))
qed (auto simp: settles_results_def settles_def)

section \<open>A round is announced, shared and combined once\<close>

definition once_in ::
    "(adc_output \<Rightarrow> nat option) \<Rightarrow> (adc_server \<Rightarrow> nat fset) \<Rightarrow> adc_server \<Rightarrow> adc_server \<Rightarrow> adc_output list \<Rightarrow> bool" where
  "once_in emits mark s s' outs \<longleftrightarrow>
     distinct (List.map_filter emits outs) \<and>
     fset (mark s') = fset (mark s) \<union> set (List.map_filter emits outs) \<and>
     set (List.map_filter emits outs) \<subseteq> held_rounds s - fset (mark s) \<and>
     (\<forall>x \<in> set outs. \<exists>r. emits x = Some r)"

lemma once_in_Nil [simp]: "once_in emits mark s s []"
  by (simp add: once_in_def List.map_filter_def)

lemma announce_phase_once:
  assumes "announce_phase C cur s = (s', outs)"
  shows "once_in set_out ads_announced s s' outs" "settles_sets s s'"
proof -
  let ?rs = "filter (\<lambda>r. r |\<notin>| ads_announced s) (fm_keys (ads_aggs s))"
  let ?keys = "leader_set_for_round cur s"
  consider (off) "\<not> ads_is_leader s \<or> ads_aggregation s = None \<and> cur |\<in>| ads_announced s"
    | (agg) a where "ads_is_leader s" "ads_aggregation s = Some a"
    | (direct) "ads_is_leader s" "ads_aggregation s = None" "cur |\<notin>| ads_announced s"
    by (cases "ads_aggregation s") auto
  then have "once_in set_out ads_announced s s' outs \<and> settles_sets s s'"
  proof cases
    case off
    then have "s' = s \<and> outs = []" using assms by (cases "ads_is_leader s") (simp_all add: announce_phase_def)
    then show ?thesis by (simp add: settles_sets_def settles_def)
  next
    case agg
    have sub: "set ?rs \<subseteq> held_rounds s - fset (ads_announced s)" "distinct ?rs" by (auto simp: held_rounds_def)
    have run: "run_ops (announce_aggregated C) ?rs s = (s', outs)" using agg assms by (simp add: announce_phase_def)
    note p = set_pass.pass_run [OF run sub(2)]
    show ?thesis unfolding once_in_def using p(1,3,4,5) subset_trans [OF p(2) sub(1)] by blast
  next
    case direct
    then have ann: "announce_set C cur ?keys s = (s', outs)" using assms by (simp add: announce_phase_def)
    have sh: "outs = [] \<and> s' = s \<or> outs = [SetOut cur ?keys] \<and> ads_announced s' = finsert cur (ads_announced s) \<and>
        cur \<in> held_rounds s" "settles_sets s s'"
      by (rule announce_set_shape [OF ann], rule leader_set_held, assumption)+
    from sh(1) have "once_in set_out ads_announced s s' outs"
    proof (elim disjE conjE)
      assume "outs = [SetOut cur ?keys]" "ads_announced s' = finsert cur (ads_announced s)" "cur \<in> held_rounds s"
      then show ?thesis using direct(3) by (simp add: once_in_def List.map_filter_simps)
    qed simp
    then show ?thesis using sh(2) by blast
  qed
  then show "once_in set_out ads_announced s s' outs" "settles_sets s s'" by blast+
qed

lemma share_phase_once:
  assumes "share_phase C s = (s', outs)"
  shows "once_in share_out ads_shared s s' outs" "settles_shares s s'"
proof -
  let ?rs = "filter (\<lambda>r. r |\<notin>| ads_shared s) (fm_keys (ads_sets s))"
  have sub: "set ?rs \<subseteq> held_rounds s - fset (ads_shared s)" "distinct ?rs" by (auto simp: held_rounds_def)
  note p = share_pass.pass_run [OF assms [unfolded share_phase_def] sub(2)]
  show "once_in share_out ads_shared s s' outs" "settles_shares s s'"
    unfolding once_in_def using p(1,3,4,5) subset_trans [OF p(2) sub(1)] by blast+
qed

lemma combined_not_again:
  assumes "distinct rs" "t |\<in>| ads_combined s"
  shows "t \<notin> set (List.map_filter decoded_out (snd (run_ops (leader_combine C) rs s)))"
  using assms
proof (induction rs arbitrary: s)
  case (Cons r rs)
  obtain s1 out where 1: "leader_combine C r s = (s1, out)" by force
  have "t |\<in>| ads_combined s1" "t \<notin> set (List.map_filter decoded_out out)"
    using leader_combine_shape(1) [OF 1] Cons.prems(2) by (auto simp: List.map_filter_def)
  then show ?case using Cons 1 by (auto simp: List.map_filter_def)
qed (simp add: List.map_filter_def)

lemma combine_phase_once:
  assumes "combine_phase C s = (s', outs)"
  shows "once_in decoded_out ads_combined s s' outs" "settles_results s s'"
proof -
  let ?rs = "fm_keys (ads_sets s)"
  have rs: "set ?rs \<subseteq> held_rounds s" by (auto simp: held_rounds_def)
  have "once_in decoded_out ads_combined s s' outs \<and> settles_results s s'"
  proof (cases "ads_is_leader s")
    case True
    then have run: "run_ops (leader_combine C) ?rs s = (s', outs)" using assms by (simp add: combine_phase_def)
    have "set (List.map_filter decoded_out outs) \<inter> fset (ads_combined s) = {}"
      using combined_not_again [of ?rs _ s C] run by fastforce
    then show ?thesis
      unfolding once_in_def using result_pass.pass_run [OF run distinct_fm_keys] rs by blast
  next
    case False
    then show ?thesis using assms by (simp add: combine_phase_def settles_results_def settles_def)
  qed
  then show "once_in decoded_out ads_combined s s' outs" "settles_results s s'" by blast+
qed

text \<open>Outputs of the other phases do not count.\<close>

lemma map_filter_none: "(\<And>x. x \<in> set xs \<Longrightarrow> f x = None) \<Longrightarrow> List.map_filter f xs = []"
  by (induction xs) (auto simp: List.map_filter_simps)

lemma other_outputs:
  "\<exists>r. set_out x = Some r \<Longrightarrow> share_out x = None" "\<exists>r. set_out x = Some r \<Longrightarrow> decoded_out x = None"
  "\<exists>r. share_out x = Some r \<Longrightarrow> set_out x = None" "\<exists>r. share_out x = Some r \<Longrightarrow> decoded_out x = None"
  "\<exists>r. decoded_out x = Some r \<Longrightarrow> set_out x = None" "\<exists>r. decoded_out x = Some r \<Longrightarrow> share_out x = None"
  by (cases x; simp)+

definition emitted_once ::
    "(adc_output \<Rightarrow> nat option) \<Rightarrow> (adc_server \<Rightarrow> nat fset) \<Rightarrow> adc_server \<Rightarrow> adc_server \<Rightarrow> adc_output list \<Rightarrow> bool" where
  "emitted_once emits mark s s' outs \<longleftrightarrow>
     distinct (List.map_filter emits outs) \<and>
     fset (mark s') = fset (mark s) \<union> set (List.map_filter emits outs) \<and>
     set (List.map_filter emits outs) \<subseteq> held_rounds s - fset (mark s)"

lemma ads_emit_once:
  assumes "ads_emit C r s = (s', outs)"
  shows "emitted_once set_out ads_announced s s' outs" "emitted_once share_out ads_shared s s' outs"
    "emitted_once decoded_out ads_combined s s' outs" "settles s s'"
proof -
  have "emitted_once set_out ads_announced s s' outs \<and> emitted_once share_out ads_shared s s' outs \<and>
    emitted_once decoded_out ads_combined s s' outs \<and> settles s s'"
  proof (cases "ads_misbehavior s = Some Withhold")
    case True
    then show ?thesis using assms by (simp add: ads_emit_def emitted_once_def settles_def List.map_filter_def)
  next
    case False
    obtain s1 xs where a: "announce_phase C (as_u32 r) s = (s1, xs)" by force
    obtain s2 ys where b: "share_phase C s1 = (s2, ys)" by force
    obtain zs where c: "combine_phase C s2 = (s', zs)" and outs: "outs = xs @ ys @ zs"
      using assms False a b by (auto simp: ads_emit_def ads_phases_def split: prod.splits)
    note A = announce_phase_once [OF a] and B = share_phase_once [OF b] and D = combine_phase_once [OF c]
    have none: "List.map_filter share_out xs = []" "List.map_filter decoded_out xs = []"
      "List.map_filter set_out ys = []" "List.map_filter decoded_out ys = []"
      "List.map_filter set_out zs = []" "List.map_filter share_out zs = []"
      using A(1) B(1) D(1) other_outputs unfolding once_in_def by (meson map_filter_none)+
    have app: "List.map_filter e outs = List.map_filter e xs @ List.map_filter e ys @ List.map_filter e zs" for e
      by (simp add: outs List.map_filter_def)
    have held: "held_rounds s1 \<subseteq> held_rounds s" "held_rounds s2 \<subseteq> held_rounds s1"
      using A(2) B(2) by (simp_all add: settles_sets_def settles_shares_def settles_def)
    have "emitted_once set_out ads_announced s s' outs"
      using A(1) B(2) D(2) unfolding emitted_once_def app none once_in_def settles_shares_def settles_results_def
      by simp
    moreover have "emitted_once share_out ads_shared s s' outs"
      using A(2) B(1) D(2) held unfolding emitted_once_def app none once_in_def settles_sets_def settles_results_def
      by auto
    moreover have "emitted_once decoded_out ads_combined s s' outs"
      using A(2) B(2) D(1) held unfolding emitted_once_def app none once_in_def settles_sets_def settles_shares_def
      by auto
    moreover have "settles s s'"
      using A(2) B(2) D(2) by (auto simp: settles_sets_def settles_shares_def settles_results_def settles_def)
    ultimately show ?thesis by blast
  qed
  then show "emitted_once set_out ads_announced s s' outs" "emitted_once share_out ads_shared s s' outs"
    "emitted_once decoded_out ads_combined s s' outs" "settles s s'" by blast+
qed

section \<open>Messages and the clock\<close>

text \<open>The marks and the clock of a relay.\<close>

definition ads_marks :: "adc_server \<Rightarrow> u32 \<times> u32 fset \<times> u32 fset \<times> u32 fset" where
  "ads_marks s = (ads_cur s, ads_announced s, ads_shared s, ads_combined s)"

lemma cache_client_key_fields [simp]:
  "ads_config (cache_client_key C who xpub key s) = ads_config s"
  "ads_server_id (cache_client_key C who xpub key s) = ads_server_id s"
  "ads_identity (cache_client_key C who xpub key s) = ads_identity s"
  "ads_expected (cache_client_key C who xpub key s) = ads_expected s"
  "ads_roster (cache_client_key C who xpub key s) = ads_roster s"
  "ads_min_clients (cache_client_key C who xpub key s) = ads_min_clients s"
  "ads_client_set_max (cache_client_key C who xpub key s) = ads_client_set_max s"
  "ads_good_clients (cache_client_key C who xpub key s) = ads_good_clients s"
  "ads_is_leader (cache_client_key C who xpub key s) = ads_is_leader s"
  "ads_leader (cache_client_key C who xpub key s) = ads_leader s"
  "ads_clients (cache_client_key C who xpub key s) = ads_clients s"
  "ads_sets (cache_client_key C who xpub key s) = ads_sets s"
  "ads_shares (cache_client_key C who xpub key s) = ads_shares s"
  "ads_announced (cache_client_key C who xpub key s) = ads_announced s"
  "ads_shared (cache_client_key C who xpub key s) = ads_shared s"
  "ads_combined (cache_client_key C who xpub key s) = ads_combined s"
  "ads_cur (cache_client_key C who xpub key s) = ads_cur s"
  "ads_misbehavior (cache_client_key C who xpub key s) = ads_misbehavior s"
  "ads_aggregation (cache_client_key C who xpub key s) = ads_aggregation s"
  "ads_aggs (cache_client_key C who xpub key s) = ads_aggs s"
  by (simp_all add: cache_client_key_def)

lemma cache_client_key_same:
  "ads_marks (cache_client_key C who xpub key s) = ads_marks s"
  "held_rounds (cache_client_key C who xpub key s) = held_rounds s"
  by (simp_all add: ads_marks_def held_rounds_def)

lemma cache_members_same:
  "ads_marks (fold (cache_member C) keys s) = ads_marks s"
  "held_rounds (fold (cache_member C) keys s) = held_rounds s"
proof (induction keys arbitrary: s)
  case (Cons k keys)
  { case 1 show ?case using Cons by (simp add: cache_member_def cache_client_key_same split: option.splits prod.splits) }
  { case 2 show ?case using Cons by (simp add: cache_member_def cache_client_key_same split: option.splits prod.splits) }
qed simp_all

lemma on_adc_client_cases:
  obtains "on_adc_client C c key s = s"
  | r b t where "ads_cur s \<le> r" "t = s \<or> (\<exists>who xpub. t = cache_client_key C who xpub key s)"
      "on_adc_client C c key s = t\<lparr>ads_clients := fmupd r b (ads_clients s)\<rparr>"
proof (cases "\<exists>r bl who xpub. ads_is_leader s \<and> recover_contribution C c = Some ((r, bl), who) \<and>
    recover_key C key = Some (xpub, who) \<and> ads_cur s \<le> r \<and> r \<le> saturating_add32 (ads_cur s) FUTURE_ROUND_SLACK \<and>
    adc_good (ads_good_clients s) who")
  case True
  then obtain r bl who xpub where 1: "ads_is_leader s" "recover_contribution C c = Some ((r, bl), who)"
    "recover_key C key = Some (xpub, who)" "ads_cur s \<le> r" "r \<le> saturating_add32 (ads_cur s) FUTURE_ROUND_SLACK"
    "adc_good (ads_good_clients s) who" by blast
  then have eq: "on_adc_client C c key s =
      (let b = ads_bucket r s
       in if who \<in> snd ` set b \<or> ads_client_set_max s \<le> length b
          then s\<lparr>ads_clients := fmupd r b (ads_clients s)\<rparr>
          else (cache_client_key C who xpub key s)\<lparr>ads_clients := fmupd r (b @ [((r, bl), who)]) (ads_clients s)\<rparr>)"
    by (simp add: on_adc_client_def not_less)
  show thesis
  proof (cases "who \<in> snd ` set (ads_bucket r s) \<or> ads_client_set_max s \<le> length (ads_bucket r s)")
    case True
    then show thesis using eq by (intro that(2) [OF 1(4), of s "ads_bucket r s"]) (simp_all add: Let_def)
  next
    case False
    then show thesis
      using eq
      by (intro that(2) [OF 1(4), of "cache_client_key C who xpub key s" "ads_bucket r s @ [((r, bl), who)]"])
        (auto simp: Let_def)
  qed
next
  case False
  then have "on_adc_client C c key s = s"
    by (auto simp: on_adc_client_def not_less split: option.splits)
  then show thesis by (rule that(1))
qed

lemma on_adc_client_held:
  "ads_marks (on_adc_client C c key s) = ads_marks s"
  "held_rounds (on_adc_client C c key s) \<subseteq> held_rounds s \<union> {r. ads_cur s \<le> r}"
proof -
  have "ads_marks (on_adc_client C c key s) = ads_marks s \<and>
    held_rounds (on_adc_client C c key s) \<subseteq> held_rounds s \<union> {r. ads_cur s \<le> r}"
  proof (cases rule: on_adc_client_cases [of C c key s])
    case (2 r b t)
    have "ads_marks t = ads_marks s" "ads_sets t = ads_sets s" "ads_aggs t = ads_aggs s"
      using 2(2) by (elim disjE exE; simp add: ads_marks_def)+
    then show ?thesis using 2(1,3) by (auto simp: ads_marks_def held_rounds_def)
  qed simp
  then show "ads_marks (on_adc_client C c key s) = ads_marks s"
    "held_rounds (on_adc_client C c key s) \<subseteq> held_rounds s \<union> {r. ads_cur s \<le> r}" by blast+
qed

lemma on_adc_server_held:
  "ads_marks (on_adc_server C m s) = ads_marks s" "held_rounds (on_adc_server C m s) = held_rounds s"
  by (auto simp: on_adc_server_def ads_marks_def held_rounds_def split: option.splits)

lemma adopt_set_held:
  "ads_marks (adopt_set r cs s) = ads_marks s" "held_rounds (adopt_set r cs s) \<subseteq> insert r (held_rounds s)"
  by (auto simp: adopt_set_def ads_marks_def held_rounds_def)

lemma file_aggregate_held:
  "ads_marks (file_aggregate r g bl cs s) = ads_marks s"
  "held_rounds (file_aggregate r g bl cs s) \<subseteq> insert r (held_rounds s)"
  by (auto simp: file_aggregate_def ads_marks_def held_rounds_def Let_def)

text \<open>What a message may do to the marks and the held rounds.\<close>

definition admits :: "adc_server \<Rightarrow> adc_server \<Rightarrow> bool" where
  "admits s s' \<longleftrightarrow> ads_marks s' = ads_marks s \<and>
     held_rounds s' \<subseteq> held_rounds s \<union> {r. ads_cur s \<le> saturating_add32 r ROUND_WINDOW} \<union> {r. ads_cur s \<le> r}"

lemma admits_refl [simp]: "admits s s"
  by (auto simp: admits_def)

lemma admits_client_set: "admits s (on_adc_client_set C from r keys s)"
proof (cases "adc_in_window r (ads_cur s)")
  case True
  have "admits s (adopt_set r cs (fold (cache_member C) keys s))" for cs
    using True adopt_set_held [of r cs "fold (cache_member C) keys s"] cache_members_same [of C keys s]
    by (auto simp: admits_def adc_in_window_def)
  then show ?thesis by (simp add: on_adc_client_set_def)
qed (simp add: on_adc_client_set_def)

lemma admits_aggregate: "admits s (on_group_aggregate C r g bl keys pk sg s)"
proof (cases "adc_in_window r (ads_cur s)")
  case True
  have "admits s (file_aggregate r g bl cs (fold (cache_member C) keys s))" for cs
    using True file_aggregate_held [of r g bl cs "fold (cache_member C) keys s"] cache_members_same [of C keys s]
    by (auto simp: admits_def adc_in_window_def)
  then show ?thesis by (simp add: on_group_aggregate_def split: option.splits)
qed (simp add: on_group_aggregate_def aggregate_ok_def split: option.splits)

lemma admits_inbound: "admits s (ads_on_inbound C from payload s)"
proof (cases "adcnet_wire_of_bytes C payload")
  case None
  then show ?thesis by (simp add: ads_on_inbound_def)
next
  case (Some m)
  show ?thesis
  proof (cases m)
    case (AdcClient c key)
    then show ?thesis using Some on_adc_client_held [of C c key s] by (auto simp: ads_on_inbound_def admits_def)
  next
    case (AdcServer x)
    then show ?thesis using Some on_adc_server_held [of C x s] by (auto simp: ads_on_inbound_def admits_def)
  next
    case (AdcDecoded r ps)
    have "ads_marks (on_adc_decoded from r ps s) = ads_marks s" "held_rounds (on_adc_decoded from r ps s) = held_rounds s"
      by (simp_all add: on_adc_decoded_def ads_marks_def held_rounds_def)
    then show ?thesis using Some AdcDecoded by (auto simp: ads_on_inbound_def admits_def)
  qed (use Some admits_client_set admits_aggregate in \<open>simp_all add: ads_on_inbound_def\<close>)
qed

lemma inbound_marks [simp]:
  "ads_cur (ads_on_inbound C from payload s) = ads_cur s"
  "ads_announced (ads_on_inbound C from payload s) = ads_announced s"
  "ads_shared (ads_on_inbound C from payload s) = ads_shared s"
  "ads_combined (ads_on_inbound C from payload s) = ads_combined s"
  using admits_inbound [of s C "from" payload] by (simp_all add: admits_def ads_marks_def)

text \<open>A round is over for a relay when it left the window and nothing of it is held.\<close>

definition gone :: "nat \<Rightarrow> adc_server \<Rightarrow> bool" where
  "gone r s \<longleftrightarrow> r < ads_cur s - ROUND_WINDOW \<and> r \<notin> held_rounds s"

lemma gone_inbound: "gone r s \<Longrightarrow> gone r (ads_on_inbound C from payload s)"
  using admits_inbound [of s C "from" payload]
  by (fastforce simp: gone_def admits_def ads_marks_def saturating_add32_def)

lemma gone_settles: "gone r s \<Longrightarrow> settles s s' \<Longrightarrow> gone r s'"
  by (auto simp: gone_def settles_def)

lemma begin_round_prunes:
  assumes "ads_cur s \<le> as_u32 r'"
  shows "gone r s \<Longrightarrow> gone r (ads_begin_round r' s)"
    and "r \<notin> held_rounds (ads_begin_round r' s) \<or> as_u32 r' - ROUND_WINDOW \<le> r"
    and "ads_announced (ads_begin_round r' s) = ffilter (\<lambda>r. as_u32 r' - ROUND_WINDOW \<le> r) (ads_announced s)"
    "ads_shared (ads_begin_round r' s) = ffilter (\<lambda>r. as_u32 r' - ROUND_WINDOW \<le> r) (ads_shared s)"
    "ads_combined (ads_begin_round r' s) = ffilter (\<lambda>r. as_u32 r' - ROUND_WINDOW \<le> r) (ads_combined s)"
    "ads_cur (ads_begin_round r' s) = as_u32 r'"
proof -
  have dom: "fmdom' (fm_retain (\<lambda>r _. P r) m) = {r \<in> fmdom' m. P r}" for P and m :: "(nat, 'v) fmap"
    by (auto simp: fmdom'_alt_def fmlookup_dom_iff split: if_splits option.splits)
  show "gone r s \<Longrightarrow> gone r (ads_begin_round r' s)"
    using assms by (auto simp: gone_def ads_begin_round_def prune_stale_def held_rounds_def dom Let_def)
  show "r \<notin> held_rounds (ads_begin_round r' s) \<or> as_u32 r' - ROUND_WINDOW \<le> r"
    by (auto simp: ads_begin_round_def prune_stale_def held_rounds_def dom Let_def)
qed (simp_all add: ads_begin_round_def prune_stale_def Let_def)

section \<open>Once per round\<close>

text \<open>A relay's clock does not run back.\<close>

definition forward :: "ads_event \<Rightarrow> adc_server \<Rightarrow> bool" where
  "forward e s \<longleftrightarrow> (case e of AdsBegin r \<Rightarrow> ads_cur s \<le> as_u32 r | _ \<Rightarrow> True)"

fun clock_forward :: "u32 \<Rightarrow> ads_event list \<Rightarrow> bool" where
  "clock_forward cur [] \<longleftrightarrow> True"
| "clock_forward cur (AdsBegin r # es) \<longleftrightarrow> cur \<le> as_u32 r \<and> clock_forward (as_u32 r) es"
| "clock_forward cur (e # es) \<longleftrightarrow> clock_forward cur es"

lemma gone_irrelevant [simp]:
  "gone r (s\<lparr>ads_pending := p\<rparr>) = gone r s" "gone r (ads_set_misbehavior m s) = gone r s"
  by (simp_all add: gone_def held_rounds_def ads_set_misbehavior_def)

lemma ads_once:
  assumes em: "\<And>r s s' outs. ads_emit C r s = (s', outs) \<Longrightarrow> emitted_once emits mark s s' outs"
    and beg: "\<And>r s. mark (ads_begin_round r s) = ffilter (\<lambda>r'. as_u32 r - ROUND_WINDOW \<le> r') (mark s)"
    and inb: "\<And>from payload s. mark (ads_on_inbound C from payload s) = mark s"
    and oth: "\<And>s. mark (s\<lparr>ads_pending := []\<rparr>) = mark s" "\<And>m s. mark (ads_set_misbehavior m s) = mark s"
  shows "once_per_round (\<lambda>e s. Some (ads_step C e s)) forward emits (\<lambda>r s. r |\<in>| mark s \<or> gone r s)"
proof
  fix e s s' xs r assume "Some (ads_step C e s) = Some (s', xs)"
  then have st: "ads_step C e s = (s', xs)" by simp
  have quiet: "xs = []" if "\<nexists>n. e = AdsEnd n" using st that by (cases e) auto
  have ends: "emitted_once emits mark s s' xs \<and> (\<forall>q. gone q s \<longrightarrow> gone q s')" if e: "e = AdsEnd n" for n
  proof -
    obtain s1 where 1: "ads_emit C n s = (s1, xs)" "s' = s1\<lparr>ads_pending := []\<rparr>"
      using st e by (auto split: prod.splits)
    from em [OF 1(1)] have "emitted_once emits mark s s' xs" using 1(2) oth(1) [of s1] by (simp add: emitted_once_def)
    moreover have "gone q s'" if "gone q s" for q
      using gone_settles [OF that ads_emit_once(4) [OF 1(1)]] 1(2) by simp
    ultimately show ?thesis by blast
  qed
  show "distinct (List.map_filter emits xs)"
    using quiet ends by (cases "\<exists>n. e = AdsEnd n") (auto simp: emitted_once_def List.map_filter_def)
  { assume "r \<in> set (List.map_filter emits xs)"
    then have "xs \<noteq> []" by (auto simp: List.map_filter_def)
    with quiet have "\<exists>n. e = AdsEnd n" by blast
    with ends have "emitted_once emits mark s s' xs" by blast
    with \<open>r \<in> _\<close> have "r \<in> held_rounds s - fset (mark s)" "r |\<in>| mark s'" unfolding emitted_once_def by blast+
    then show "\<not> (r |\<in>| mark s \<or> gone r s)" "r |\<in>| mark s' \<or> gone r s'" by (auto simp: gone_def) }
  assume ok: "forward e s" and sp: "r |\<in>| mark s \<or> gone r s"
  show "r |\<in>| mark s' \<or> gone r s'"
  proof (cases e)
    case (AdsBegin r')
    then have "ads_cur s \<le> as_u32 r'" using ok by (simp add: forward_def)
    note b = begin_round_prunes [OF this]
    show ?thesis using sp b(1,2) [of r] beg [of r' s] b(6) AdsBegin st by (auto simp: gone_def)
  next
    case (AdsInbound "from" payload)
    then show ?thesis using sp st gone_inbound [of r s C "from" payload] inb by auto
  next
    case (AdsEnd n)
    then show ?thesis using sp ends unfolding emitted_once_def by blast
  next
    case (AdsMisbehave m)
    then show ?thesis using sp st oth(2) by auto
  qed
qed

interpretation set_once: once_per_round "\<lambda>e s. Some (ads_step C e s)" forward set_out
  "\<lambda>r s. r |\<in>| ads_announced s \<or> gone r s" for C
  by (rule ads_once, erule ads_emit_once(1))
    (simp_all add: ads_set_misbehavior_def ads_begin_round_def prune_stale_def Let_def)

interpretation share_once: once_per_round "\<lambda>e s. Some (ads_step C e s)" forward share_out
  "\<lambda>r s. r |\<in>| ads_shared s \<or> gone r s" for C
  by (rule ads_once, erule ads_emit_once(2))
    (simp_all add: ads_set_misbehavior_def ads_begin_round_def prune_stale_def Let_def)

interpretation decode_once: once_per_round "\<lambda>e s. Some (ads_step C e s)" forward decoded_out
  "\<lambda>r s. r |\<in>| ads_combined s \<or> gone r s" for C
  by (rule ads_once, erule ads_emit_once(3))
    (simp_all add: ads_set_misbehavior_def ads_begin_round_def prune_stale_def Let_def)

lemma step_clock:
  "ads_cur (fst (ads_step C e s)) = (case e of AdsBegin r \<Rightarrow> as_u32 r | _ \<Rightarrow> ads_cur s)"
proof (cases e)
  case (AdsEnd n)
  then show ?thesis using ads_emit_once(4) [of C n s] by (auto simp: settles_def split: prod.splits)
qed (simp_all add: ads_set_misbehavior_def ads_begin_round_def prune_stale_def Let_def)

lemma clock_forward_allowed:
  "clock_forward (ads_cur s) es \<Longrightarrow> steps_allowed (\<lambda>e s. Some (ads_step C e s)) forward es s"
proof (induction es arbitrary: s)
  case (Cons e es)
  have "clock_forward (ads_cur (fst (ads_step C e s))) es" "forward e s"
    using Cons.prems unfolding step_clock forward_def by (cases e; simp)+
  with Cons.IH [of "fst (ads_step C e s)"] show ?case by auto
qed simp

text \<open>
  C17. Over any run of an ADCNet relay whose clock does not run back, every round is announced
  at most once, shared at most once and combined at most once, whatever messages arrive:
  messages of a round that left the window are dropped before they could revive it.
\<close>

theorem adcnet_rounds_once:
  assumes "clock_forward (ads_cur s) es" "run_ops (ads_step C) es s = (s', outs)"
  shows "distinct (List.map_filter set_out outs) \<and> distinct (List.map_filter share_out outs) \<and>
    distinct (List.map_filter decoded_out outs)"
proof -
  have run: "run_steps (\<lambda>e s. Some (ads_step C e s)) es s = Some (s', outs)"
    using assms(2) by (simp add: run_steps_total)
  note ok = clock_forward_allowed [OF assms(1)]
  show ?thesis
    using set_once.run_distinct [OF run ok] share_once.run_distinct [OF run ok] decode_once.run_distinct [OF run ok]
    by blast
qed

end
