(* ===== verification/Adcnet_Combine.thy ===== *)
theory Adcnet_Combine
  imports Adcnet_Rounds
begin

text \<open>
  What an ADCNet leader combines: the contributions of exactly the announced clients, each
  signed by its client and for that round, and the shares of enough relays, each signed by
  the relay whose slot it fills. In the aggregated flow the sums of the groups take the
  place of the contributions.
\<close>

section \<open>Contributions and shares on record\<close>

text \<open>What the crate promises of a relay's own share.\<close>

definition server_contribute_ok :: "'z adc_codecs_scheme \<Rightarrow> bool" where
  "server_contribute_ok C \<longleftrightarrow>
     (\<forall>cfg t i ident keys m. server_contribute C cfg t i ident keys = Some m \<longrightarrow>
        (\<exists>x. recover_server C m =
           Some (\<lparr>sh_server = i, sh_round = t, sh_share = x\<rparr>, pubkey_bytes (identity_pubkey C ident))))"

text \<open>The configuration of a relay, which no event changes.\<close>

definition ads_static ::
    "adc_server \<Rightarrow> adcnet_config \<times> u32 \<times> identity \<times> usize \<times> pubkey list \<times> usize \<times> (pubkey \<Rightarrow> bool) \<times>
     (u32, pubkey) fmap option" where
  "ads_static s =
     (ads_config s, ads_server_id s, ads_identity s, ads_expected s, ads_roster s, ads_min_clients s,
      ads_good_clients s, ads_aggregation s)"

definition seated :: "'z adc_codecs_scheme \<Rightarrow> adc_server \<Rightarrow> bool" where
  "seated C s \<longleftrightarrow> length (ads_roster s) \<le> U32_MAX \<and> ads_server_id s < length (ads_roster s) \<and>
     ads_roster s ! ads_server_id s = identity_pubkey C (ads_identity s)"

definition contributed :: "'z adc_codecs_scheme \<Rightarrow> adc_server \<Rightarrow> u32 \<Rightarrow> adc_contribution \<Rightarrow> bytes \<Rightarrow> bool" where
  "contributed C s r c who \<longleftrightarrow>
     (\<exists>m. recover_contribution C m = Some (c, who)) \<and> fst c = r \<and> adc_good (ads_good_clients s) who"

definition vouched :: "'z adc_codecs_scheme \<Rightarrow> adc_server \<Rightarrow> u32 \<Rightarrow> adc_share \<Rightarrow> bool" where
  "vouched C s r sh \<longleftrightarrow>
     sh_round sh = r \<and> sh_server sh < length (ads_roster s) \<and>
     (\<exists>m i. recover_server C m =
        Some (sh\<lparr>sh_server := i\<rparr>, pubkey_bytes (ads_roster s ! sh_server sh)))"

definition clients_on_record :: "'z adc_codecs_scheme \<Rightarrow> adc_server \<Rightarrow> bool" where
  "clients_on_record C s \<longleftrightarrow>
     (\<forall>r items c who. fmlookup (ads_clients s) r = Some items \<longrightarrow> (c, who) \<in> set items \<longrightarrow>
        contributed C s r c who)"

definition shares_on_record :: "'z adc_codecs_scheme \<Rightarrow> adc_server \<Rightarrow> bool" where
  "shares_on_record C s \<longleftrightarrow>
     (\<forall>r m i sh. fmlookup (ads_shares s) r = Some m \<longrightarrow> fmlookup m i = Some sh \<longrightarrow>
        vouched C s r sh \<and> sh_server sh = i)"

definition on_record :: "'z adc_codecs_scheme \<Rightarrow> adc_server \<Rightarrow> bool" where
  "on_record C s \<longleftrightarrow> seated C s \<and> clients_on_record C s \<and> shares_on_record C s"

lemma on_recordD:
  "on_record C s \<Longrightarrow> fmlookup (ads_clients s) r = Some items \<Longrightarrow> (c, who) \<in> set items \<Longrightarrow> contributed C s r c who"
  "on_record C s \<Longrightarrow> fmlookup (ads_shares s) r = Some m \<Longrightarrow> fmlookup m i = Some sh \<Longrightarrow>
     vouched C s r sh \<and> sh_server sh = i"
  unfolding on_record_def clients_on_record_def shares_on_record_def by blast+

text \<open>
  The clients of an announced set: a set of that round is among the outputs \<open>out\<close>, each of
  its keys is one client's, and no client is in it twice.
\<close>

definition announced_as :: "'z adc_codecs_scheme \<Rightarrow> adc_output list \<Rightarrow> u32 \<Rightarrow> bytes list \<Rightarrow> bool" where
  "announced_as C out t cs \<longleftrightarrow>
     (\<exists>keys. SetOut t keys \<in> set out \<and> cs = key_signers C keys \<and> length cs = length keys \<and> distinct cs)"

text \<open>The contributions and shares a result was combined from, in the direct flow.\<close>

fun justified :: "'z adc_codecs_scheme \<Rightarrow> adc_output list \<Rightarrow> adc_server \<Rightarrow> adc_output \<Rightarrow> bool" where
  "justified C out s (DecodedOut t payloads) \<longleftrightarrow>
     (\<exists>cs inputs shares. announced_as C out t cs \<and>
        ads_min_clients s \<le> length cs \<and> length inputs = length cs \<and>
        (\<forall>i < length cs. contributed C s t (inputs ! i) (cs ! i)) \<and>
        ads_expected s \<le> length shares \<and> distinct (map sh_server shares) \<and>
        (\<forall>sh \<in> set shares. vouched C s t sh) \<and>
        combine_round C (ads_config s) t inputs shares (ads_expected s) = Some payloads)"
| "justified C out s _ \<longleftrightarrow> True"

lemma announced_as_mono: "announced_as C out t cs \<Longrightarrow> set out \<subseteq> set out' \<Longrightarrow> announced_as C out' t cs"
  unfolding announced_as_def by blast

lemma justified_mono: "justified C out s x \<Longrightarrow> set out \<subseteq> set out' \<Longrightarrow> justified C out' s x"
  by (cases x) (auto dest: announced_as_mono)

lemma static_same:
  assumes "ads_static s' = ads_static s"
  shows "seated C s' = seated C s" "contributed C s' r c who = contributed C s r c who"
    "vouched C s' r sh = vouched C s r sh" "justified C out s' x = justified C out s x"
proof -
  have eq: "ads_config s' = ads_config s" "ads_server_id s' = ads_server_id s" "ads_identity s' = ads_identity s"
    "ads_expected s' = ads_expected s" "ads_roster s' = ads_roster s" "ads_min_clients s' = ads_min_clients s"
    "ads_good_clients s' = ads_good_clients s"
    using assms by (simp_all add: ads_static_def)
  then show "seated C s' = seated C s" by (simp add: seated_def)
  show c: "contributed C s' r c who = contributed C s r c who" for r c who using eq by (simp add: contributed_def)
  show v: "vouched C s' r sh = vouched C s r sh" for r sh using eq by (simp add: vouched_def)
  show "justified C out s' x = justified C out s x" using eq c v by (cases x) simp_all
qed

section \<open>Every event keeps the record\<close>

text \<open>It is enough that buckets and shares only shrink, apart from what is named.\<close>

lemma record_shrinks:
  assumes "on_record C s" "ads_static s' = ads_static s"
    and "\<And>r items. fmlookup (ads_clients s') r = Some items \<Longrightarrow> fmlookup (ads_clients s) r = Some items"
    and "\<And>r m. fmlookup (ads_shares s') r = Some m \<Longrightarrow> fmlookup (ads_shares s) r = Some m"
  shows "on_record C s'"
  using assms(1,3,4)
  unfolding on_record_def clients_on_record_def shares_on_record_def static_same [OF assms(2)] by blast

lemma file_share_record:
  assumes "on_record C s" "vouched C s r sh" "sh_server sh = i"
  shows "on_record C (file_share r i sh s)" "ads_static (file_share r i sh s) = ads_static s"
proof -
  show st: "ads_static (file_share r i sh s) = ads_static s" by (simp add: file_share_def ads_static_def)
  have old: "vouched C s r sh' \<and> sh_server sh' = j" if "fmlookup (ads_share_map r s) j = Some sh'" for j sh'
    using that assms(1)
    by (auto simp: ads_share_map_def on_record_def shares_on_record_def split: option.splits)
  have "shares_on_record C (file_share r i sh s)"
    unfolding shares_on_record_def static_same [OF st]
  proof (intro allI impI)
    fix r' m j sh' assume m: "fmlookup (ads_shares (file_share r i sh s)) r' = Some m" "fmlookup m j = Some sh'"
    show "vouched C s r' sh' \<and> sh_server sh' = j"
    proof (cases "r' = r")
      case True
      then have "m = fmupd i sh (ads_share_map r s)" using m(1) by (simp add: file_share_def)
      then show ?thesis using m(2) assms(2,3) old True by (auto split: if_splits)
    next
      case False
      then show ?thesis using m assms(1) by (simp add: file_share_def on_record_def shares_on_record_def)
    qed
  qed
  then show "on_record C (file_share r i sh s)"
    using assms(1) unfolding on_record_def clients_on_record_def static_same [OF st] file_share_fields by blast
qed

lemma cache_member_fields [simp]:
  "ads_clients (cache_member C key s) = ads_clients s" "ads_shares (cache_member C key s) = ads_shares s"
  "ads_static (cache_member C key s) = ads_static s"
  by (auto simp: cache_member_def ads_static_def split: option.splits)

lemma cache_members_fields [simp]:
  "ads_clients (fold (cache_member C) keys s) = ads_clients s" "ads_shares (fold (cache_member C) keys s) = ads_shares s"
  "ads_static (fold (cache_member C) keys s) = ads_static s"
  by (induction keys arbitrary: s) simp_all

lemma adopt_and_file_fields [simp]:
  "ads_clients (adopt_set r cs s) = ads_clients s" "ads_shares (adopt_set r cs s) = ads_shares s"
  "ads_static (adopt_set r cs s) = ads_static s"
  "ads_clients (file_aggregate r g bl cs s) = ads_clients s" "ads_shares (file_aggregate r g bl cs s) = ads_shares s"
  "ads_static (file_aggregate r g bl cs s) = ads_static s"
  by (simp_all add: adopt_set_def file_aggregate_def ads_static_def Let_def)

lemma on_adc_client_record:
  assumes "on_record C s"
  shows "on_record C (on_adc_client C c key s)" "ads_static (on_adc_client C c key s) = ads_static s"
proof -
  show st: "ads_static (on_adc_client C c key s) = ads_static s"
    by (auto simp: on_adc_client_def ads_static_def Let_def split: option.splits)
  have sh: "ads_shares (on_adc_client C c key s) = ads_shares s"
    by (auto simp: on_adc_client_def Let_def split: option.splits)
  have "contributed C s r c' who"
    if "fmlookup (ads_clients (on_adc_client C c key s)) r = Some items" "(c', who) \<in> set items" for r items c' who
  proof -
    have old: "contributed C s r' c' who'" if "(c', who') \<in> set (ads_bucket r' s)" for r' c' who'
      using that assms
      by (cases "fmlookup (ads_clients s) r'") (auto simp: ads_bucket_def dest: on_recordD(1) [OF assms])
    have old': "contributed C s r c' who" if "fmlookup (ads_clients s) r = Some items"
      using that \<open>(c', who) \<in> set items\<close> on_recordD(1) [OF assms] by blast
    have new: "contributed C s r c' who"
      if "recover_contribution C c = Some (c', who)" "fst c' = r" "adc_good (ads_good_clients s) who"
      using that by (auto simp: contributed_def)
    show ?thesis
      using that old [of c' who r] old' new
      by (auto simp: on_adc_client_def Let_def split: option.splits if_splits)
  qed
  then have "clients_on_record C (on_adc_client C c key s)"
    unfolding clients_on_record_def static_same [OF st] by blast
  then show "on_record C (on_adc_client C c key s)"
    using assms unfolding on_record_def shares_on_record_def sh static_same [OF st] by blast
qed

lemma on_adc_server_record:
  assumes "on_record C s"
  shows "on_record C (on_adc_server C m s)" "ads_static (on_adc_server C m s) = ads_static s"
proof -
  have "on_record C (on_adc_server C m s) \<and> ads_static (on_adc_server C m s) = ads_static s"
  proof (cases "\<exists>sh who i. ads_is_leader s \<and> recover_server C m = Some (sh, who) \<and>
      adc_in_window (sh_round sh) (ads_cur s) \<and> server_id_of who s = Some i")
    case True
    then obtain sh who i where 1: "ads_is_leader s" "recover_server C m = Some (sh, who)"
      "adc_in_window (sh_round sh) (ads_cur s)" "server_id_of who s = Some i" by blast
    obtain j where j: "position (\<lambda>p. pubkey_bytes p = who) (ads_roster s) = Some j" "i = as_u32 j"
      using 1(4) by (auto simp: server_id_of_def)
    have "j < length (ads_roster s)" "pubkey_bytes (ads_roster s ! j) = who" using position_Some [OF j(1)] by auto
    moreover have "i = j" using j(2) \<open>j < _\<close> assms by (simp add: on_record_def seated_def)
    ultimately have "vouched C s (sh_round sh) (sh\<lparr>sh_server := i\<rparr>)"
      using 1(2) by (auto simp: vouched_def intro!: exI [of _ m] exI [of _ "sh_server sh"])
    from file_share_record [OF assms this] show ?thesis using 1 by (simp add: on_adc_server_def)
  next
    case False
    then have "on_adc_server C m s = s"
      by (cases "recover_server C m") (auto simp: on_adc_server_def split: option.splits)
    then show ?thesis using assms by simp
  qed
  then show "on_record C (on_adc_server C m s)" "ads_static (on_adc_server C m s) = ads_static s" by blast+
qed

lemma on_inbound_record:
  assumes "on_record C s"
  shows "on_record C (ads_on_inbound C from payload s) \<and> ads_static (ads_on_inbound C from payload s) = ads_static s"
proof -
  have sets: "ads_static (on_adc_client_set C from r keys s) = ads_static s"
    "on_record C (on_adc_client_set C from r keys s)" for r keys
    using assms by (auto simp: on_adc_client_set_def intro: record_shrinks)
  have dec: "ads_static (on_adc_decoded from r ps s) = ads_static s" "on_record C (on_adc_decoded from r ps s)" for r ps
  proof -
    show st: "ads_static (on_adc_decoded from r ps s) = ads_static s" by (simp add: on_adc_decoded_def ads_static_def)
    show "on_record C (on_adc_decoded from r ps s)"
      by (rule record_shrinks [OF assms st]) (auto simp: on_adc_decoded_def split: if_splits)
  qed
  have agg: "ads_static (on_group_aggregate C r g bl keys pk sg s) = ads_static s"
    "on_record C (on_group_aggregate C r g bl keys pk sg s)" for r g bl keys pk sg
    using assms by (auto simp: on_group_aggregate_def intro: record_shrinks split: option.splits)
  show ?thesis
    using assms sets dec agg on_adc_client_record [OF assms] on_adc_server_record [OF assms]
    by (simp add: ads_on_inbound_def split: option.splits adcnet_wire.splits)
qed

section \<open>The phases keep the record\<close>

lemma announce_phase_record:
  "ads_clients (fst (announce_phase C cur s)) = ads_clients s \<and>
   ads_shares (fst (announce_phase C cur s)) = ads_shares s \<and>
   ads_static (fst (announce_phase C cur s)) = ads_static s"
proof -
  have one: "ads_clients (fst (announce_set C r keys s)) = ads_clients s \<and>
      ads_shares (fst (announce_set C r keys s)) = ads_shares s \<and>
      ads_static (fst (announce_set C r keys s)) = ads_static s" for r keys s
    by (auto simp: announce_set_def adopt_set_def ads_static_def)
  have "ads_clients (fst (run_ops (announce_aggregated C) rs s)) = ads_clients s \<and>
      ads_shares (fst (run_ops (announce_aggregated C) rs s)) = ads_shares s \<and>
      ads_static (fst (run_ops (announce_aggregated C) rs s)) = ads_static s" for rs
    by (induction rs arbitrary: s) (simp_all add: announce_aggregated_def one split: option.splits)
  then show ?thesis using one by (simp add: announce_phase_def split: option.splits)
qed

lemma share_one_record:
  assumes "server_contribute_ok C" "on_record C s"
  shows "on_record C (fst (share_one C t s)) \<and> ads_static (fst (share_one C t s)) = ads_static s"
proof -
  let ?keys = "set_secrets (case fmlookup (ads_sets s) t of Some cs \<Rightarrow> cs | None \<Rightarrow> []) s"
  let ?used = "if ads_misbehavior s = Some CorruptShare then corrupt_first ?keys else ?keys"
  have mark: "on_record C (s'\<lparr>ads_shared := x\<rparr>) \<and> ads_static (s'\<lparr>ads_shared := x\<rparr>) = ads_static s"
    if "on_record C s'" "ads_static s' = ads_static s" for s' x
  proof -
    have st: "ads_static (s'\<lparr>ads_shared := x\<rparr>) = ads_static s'" by (simp add: ads_static_def)
    show ?thesis using record_shrinks [OF that(1) st] that(2) st by simp
  qed
  have filed: "on_record C (file_share t (ads_server_id s) own s) \<and>
      ads_static (file_share t (ads_server_id s) own s) = ads_static s"
    if m: "server_contribute C (ads_config s) t (ads_server_id s) (ads_identity s) ?used = Some m"
      "recover_server C m = Some (own, who)" for m own who
  proof -
    have "\<exists>x. recover_server C m = Some (\<lparr>sh_server = ads_server_id s, sh_round = t, sh_share = x\<rparr>,
        pubkey_bytes (identity_pubkey C (ads_identity s)))"
      using assms(1) m(1) unfolding server_contribute_ok_def by blast
    then have own: "sh_server own = ads_server_id s" "sh_round own = t"
        "who = pubkey_bytes (identity_pubkey C (ads_identity s))" using m(2) by auto
    moreover have "own = own\<lparr>sh_server := sh_server own\<rparr>" by simp
    moreover have "seated C s" using assms(2) by (simp add: on_record_def)
    ultimately have "vouched C s t own" using m(2) unfolding vouched_def seated_def by metis
    from file_share_record [OF assms(2) this own(1)] show ?thesis by blast
  qed
  show ?thesis
  proof (cases "server_contribute C (ads_config s) t (ads_server_id s) (ads_identity s) ?used")
    case None
    then show ?thesis using assms(2) by (simp add: share_one_def Let_def)
  next
    case (Some m)
    show ?thesis
    proof (cases "recover_server C m")
      case None
      then show ?thesis using Some mark [OF assms(2) refl] assms(2) by (simp add: share_one_def Let_def)
    next
      case (Some r)
      obtain own who where r: "r = (own, who)" by force
      note f = filed [OF \<open>server_contribute _ _ _ _ _ _ = Some m\<close> Some [unfolded r]]
      show ?thesis
        using \<open>server_contribute _ _ _ _ _ _ = Some m\<close> Some r mark [OF assms(2) refl] mark [OF conjunct1 [OF f] conjunct2 [OF f]]
          assms(2)
        by (simp add: share_one_def Let_def)
    qed
  qed
qed

lemma combine_record:
  assumes "on_record C s"
  shows "on_record C (fst (leader_combine C t s)) \<and> ads_static (fst (leader_combine C t s)) = ads_static s"
proof (cases "fst (leader_combine C t s) = s")
  case False
  then obtain x where eq: "fst (leader_combine C t s) = s\<lparr>ads_combined := x, ads_clients := fmdrop t (ads_clients s),
      ads_aggs := fmdrop t (ads_aggs s), ads_shares := fmdrop t (ads_shares s)\<rparr>"
    by (auto simp: leader_combine_def split: option.splits if_splits)
  have st: "ads_static (fst (leader_combine C t s)) = ads_static s" by (simp add: eq ads_static_def)
  have "on_record C (fst (leader_combine C t s))"
    by (rule record_shrinks [OF assms st]) (auto simp: eq split: if_splits)
  then show ?thesis using st by blast
qed (use assms in simp)

lemma pass_record:
  assumes "\<And>t s. on_record C s \<Longrightarrow> on_record C (fst (f t s)) \<and> ads_static (fst (f t s)) = ads_static s" "on_record C s"
  shows "on_record C (fst (run_ops f ts s)) \<and> ads_static (fst (run_ops f ts s)) = ads_static s"
  using assms(2)
proof (induction ts arbitrary: s)
  case (Cons t ts)
  then show ?case using assms(1) [OF Cons.prems, of t] Cons.IH [of "fst (f t s)"] by simp
qed simp

section \<open>The sets are the announced ones\<close>

text \<open>
  Over the outputs so far: the key on file for a client is that client's, every set a relay
  works with was announced, and every announcement names its clients once.
\<close>

definition keys_known :: "'z adc_codecs_scheme \<Rightarrow> adc_server \<Rightarrow> bool" where
  "keys_known C s \<longleftrightarrow>
     (\<forall>who key. fmlookup (ads_client_keys s) who = Some key \<longrightarrow> (\<exists>x. recover_key C key = Some (x, who)))"

definition sets_announced :: "'z adc_codecs_scheme \<Rightarrow> adc_output list \<Rightarrow> adc_server \<Rightarrow> bool" where
  "sets_announced C out s \<longleftrightarrow> (\<forall>t cs. fmlookup (ads_sets s) t = Some cs \<longrightarrow> announced_as C out t cs)"

definition announcements_proper :: "'z adc_codecs_scheme \<Rightarrow> adc_output list \<Rightarrow> bool" where
  "announcements_proper C out \<longleftrightarrow>
     (\<forall>t keys. SetOut t keys \<in> set out \<longrightarrow> announced_as C out t (key_signers C keys))"

definition history_ok :: "'z adc_codecs_scheme \<Rightarrow> adc_output list \<Rightarrow> adc_server \<Rightarrow> bool" where
  "history_ok C out s \<longleftrightarrow> keys_known C s \<and> sets_announced C out s \<and> announcements_proper C out"

text \<open>Outputs that announce nothing, and states with the same keys and fewer sets.\<close>

lemma history_silent:
  assumes "history_ok C out s" "\<And>t keys. SetOut t keys \<notin> set new"
  shows "history_ok C (out @ new) s"
  using assms announced_as_mono [of C out _ _ "out @ new"]
  by (auto simp: history_ok_def sets_announced_def announcements_proper_def)

lemma history_shrinks:
  assumes "history_ok C out s" "ads_client_keys s' = ads_client_keys s"
    and "\<And>t cs. fmlookup (ads_sets s') t = Some cs \<Longrightarrow> fmlookup (ads_sets s) t = Some cs"
  shows "history_ok C out s'"
  using assms unfolding history_ok_def keys_known_def sets_announced_def by metis

lemma cache_client_key_history:
  assumes "history_ok C out s" "recover_key C key = Some (xpub, who)"
  shows "history_ok C out (cache_client_key C who xpub key s)"
  using assms by (auto simp: history_ok_def keys_known_def sets_announced_def cache_client_key_def)

lemma cache_member_history: "history_ok C out s \<Longrightarrow> history_ok C out (cache_member C key s)"
  by (auto simp: cache_member_def cache_client_key_history split: option.splits)

lemma cache_members_history: "history_ok C out s \<Longrightarrow> history_ok C out (fold (cache_member C) keys s)"
  by (induction keys arbitrary: s) (simp_all add: cache_member_history)

lemma adopt_set_history:
  assumes "history_ok C out s" "announced_as C out r cs"
  shows "history_ok C out (adopt_set r cs s)"
  using assms by (auto simp: history_ok_def keys_known_def sets_announced_def adopt_set_def)

lemma on_adc_client_history: "history_ok C out s \<Longrightarrow> history_ok C out (on_adc_client C c key s)"
proof -
  assume ok: "history_ok C out s"
  have upd: "history_ok C out (s'\<lparr>ads_clients := x\<rparr>)" if "history_ok C out s'" for s' x
    by (rule history_shrinks [OF that]) simp_all
  show ?thesis
    using ok upd [OF ok] upd [OF cache_client_key_history [OF ok]]
    by (auto simp: on_adc_client_def Let_def split: option.splits)
qed

text \<open>
  A set that reaches a relay under its leader's name was announced before. On the leader
  itself this is the echo of its own broadcast.
\<close>

definition own_echo :: "'z adc_codecs_scheme \<Rightarrow> adc_output list \<Rightarrow> ads_event \<Rightarrow> adc_server \<Rightarrow> bool" where
  "own_echo C out e s \<longleftrightarrow>
     (case e of
        AdsInbound from payload \<Rightarrow>
          (case adcnet_wire_of_bytes C payload of
             Some (AdcClientSet r keys) \<Rightarrow> from \<noteq> ads_leader s \<or> SetOut r keys \<in> set out
           | _ \<Rightarrow> True)
      | _ \<Rightarrow> True)"

fun echoes_only :: "'z adc_codecs_scheme \<Rightarrow> ads_event list \<Rightarrow> adc_output list \<Rightarrow> adc_server \<Rightarrow> bool" where
  "echoes_only C [] out s \<longleftrightarrow> True"
| "echoes_only C (e # es) out s \<longleftrightarrow>
     own_echo C out e s \<and> echoes_only C es (out @ snd (ads_step C e s)) (fst (ads_step C e s))"

lemma on_inbound_history:
  assumes "history_ok C out s" "own_echo C out (AdsInbound from payload) s"
  shows "history_ok C out (ads_on_inbound C from payload s)"
proof -
  have set: "history_ok C out (on_adc_client_set C from r keys s)"
    if "adcnet_wire_of_bytes C payload = Some (AdcClientSet r keys)" for r keys
  proof (cases "from = ads_leader s")
    case True
    then have "SetOut r keys \<in> set out" using assms(2) that by (simp add: own_echo_def)
    then have "announced_as C out r (key_signers C keys)"
      using assms(1) by (simp add: history_ok_def announcements_proper_def)
    then show ?thesis
      using assms(1) by (simp add: on_adc_client_set_def adopt_set_history cache_members_history)
  qed (simp add: on_adc_client_set_def assms(1))
  have "history_ok C out (on_adc_server C m s)" for m
    by (rule history_shrinks [OF assms(1)])
       (auto simp: on_adc_server_def file_share_def split: option.splits if_splits)
  moreover have "history_ok C out (on_adc_decoded from r ps s)" for r ps
    by (rule history_shrinks [OF assms(1)]) (auto simp: on_adc_decoded_def split: if_splits)
  moreover have "history_ok C out (on_group_aggregate C r g bl keys pk sg s)" for r g bl keys pk sg
  proof -
    have "history_ok C out (file_aggregate r g bl cs (fold (cache_member C) keys s))" for cs
      by (rule history_shrinks [OF cache_members_history [OF assms(1), of keys]])
         (simp_all add: file_aggregate_def Let_def)
    then show ?thesis using assms(1) by (auto simp: on_group_aggregate_def split: option.splits)
  qed
  ultimately show ?thesis
    using set on_adc_client_history [OF assms(1)] assms(1)
    by (auto simp: ads_on_inbound_def split: option.splits adcnet_wire.splits)
qed

text \<open>The keys a leader announces are one per client.\<close>

lemma map_filter_inverse:
  assumes "\<forall>x \<in> set xs. \<exists>y. f x = Some y \<and> g y = Some x"
  shows "List.map_filter g (List.map_filter f xs) = xs \<and> length (List.map_filter f xs) = length xs"
  using assms by (induction xs) (auto simp: List.map_filter_simps)

lemma known_keys_signers:
  assumes "keys_known C s"
  shows "distinct (key_signers C (known_keys cs s)) \<and>
    length (key_signers C (known_keys cs s)) = length (known_keys cs s)"
proof -
  let ?cs = "sort_dedup (filter (\<lambda>c. c |\<in>| fmdom (ads_client_keys s)) cs)"
  have "\<forall>c \<in> set ?cs. \<exists>key. fmlookup (ads_client_keys s) c = Some key \<and>
      map_option snd (recover_key C key) = Some c"
    using assms by (force simp: keys_known_def fmlookup_dom_iff)
  from map_filter_inverse [OF this] show ?thesis
    by (simp add: key_signers_def known_keys_def)
qed

lemma announce_set_history:
  assumes "history_ok C out s" "keys = known_keys cs s"
  shows "history_ok C (out @ snd (announce_set C r keys s)) (fst (announce_set C r keys s))"
proof (cases "keys = []")
  case False
  let ?out = "out @ [SetOut r keys]"
  have "keys_known C s" using assms(1) by (simp add: history_ok_def)
  then have new: "announced_as C ?out r (key_signers C keys)"
    using known_keys_signers [of C s cs] assms(2) by (auto simp: announced_as_def)
  have mono: "announced_as C out t cs' \<Longrightarrow> announced_as C ?out t cs'" for t cs'
    by (rule announced_as_mono) auto
  have "history_ok C ?out s"
    using assms(1) new mono
    by (auto simp: history_ok_def sets_announced_def announcements_proper_def)
  from adopt_set_history [OF this new] have "history_ok C ?out (adopt_set r (key_signers C keys) s)" .
  then have "history_ok C ?out ((adopt_set r (key_signers C keys) s)\<lparr>ads_announced := finsert r (ads_announced s)\<rparr>)"
    by (rule history_shrinks) simp_all
  with False show ?thesis by (simp add: announce_set_def)
qed (simp add: announce_set_def assms(1))

lemma announce_phase_history:
  assumes "history_ok C out s"
  shows "history_ok C (out @ snd (announce_phase C cur s)) (fst (announce_phase C cur s))"
proof -
  have one: "history_ok C (out @ snd (announce_aggregated C r s)) (fst (announce_aggregated C r s))"
    if "history_ok C out s" for out s r
    using that announce_set_history [OF that refl]
    by (auto simp: announce_aggregated_def leader_agg_set_for_round_def split: option.splits)
  have "history_ok C (out @ snd (run_ops (announce_aggregated C) rs s)) (fst (run_ops (announce_aggregated C) rs s))" for rs
    using assms
  proof (induction rs arbitrary: out s)
    case (Cons r rs)
    from Cons.IH [OF one [OF Cons.prems, of r]] show ?case by simp
  qed simp
  then show ?thesis
    using assms announce_set_history [OF assms refl]
    by (simp add: announce_phase_def leader_set_for_round_def split: option.splits)
qed

lemma pass_history:
  assumes "\<And>t s. ads_client_keys (fst (f t s)) = ads_client_keys s \<and> ads_sets (fst (f t s)) = ads_sets s"
  shows "ads_client_keys (fst (run_ops f ts s)) = ads_client_keys s \<and> ads_sets (fst (run_ops f ts s)) = ads_sets s"
  by (induction ts arbitrary: s) (simp_all add: assms)

lemma share_and_combine_sets:
  "ads_client_keys (fst (share_one C t s)) = ads_client_keys s \<and> ads_sets (fst (share_one C t s)) = ads_sets s"
  "ads_client_keys (fst (leader_combine C t s)) = ads_client_keys s \<and> ads_sets (fst (leader_combine C t s)) = ads_sets s"
  by (auto simp: share_one_def leader_combine_def file_share_def Let_def split: option.splits)

section \<open>What is combined\<close>

lemma found_inputs:
  assumes "length (List.map_filter f cs) = length cs" "i < length cs"
  shows "f (cs ! i) = Some (List.map_filter f cs ! i)"
  using assms
proof (induction cs arbitrary: i)
  case (Cons c cs)
  have "length (List.map_filter f cs) \<le> length cs" by (simp add: List.map_filter_def)
  with Cons.prems obtain y where y: "f c = Some y" "length (List.map_filter f cs) = length cs"
    by (cases "f c") (auto simp: List.map_filter_simps)
  then show ?case using Cons by (cases i) (simp_all add: List.map_filter_simps)
qed simp

lemma combine_justified:
  assumes "on_record C s" "ads_aggregation s = None" "sets_announced C out s"
    and "x \<in> set (snd (leader_combine C t s))"
  shows "justified C out s x"
proof -
  obtain cs m inputs p where 1: "x = DecodedOut t p" "ads_min_clients s \<le> length cs"
    "fmlookup (ads_shares s) t = Some m" "ads_expected s \<le> fm_size m" "combine_inputs t cs s = Some inputs"
    "combine_round C (ads_config s) t inputs (fm_values m) (ads_expected s) = Some p"
    "fmlookup (ads_sets s) t = Some cs"
    using assms(4) by (auto simp: leader_combine_def bind_eq_Some_conv not_less split: if_splits option.splits)
  obtain items where it: "fmlookup (ads_clients s) t = Some items"
    "inputs = List.map_filter (\<lambda>c. map_option fst (find (\<lambda>(_, who). who = c) items)) cs" "length inputs = length cs"
    using 1(5) assms(2) by (auto simp: combine_inputs_def Let_def split: option.splits if_splits)
  have inp: "contributed C s t (inputs ! i) (cs ! i)" if "i < length cs" for i
  proof -
    have "map_option fst (find (\<lambda>(_, who). who = cs ! i) items) = Some (inputs ! i)"
      using found_inputs [OF it(3) [unfolded it(2)] that] it(2) by simp
    then have "(inputs ! i, cs ! i) \<in> set items" by (auto simp: find_Some_iff in_set_conv_nth)
    then show ?thesis by (rule on_recordD(1) [OF assms(1) it(1)])
  qed
  have sh: "vouched C s t sh \<and> sh_server sh = i" if "fmlookup m i = Some sh" for i sh
    using on_recordD(2) [OF assms(1) 1(3) that] .
  then have "\<forall>sh \<in> set (fm_values m). vouched C s t sh" by (auto simp: set_fm_values fmran'_alt_def fmlookup_ran_iff)
  moreover have "map sh_server (fm_values m) = fm_keys m"
  proof -
    have "sh_server (the (fmlookup m i)) = i" if "i \<in> set (fm_keys m)" for i using that sh by (auto simp: fmlookup_dom'_iff)
    then show ?thesis by (auto simp: fm_values_def intro: map_idI)
  qed
  moreover have "length (fm_values m) = fm_size m" by (simp add: fm_values_def length_fm_keys)
  moreover have "announced_as C out t cs" using assms(3) 1(7) by (simp add: sets_announced_def)
  ultimately show ?thesis using 1 it(3) inp by (auto intro!: exI [of _ cs] exI [of _ inputs] exI [of _ "fm_values m"])
qed

lemma combines_justified:
  assumes "on_record C s" "ads_aggregation s = None" "sets_announced C out s"
    and "x \<in> set (snd (run_ops (leader_combine C) ts s))"
  shows "justified C out s x"
  using assms
proof (induction ts arbitrary: s)
  case (Cons t ts)
  let ?s = "fst (leader_combine C t s)"
  note r = combine_record [OF Cons.prems(1), of t]
  have "ads_aggregation ?s = None" using r Cons.prems(2) by (simp add: ads_static_def)
  moreover have "sets_announced C out ?s"
    using Cons.prems(3) share_and_combine_sets(2) [of C t s] by (simp add: sets_announced_def)
  ultimately show ?case
    using Cons.IH [of ?s] r combine_justified [OF Cons.prems(1-3), of x t] static_same(4) [OF conjunct2 [OF r]]
      Cons.prems(4) by auto
qed simp

text \<open>One end of round: the sets it combines are those of its own announcement or earlier ones.\<close>

lemma ads_phases_parts:
  assumes "announce_phase C (as_u32 r) s = (s1, xs)" "share_phase C s1 = (s2, ys)" "combine_phase C s2 = (s3, zs)"
    and "history_ok C out s"
  shows "history_ok C (out @ xs) s2" "history_ok C (out @ xs @ ys @ zs) s3"
proof -
  have sets1: "ads_client_keys s2 = ads_client_keys s1 \<and> ads_sets s2 = ads_sets s1"
    using pass_history [of "share_one C", OF share_and_combine_sets(1)] assms(2)
    unfolding share_phase_def by (metis fst_conv)
  have sets2: "ads_client_keys s3 = ads_client_keys s2 \<and> ads_sets s3 = ads_sets s2"
    using pass_history [of "leader_combine C", OF share_and_combine_sets(2)] assms(3)
    unfolding combine_phase_def by (metis fst_conv)
  have "history_ok C (out @ xs) s1" using announce_phase_history [OF assms(4), of "as_u32 r"] assms(1) by simp
  then show two: "history_ok C (out @ xs) s2" by (rule history_shrinks) (simp_all add: sets1)
  have "SetOut t keys \<notin> set (ys @ zs)" for t keys
    using share_phase_once(1) [OF assms(2)] combine_phase_once(1) [OF assms(3)] by (force simp: once_in_def)
  from history_silent [OF two this] have "history_ok C (out @ xs @ ys @ zs) s2" by simp
  then show "history_ok C (out @ xs @ ys @ zs) s3" by (rule history_shrinks) (simp_all add: sets2)
qed

lemma ads_emit_record:
  assumes "server_contribute_ok C" "on_record C s" "history_ok C out s"
  shows "on_record C (fst (ads_emit C r s)) \<and> ads_static (fst (ads_emit C r s)) = ads_static s"
    and "history_ok C (out @ snd (ads_emit C r s)) (fst (ads_emit C r s))"
    and "ads_aggregation s = None \<Longrightarrow> x \<in> set (snd (ads_emit C r s)) \<Longrightarrow>
      justified C (out @ snd (ads_emit C r s)) s x"
proof -
  obtain s1 xs where a: "announce_phase C (as_u32 r) s = (s1, xs)" by force
  obtain s2 ys where b: "share_phase C s1 = (s2, ys)" by force
  obtain s3 zs where c: "combine_phase C s2 = (s3, zs)" by force
  note hist = ads_phases_parts [OF a b c assms(3)]
  have 1: "on_record C s1" "ads_static s1 = ads_static s"
    using announce_phase_record [of C "as_u32 r" s] a record_shrinks [OF assms(2), of s1] by simp_all
  have 2: "on_record C s2" "ads_static s2 = ads_static s"
    using pass_record [of C "share_one C", OF share_one_record [OF assms(1)] 1(1)] b 1(2)
    unfolding share_phase_def by (metis fst_conv)+
  have 3: "on_record C s3 \<and> ads_static s3 = ads_static s"
    using pass_record [of C "leader_combine C", OF combine_record 2(1)] c 2
    unfolding combine_phase_def by (metis fst_conv)
  have emit: "ads_emit C r s = (if ads_misbehavior s = Some Withhold then (s, []) else (s3, xs @ ys @ zs))"
    by (simp add: ads_emit_def ads_phases_def a b c)
  show "on_record C (fst (ads_emit C r s)) \<and> ads_static (fst (ads_emit C r s)) = ads_static s"
    using 3 assms(2) by (simp add: emit)
  show "history_ok C (out @ snd (ads_emit C r s)) (fst (ads_emit C r s))"
    using hist(2) assms(3) by (simp add: emit)
  assume agg: "ads_aggregation s = None" and x: "x \<in> set (snd (ads_emit C r s))"
  consider "x \<in> set xs" | "x \<in> set ys" | "x \<in> set zs" using x by (auto simp: emit split: if_splits)
  then show "justified C (out @ snd (ads_emit C r s)) s x"
  proof cases
    case 1
    then have "\<exists>q. set_out x = Some q" using announce_phase_once(1) [OF a] by (auto simp: once_in_def)
    then show ?thesis by (cases x) auto
  next
    case 2
    then have "\<exists>q. share_out x = Some q" using share_phase_once(1) [OF b] by (auto simp: once_in_def)
    then show ?thesis by (cases x) auto
  next
    case 3
    have "ads_aggregation s2 = None" using agg 2(2) by (simp add: ads_static_def)
    moreover have "sets_announced C (out @ xs) s2" using hist(1) by (simp add: history_ok_def)
    ultimately have "justified C (out @ xs) s2 x"
      using combines_justified [OF 2(1), of "out @ xs" x "fm_keys (ads_sets s2)"] 3 c
      by (cases "ads_is_leader s2") (simp_all add: combine_phase_def)
    then have "justified C (out @ xs) s x" using static_same(4) [OF 2(2), of C _ x] by simp
    moreover have "snd (ads_emit C r s) = xs @ ys @ zs" using x by (auto simp: emit split: if_splits)
    ultimately show ?thesis by (elim justified_mono) auto
  qed
qed

text \<open>One event, from a state on record with its history.\<close>

lemma ads_step_record:
  assumes "server_contribute_ok C" "on_record C s" "history_ok C out s" "own_echo C out e s"
  shows "on_record C (fst (ads_step C e s)) \<and> ads_static (fst (ads_step C e s)) = ads_static s"
    and "history_ok C (out @ snd (ads_step C e s)) (fst (ads_step C e s))"
    and "ads_aggregation s = None \<Longrightarrow> x \<in> set (snd (ads_step C e s)) \<Longrightarrow>
      justified C (out @ snd (ads_step C e s)) s x"
proof -
  have keep: "on_record C (t\<lparr>ads_pending := p\<rparr>) \<and> ads_static (t\<lparr>ads_pending := p\<rparr>) = ads_static t"
    "on_record C (ads_set_misbehavior m t) \<and> ads_static (ads_set_misbehavior m t) = ads_static t"
    "on_record C (ads_begin_round r t) \<and> ads_static (ads_begin_round r t) = ads_static t"
    if "on_record C t" for t p m r
  proof -
    have st: "ads_static (t\<lparr>ads_pending := p\<rparr>) = ads_static t" "ads_static (ads_set_misbehavior m t) = ads_static t"
      "ads_static (ads_begin_round r t) = ads_static t"
      by (simp_all add: ads_static_def ads_set_misbehavior_def ads_begin_round_def prune_stale_def Let_def)
    show "on_record C (t\<lparr>ads_pending := p\<rparr>) \<and> ads_static (t\<lparr>ads_pending := p\<rparr>) = ads_static t"
      using record_shrinks [OF that st(1)] st(1) by simp
    show "on_record C (ads_set_misbehavior m t) \<and> ads_static (ads_set_misbehavior m t) = ads_static t"
      using record_shrinks [OF that st(2)] st(2) by (simp add: ads_set_misbehavior_def)
    have "on_record C (ads_begin_round r t)"
      by (rule record_shrinks [OF that st(3)])
        (auto simp: ads_begin_round_def prune_stale_def Let_def split: option.splits if_splits)
    then show "on_record C (ads_begin_round r t) \<and> ads_static (ads_begin_round r t) = ads_static t" using st(3) by blast
  qed
  have pend: "history_ok C h (t\<lparr>ads_pending := p\<rparr>)" if "history_ok C h t" for h t p
    by (rule history_shrinks [OF that]) simp_all
  have other: "history_ok C out (ads_set_misbehavior m s)" "history_ok C out (ads_begin_round r s)" for m r
    by (rule history_shrinks [OF assms(3)];
        auto simp: ads_set_misbehavior_def ads_begin_round_def prune_stale_def Let_def split: option.splits if_splits)+
  show "on_record C (fst (ads_step C e s)) \<and> ads_static (fst (ads_step C e s)) = ads_static s"
  proof (cases e)
    case (AdsEnd r)
    have "fst (ads_step C e s) = (fst (ads_emit C r s))\<lparr>ads_pending := []\<rparr>" using AdsEnd by (simp add: split_def Let_def)
    then show ?thesis using keep(1) [of "fst (ads_emit C r s)" "[]"] ads_emit_record(1) [OF assms(1-3), of r] by simp
  qed (use keep [OF assms(2)] on_inbound_record [OF assms(2)] in simp_all)
  show "history_ok C (out @ snd (ads_step C e s)) (fst (ads_step C e s))"
  proof (cases e)
    case (AdsEnd r)
    then show ?thesis using pend [OF ads_emit_record(2) [OF assms(1-3), of r]] by (simp add: split_def Let_def)
  qed (use other on_inbound_history [OF assms(3)] assms(4) in simp_all)
  show "justified C (out @ snd (ads_step C e s)) s x" if "ads_aggregation s = None" "x \<in> set (snd (ads_step C e s))"
    using that ads_emit_record(3) [OF assms(1-3)] by (cases e) (auto simp: split_def Let_def)
qed

text \<open>A whole run: what it decodes is justified by what it announced.\<close>

lemma run_justified:
  assumes "server_contribute_ok C"
  shows "on_record C s \<Longrightarrow> history_ok C out s \<Longrightarrow> ads_aggregation s = None \<Longrightarrow> echoes_only C es out s \<Longrightarrow>
    x \<in> set (snd (run_ops (ads_step C) es s)) \<Longrightarrow>
    justified C (out @ snd (run_ops (ads_step C) es s)) s x"
proof (induction es arbitrary: out s)
  case (Cons e es)
  let ?s = "fst (ads_step C e s)" and ?new = "snd (ads_step C e s)" and ?rest = "snd (run_ops (ads_step C) es (fst (ads_step C e s)))"
  have echo: "own_echo C out e s" "echoes_only C es (out @ ?new) ?s" using Cons.prems(4) by simp_all
  note step = ads_step_record [OF assms Cons.prems(1,2) echo(1)]
  have agg: "ads_aggregation ?s = None" using step(1) Cons.prems(3) by (simp add: ads_static_def)
  show ?case
  proof (cases "x \<in> set ?new")
    case True
    from step(3) [OF Cons.prems(3) this] show ?thesis by (rule justified_mono) auto
  next
    case False
    then have "x \<in> set ?rest" using Cons.prems(5) by simp
    from Cons.IH [OF conjunct1 [OF step(1)] step(2) agg echo(2) this] static_same(4) [OF conjunct2 [OF step(1)], of C _ x]
    show ?thesis by simp
  qed
qed simp

text \<open>
  C16. What a leader decodes in the direct flow is combined from exactly the announced set:
  the run announced a set for the round that names every member once, the inputs are one
  contribution of each of its members in order, signed by that member for the round and
  accepted as a client, there are at least the configured number of them, and the shares are
  those of at least the expected number of distinct relays, each signed by the relay of its
  slot. A set that reaches the leader under its own name is taken to be the echo of its own
  earlier broadcast, which the authenticated transport gives.
\<close>

theorem adcnet_results_justified:
  assumes "server_contribute_ok C" "seated C s" "ads_aggregation s = None"
    and "ads_clients s = fmempty" "ads_shares s = fmempty" "ads_sets s = fmempty" "ads_client_keys s = fmempty"
    and "echoes_only C es [] s" "DecodedOut t payloads \<in> set (snd (run_ops (ads_step C) es s))"
  shows "\<exists>keys cs inputs shares.
    SetOut t keys \<in> set (snd (run_ops (ads_step C) es s)) \<and>
    cs = key_signers C keys \<and> length cs = length keys \<and> distinct cs \<and>
    ads_min_clients s \<le> length cs \<and> length inputs = length cs \<and>
    (\<forall>i < length cs. contributed C s t (inputs ! i) (cs ! i)) \<and>
    ads_expected s \<le> length shares \<and> distinct (map sh_server shares) \<and> (\<forall>sh \<in> set shares. vouched C s t sh) \<and>
    combine_round C (ads_config s) t inputs shares (ads_expected s) = Some payloads"
proof -
  have "on_record C s"
    using assms(2,4,5) by (simp add: on_record_def clients_on_record_def shares_on_record_def)
  moreover have "history_ok C [] s"
    using assms(6,7) by (simp add: history_ok_def keys_known_def sets_announced_def announcements_proper_def)
  ultimately have "justified C ([] @ snd (run_ops (ads_step C) es s)) s (DecodedOut t payloads)"
    by (rule run_justified [OF assms(1)]) (use assms in simp_all)
  then show ?thesis unfolding justified.simps announced_as_def append_Nil by blast
qed

end
