(* ===== verification/Adcnet_Groups.thy ===== *)
theory Adcnet_Groups
  imports Adcnet_Combine
begin

text \<open>
  The aggregated ADCNet flow: what an aggregator sums and signs, how the leader files it,
  and what happens to a sum that arrives after the round was announced. Then concrete
  runs of the one-round flow.
\<close>

section \<open>The aggregator as a machine\<close>

datatype ag_event = AgBegin round | AgInbound bytes | AgCheckpoint round nat

fun ag_step ::
    "'z adc_codecs_scheme \<Rightarrow> ag_event \<Rightarrow> adc_aggregator \<Rightarrow> (adc_aggregator \<times> adcnet_wire list) option" where
  "ag_step C (AgBegin r) s = Some (ag_begin_round r s, [])"
| "ag_step C (AgInbound payload) s = map_option (\<lambda>s'. (s', [])) (ag_on_inbound C payload s)"
| "ag_step C (AgCheckpoint r k) s = Some (ag_checkpoint C r k s)"

text \<open>Keys recovered from a signature are Ed25519 keys.\<close>

definition recovers_keys :: "'z adc_codecs_scheme \<Rightarrow> bool" where
  "recovers_keys C \<longleftrightarrow> (\<forall>m c who. recover_contribution C m = Some (c, who) \<longrightarrow> length who = 32)"

text \<open>A member of a group: its contribution and its key carry its own signature.\<close>

definition group_member ::
    "'z adc_codecs_scheme \<Rightarrow> adc_aggregator \<Rightarrow> u32 \<Rightarrow> bytes \<Rightarrow> u64 list \<Rightarrow> bytes \<Rightarrow> bool" where
  "group_member C s r who blinded key \<longleftrightarrow>
     (\<exists>m. recover_contribution C m = Some ((r, blinded), who)) \<and> (\<exists>xpub. recover_key C key = Some (xpub, who)) \<and>
     adcnet_client_group who (ag_group_count s) = Some (ag_group s) \<and> adc_good (ag_good_clients s) who"

definition bucket_members :: "'z adc_codecs_scheme \<Rightarrow> adc_aggregator \<Rightarrow> u32 \<Rightarrow> (bytes, u64 list \<times> bytes) fmap \<Rightarrow> bool" where
  "bucket_members C s r b \<longleftrightarrow> fm_size b \<le> ag_client_set_max s \<and>
     (\<forall>who blinded key. fmlookup b who = Some (blinded, key) \<longrightarrow> group_member C s r who blinded key)"

definition ag_ok :: "'z adc_codecs_scheme \<Rightarrow> adc_aggregator \<Rightarrow> bool" where
  "ag_ok C s \<longleftrightarrow> (\<forall>r. bucket_members C s r (ag_bucket r s))"

text \<open>The configuration of an aggregator.\<close>

definition ag_static :: "adc_aggregator \<Rightarrow> u32 \<times> u32 \<times> identity \<times> usize \<times> (pubkey \<Rightarrow> bool)" where
  "ag_static s = (ag_group s, ag_group_count s, ag_identity s, ag_client_set_max s, ag_good_clients s)"

lemma ag_static_same:
  assumes "ag_static s' = ag_static s"
  shows "bucket_members C s' r b = bucket_members C s r b"
  using assms by (simp add: ag_static_def bucket_members_def group_member_def)

lemma empty_bucket [simp]: "bucket_members C s r fmempty"
  by (simp add: bucket_members_def)

lemma ag_ok_begin:
  assumes "ag_ok C s"
  shows "ag_ok C (ag_begin_round r s)" "ag_static (ag_begin_round r s) = ag_static s"
proof -
  show st: "ag_static (ag_begin_round r s) = ag_static s" by (simp add: ag_begin_round_def ag_static_def Let_def)
  have "ag_bucket q (ag_begin_round r s) = ag_bucket q s \<or> ag_bucket q (ag_begin_round r s) = fmempty" for q
    by (auto simp: ag_bucket_def ag_begin_round_def Let_def split: option.splits)
  then show "ag_ok C (ag_begin_round r s)"
    unfolding ag_ok_def ag_static_same [OF st] using assms unfolding ag_ok_def by (metis empty_bucket)
qed

lemma ag_ok_accept:
  assumes "ag_ok C s" "recover_contribution C m = Some ((r, blinded), who)" "recover_key C key = Some (xpub, who)"
    "adcnet_client_group who (ag_group_count s) = Some (ag_group s)"
  shows "ag_ok C (ag_accept r blinded who key s)" "ag_static (ag_accept r blinded who key s) = ag_static s"
proof -
  show st: "ag_static (ag_accept r blinded who key s) = ag_static s"
    by (simp add: ag_accept_def ag_static_def Let_def)
  have b: "bucket_members C s r (ag_bucket r s)" using assms(1) by (simp add: ag_ok_def)
  have "bucket_members C s q (ag_bucket q (ag_accept r blinded who key s))" for q
  proof (cases "q = r \<and> adc_good (ag_good_clients s) who \<and> adc_in_window r (ag_cur_round s) \<and>
      (who |\<in>| fmdom (ag_bucket r s) \<or> fm_size (ag_bucket r s) < ag_client_set_max s)")
    case True
    then have eq: "ag_bucket q (ag_accept r blinded who key s) = fmupd who (blinded, key) (ag_bucket r s)"
      by (auto simp: ag_accept_def ag_bucket_def Let_def not_le)
    have "fm_size (fmupd who (blinded, key) (ag_bucket r s)) \<le> ag_client_set_max s"
      using b True by (auto simp: bucket_members_def fm_size_def finsert_absorb fcard_finsert_if)
    moreover have "group_member C s r who blinded key" using assms(2-4) True by (auto simp: group_member_def)
    ultimately show ?thesis using True b unfolding eq bucket_members_def by auto
  next
    case False
    then have "ag_bucket q (ag_accept r blinded who key s) = ag_bucket q s"
      by (auto simp: ag_accept_def ag_bucket_def Let_def not_less)
    then show ?thesis using assms(1) by (simp add: ag_ok_def)
  qed
  then show "ag_ok C (ag_accept r blinded who key s)" unfolding ag_ok_def ag_static_same [OF st] by blast
qed

lemma ag_inbound_ok:
  assumes "recovers_keys C" "ag_ok C s"
  shows "\<exists>s'. ag_on_inbound C payload s = Some s' \<and> ag_ok C s' \<and> ag_static s' = ag_static s"
proof (cases "\<exists>m key r blinded who xpub. adcnet_wire_of_bytes C payload = Some (AdcClient m key) \<and>
    recover_contribution C m = Some ((r, blinded), who) \<and> recover_key C key = Some (xpub, who)")
  case True
  then obtain m key r blinded who xpub where 1: "adcnet_wire_of_bytes C payload = Some (AdcClient m key)"
    "recover_contribution C m = Some ((r, blinded), who)" "recover_key C key = Some (xpub, who)" by blast
  have "length who = 32" using assms(1) 1(2) unfolding recovers_keys_def by blast
  then obtain g where g: "adcnet_client_group who (ag_group_count s) = Some g" by (simp add: adcnet_client_group_def)
  show ?thesis
    using 1 g assms(2) ag_ok_accept [OF assms(2) 1(2,3)] by (cases "g = ag_group s") (auto simp: ag_on_inbound_def)
next
  case False
  have "ag_on_inbound C payload s = Some s"
  proof (cases "\<exists>m key r blinded who xpub ow. adcnet_wire_of_bytes C payload = Some (AdcClient m key) \<and>
      recover_contribution C m = Some ((r, blinded), who) \<and> recover_key C key = Some (xpub, ow)")
    case True
    then obtain m key r blinded who xpub ow where 1: "adcnet_wire_of_bytes C payload = Some (AdcClient m key)"
      "recover_contribution C m = Some ((r, blinded), who)" "recover_key C key = Some (xpub, ow)" by blast
    have "length who = 32" "ow \<noteq> who" using assms(1) 1 False unfolding recovers_keys_def by blast+
    then show ?thesis using 1 by (simp add: ag_on_inbound_def adcnet_client_group_def)
  next
    case False
    then show ?thesis by (auto simp: ag_on_inbound_def split: option.splits adcnet_wire.splits)
  qed
  then show ?thesis using assms(2) by simp
qed

section \<open>From the group to the leader\<close>

text \<open>The sum an aggregator signs, with the members it covers.\<close>

definition group_sum :: "'z adc_codecs_scheme \<Rightarrow> adc_aggregator \<Rightarrow> adcnet_wire \<Rightarrow> bool" where
  "group_sum C s m \<longleftrightarrow>
     (\<exists>r b. m = ag_message C r (s\<lparr>ag_rounds := fmupd r b fmempty\<rparr>) \<and> bucket_members C s r b \<and> fm_size b \<noteq> 0)"

lemma ag_message_bucket: "ag_message C r (s\<lparr>ag_rounds := fmupd r (ag_bucket r s) fmempty\<rparr>) = ag_message C r s"
  by (simp add: ag_message_def ag_bucket_def)

lemma ag_checkpoint_ok:
  assumes "ag_ok C s" "ag_checkpoint C r k s = (s', out)"
  shows "ag_ok C s'" "ag_static s' = ag_static s" "m \<in> set out \<Longrightarrow> group_sum C s m"
proof -
  have "ag_static s' = ag_static s \<and> ag_rounds s' = ag_rounds s"
    using assms(2) by (auto simp: ag_checkpoint_def ag_static_def Let_def split: if_splits)
  then show st: "ag_static s' = ag_static s" and "ag_ok C s'"
    using assms(1) ag_static_same [of s' s C] by (simp_all add: ag_ok_def ag_bucket_def)
  assume "m \<in> set out"
  then have "m = ag_message C (as_u32 r) s" "fm_size (ag_bucket (as_u32 r) s) \<noteq> 0"
    using assms(2) by (auto simp: ag_checkpoint_def Let_def split: if_splits)
  then show "group_sum C s m"
    unfolding group_sum_def using ag_message_bucket [of C "as_u32 r" s] assms(1) unfolding ag_ok_def by metis
qed

lemma group_sum_static:
  assumes "ag_static s' = ag_static s"
  shows "group_sum C s' m = group_sum C s m"
proof -
  have "ag_message C r (s'\<lparr>ag_rounds := x\<rparr>) = ag_message C r (s\<lparr>ag_rounds := x\<rparr>)" for r x
    using assms by (simp add: ag_message_def ag_bucket_def ag_static_def)
  then show ?thesis by (simp add: group_sum_def ag_static_same [OF assms])
qed

interpretation ag_machine: machine "ag_step C"
  "\<lambda>s. recovers_keys C \<and> ag_ok C s \<and> ag_static s = ag_static s0" "group_sum C s0" for C s0
proof
  fix s e assume inv: "recovers_keys C \<and> ag_ok C s \<and> ag_static s = ag_static s0"
  show "\<exists>s' xs. ag_step C e s = Some (s', xs)"
    using ag_inbound_ok [of C s] inv by (cases e) (auto split: prod.splits)
  fix s' xs x assume st: "ag_step C e s = Some (s', xs)"
  show "recovers_keys C \<and> ag_ok C s' \<and> ag_static s' = ag_static s0"
  proof (cases e)
    case (AgInbound payload)
    then show ?thesis using st inv ag_inbound_ok [of C s payload] by auto
  next
    case (AgBegin r)
    then show ?thesis using st inv ag_ok_begin [of C s r] by auto
  next
    case (AgCheckpoint r k)
    then show ?thesis using st inv ag_checkpoint_ok(1,2) [of C s r k s' xs] by auto
  qed
  show "group_sum C s0 x" if "x \<in> set xs"
  proof (cases e)
    case (AgCheckpoint r k)
    then have "group_sum C s x" using st that ag_checkpoint_ok(3) [of C s r k s' xs x] inv by auto
    then show ?thesis using group_sum_static [of s s0 C x] inv by blast
  qed (use st that in auto)
qed

lemma cache_member_aggs [simp]:
  "ads_aggs (cache_member C key s) = ads_aggs s" "ads_sets (cache_member C key s) = ads_sets s"
  "ads_announced (cache_member C key s) = ads_announced s"
  by (auto simp: cache_member_def split: option.splits)

lemma cache_members_aggs [simp]:
  "ads_aggs (fold (cache_member C) keys s) = ads_aggs s" "ads_sets (fold (cache_member C) keys s) = ads_sets s"
  "ads_announced (fold (cache_member C) keys s) = ads_announced s"
  by (induction keys arbitrary: s) simp_all

lemma map_filter_map: "\<forall>x \<in> set xs. f (g x) = Some (h x) \<Longrightarrow> List.map_filter f (map g xs) = map h xs"
  by (induction xs) (simp_all add: List.map_filter_simps)

lemma aggregate_filed:
  assumes "ads_aggregation s = Some agg" "aggregate_ok C r g blinded keys pk sg agg s" "g |\<notin>| fmdom (ads_agg_map r s)"
  shows "ads_agg_map r (on_group_aggregate C r g blinded keys pk sg s) =
    fmupd g (blinded, key_signers C keys) (ads_agg_map r s)"
  using assms by (simp add: on_group_aggregate_def file_aggregate_def ads_agg_map_def Let_def)

text \<open>
  C18. A group's sum reaches the leader: an aggregator set up with the leader's cap never
  panics, and whatever it signs is the sum of contributions of distinct clients of its
  group, each signed by the client for that round; a leader that has it as the aggregator
  of the group, in the window and without a sum of the group yet, files that sum with
  exactly those clients.
\<close>

theorem group_sum_reaches_leader:
  assumes "recovers_keys C" "signing_ok C"
    and ag: "ag0 = (new_adc_aggregator g n ident)\<lparr>ag_client_set_max := group_cap (ads_client_set_max s) (fm_size agg),
               ag_good_clients := good\<rparr>"
    and leader: "ads_aggregation s = Some agg" "fmlookup agg g = Some (identity_pubkey C ident)"
  shows "\<exists>ag' outs. run_steps (ag_step C) es ag0 = Some (ag', outs) \<and>
    (\<forall>m \<in> set outs. \<exists>r blinded keys sg members.
       m = AdcGroupAggregate r g blinded keys (identity_pubkey C ident) sg \<and>
       distinct (map fst members) \<and> blinded = aggregate_clients C (map snd members) \<and>
       (\<forall>(who, b) \<in> set members. adcnet_client_group who n = Some g \<and> adc_good good who \<and>
          (\<exists>c. recover_contribution C c = Some ((r, b), who))) \<and>
       (adc_in_window r (ads_cur s) \<and> g |\<notin>| fmdom (ads_agg_map r s) \<longrightarrow>
          fmlookup (ads_agg_map r (on_group_aggregate C r g blinded keys (identity_pubkey C ident) sg s)) g =
            Some (blinded, map fst members)))"
proof -
  have "ag_ok C ag0" by (simp add: ag ag_ok_def ag_bucket_def new_adc_aggregator_def)
  then obtain ag' outs where run: "run_steps (ag_step C) es ag0 = Some (ag', outs)"
    and sums: "\<And>m. m \<in> set outs \<Longrightarrow> group_sum C ag0 m"
    using ag_machine.run_returns [of C ag0 ag0 es] ag_machine.run_good [of C ag0 ag0 es] assms(1) by blast
  have "\<exists>r blinded keys sg members.
       m = AdcGroupAggregate r g blinded keys (identity_pubkey C ident) sg \<and>
       distinct (map fst members) \<and> blinded = aggregate_clients C (map snd members) \<and>
       (\<forall>(who, b) \<in> set members. adcnet_client_group who n = Some g \<and> adc_good good who \<and>
          (\<exists>c. recover_contribution C c = Some ((r, b), who))) \<and>
       (adc_in_window r (ads_cur s) \<and> g |\<notin>| fmdom (ads_agg_map r s) \<longrightarrow>
          fmlookup (ads_agg_map r (on_group_aggregate C r g blinded keys (identity_pubkey C ident) sg s)) g =
            Some (blinded, map fst members))" if m: "m \<in> set outs" for m
  proof -
    obtain r b where 1: "m = ag_message C r (ag0\<lparr>ag_rounds := fmupd r b fmempty\<rparr>)" "bucket_members C ag0 r b"
      using sums [OF m] by (auto simp: group_sum_def)
    let ?keys = "map (\<lambda>(_, _, k). k) (fm_items b)" and ?members = "map (\<lambda>(who, bl, _). (who, bl)) (fm_items b)"
    let ?sum = "aggregate_clients C (map snd ?members)"
    let ?msg = "group_aggregate_signing_bytes C r g ?sum ?keys"
    have fields: "ag_group ag0 = g" "ag_group_count ag0 = n" "ag_identity ag0 = ident" "ag_good_clients ag0 = good"
      "ag_client_set_max ag0 = group_cap (ads_client_set_max s) (fm_size agg)"
      by (simp_all add: ag new_adc_aggregator_def)
    have meq: "m = AdcGroupAggregate r g ?sum ?keys (identity_pubkey C ident) (sign C ident ?msg)"
      by (simp add: 1(1) ag_message_def ag_bucket_def fields Let_def comp_def split_def)
    have mem: "group_member C ag0 r who bl key" if "(who, bl, key) \<in> set (fm_items b)" for who bl key
      using 1(2) that by (auto simp: bucket_members_def set_fm_items)
    have fsts: "map fst ?members = fm_keys b" using map_fst_fm_items [of b] by (simp add: comp_def split_def)
    have "key_signers C ?keys = map fst ?members"
    proof -
      have "map_option snd (recover_key C key) = Some who" if "(who, bl, key) \<in> set (fm_items b)" for who bl key
        using mem [OF that] by (auto simp: group_member_def)
      then have "key_signers C ?keys = map fst (fm_items b)" unfolding key_signers_def by (intro map_filter_map) auto
      then show ?thesis using fsts by simp
    qed
    moreover have "aggregate_ok C r g ?sum ?keys (identity_pubkey C ident) (sign C ident ?msg) agg s"
      if "adc_in_window r (ads_cur s)"
      using that leader(2) 1(2) assms(2)
      by (simp add: aggregate_ok_def bucket_members_def fields length_fm_items verify_sign)
    ultimately show ?thesis
      using meq fsts mem
        aggregate_filed [OF leader(1), of C r g ?sum ?keys "identity_pubkey C ident" "sign C ident ?msg"]
      by (intro exI [of _ r] exI [of _ ?sum] exI [of _ ?keys] exI [of _ "sign C ident ?msg"] exI [of _ ?members])
        (auto simp: group_member_def fields)
  qed
  with run show ?thesis by blast
qed

section \<open>A sum that comes late\<close>

lemma announce_phase_keeps:
  "fmlookup (ads_sets s) t = Some cs \<Longrightarrow> fmlookup (ads_sets (fst (announce_phase C cur s))) t = Some cs"
  "ads_aggs (fst (announce_phase C cur s)) = ads_aggs s"
proof -
  have one: "ads_aggs (fst (announce_set C r keys s)) = ads_aggs s"
    "fmlookup (ads_sets s) t = Some cs \<Longrightarrow> fmlookup (ads_sets (fst (announce_set C r keys s))) t = Some cs" for r keys s
    by (auto simp: announce_set_def adopt_set_def)
  have all: "ads_aggs (fst (run_ops (announce_aggregated C) rs s)) = ads_aggs s \<and>
    (fmlookup (ads_sets s) t = Some cs \<longrightarrow> fmlookup (ads_sets (fst (run_ops (announce_aggregated C) rs s))) t = Some cs)"
    for rs
    by (induction rs arbitrary: s) (simp_all add: announce_aggregated_def one split: option.splits)
  show "ads_aggs (fst (announce_phase C cur s)) = ads_aggs s"
    using all one by (simp add: announce_phase_def split: option.splits)
  show "fmlookup (ads_sets (fst (announce_phase C cur s))) t = Some cs" if "fmlookup (ads_sets s) t = Some cs"
    using all one that by (simp add: announce_phase_def split: option.splits)
qed

text \<open>
  C27. A sum that arrives after its round was announced still enters the combination: the
  announced set stays what it was, also when the sum covers none of its members, and the
  late sum is among the contributions the leader combines for the round.
\<close>

theorem late_aggregate_combined:
  assumes "ads_aggregation s = Some agg" "aggregate_ok C t g blinded keys pk sg agg s"
    "fmlookup (ads_sets s) t = Some cs" "g |\<notin>| fmdom (ads_agg_map t s)"
    "s' = fst (announce_phase C cur (on_group_aggregate C t g blinded keys pk sg s))"
  shows "fmlookup (ads_sets s') t = Some cs \<and>
    (\<exists>inputs. combine_inputs t cs s' = Some inputs \<and> (t, blinded) \<in> set inputs)"
proof -
  let ?s = "on_group_aggregate C t g blinded keys pk sg s"
  have "ads_static ?s = ads_static s" by (simp add: on_group_aggregate_def split: option.splits)
  then have q: "ads_sets ?s = ads_sets s" "ads_aggregation ?s = Some agg"
    using assms(1) by (simp_all add: on_group_aggregate_def file_aggregate_def ads_static_def Let_def)
  have agg: "ads_aggregation s' = Some agg"
    using announce_phase_record [of C cur ?s] assms(5) q(2) by (simp add: ads_static_def)
  have filed: "fmlookup (ads_aggs s') t = Some (fmupd g (blinded, key_signers C keys) (ads_agg_map t s))"
    using assms(1,2,4,5) announce_phase_keeps(2) [of C cur ?s]
    by (simp add: on_group_aggregate_def file_aggregate_def ads_agg_map_def Let_def)
  have "(blinded, key_signers C keys) \<in> set (fm_values (fmupd g (blinded, key_signers C keys) (ads_agg_map t s)))"
    by (auto simp: set_fm_values intro: fmran'I [of _ g])
  then have "(t, blinded) \<in> set (map (\<lambda>(bl, _). (t, bl)) (fm_values (fmupd g (blinded, key_signers C keys) (ads_agg_map t s))))"
    by force
  then show ?thesis
    using announce_phase_keeps(1) [of ?s t cs C cur] assms(3,5) q(1) agg filed by (simp add: combine_inputs_def)
qed

section \<open>Concrete runs\<close>

text \<open>
  An instance of the adcnet crate: a client or relay is one byte, envelopes carry their
  content in the clear, and combining a round returns the contributions it was given.
\<close>

definition demo_adc_wire :: "bytes \<Rightarrow> adcnet_wire option" where
  "demo_adc_wire bs =
     (case bs of
        [a, x] \<Rightarrow> if a = 1 then Some (AdcClient [x] [x]) else None
      | [a, x, y] \<Rightarrow>
          if a = 2 then Some (AdcServer (le_bytes 4 5 @ le_bytes 4 (unat x) @ [y]))
          else if a = 3 then
            Some (AdcGroupAggregate 5 (unat x) [unat y] [[y]] (Pubkey [x])
              (sign demo_crypto \<lparr>keypair = [x], exchange = []\<rparr>
                (le_bytes 4 5 @ le_bytes 4 (unat x) @ le_bytes 8 (unat y) @ [y])))
          else None
      | _ \<Rightarrow> None)"

definition demo_adc_codecs :: adc_codecs where
  "demo_adc_codecs = wire_codecs.extend (demo_wire_codecs\<lparr>adcnet_wire_of_bytes := demo_adc_wire\<rparr>)
     \<lparr>adcnet_wire_to_bytes = (\<lambda>_. []),
      key_list_bytes = concat,
      recover_contribution = (\<lambda>m. case m of [x] \<Rightarrow> Some ((5, [unat x]), replicate 32 x) | _ \<Rightarrow> None),
      recover_key = (\<lambda>m. case m of [x] \<Rightarrow> Some (replicate 32 x, replicate 32 x) | _ \<Rightarrow> None),
      recover_server = (\<lambda>m. if length m < 8 then None
        else Some (\<lparr>sh_server = from_le_bytes (take 4 (drop 4 m)), sh_round = from_le_bytes (take 4 m), sh_share = []\<rparr>,
                   drop 8 m)),
      sign_key = (\<lambda>ident xpub. Some xpub),
      shared_key = (\<lambda>a b. a @ b),
      client_contribute = (\<lambda>cfg r ident keys p rnd. Some []),
      server_contribute = (\<lambda>cfg t i ident keys.
        if t < 256 ^ 4 \<and> i < 256 ^ 4 then Some (le_bytes 4 t @ le_bytes 4 i @ keypair ident) else None),
      combine_round = (\<lambda>cfg t inputs shares n. Some (map (\<lambda>(_, b). map word_of_nat b) inputs)),
      aggregate_clients = concat\<rparr>"

definition demo_adc_config :: adcnet_config where
  "demo_adc_config =
     \<lparr>ac_round_duration_ms = 1000, ac_max_payload_bytes = 8, ac_estimated_messages = 2, ac_client_set_min = 1,
      ac_client_set_max = 4, ac_aggregation = None\<rparr>"

definition demo_adc_leader :: "usize \<Rightarrow> pubkey list \<Rightarrow> (u32, pubkey) fmap option \<Rightarrow> adc_server" where
  "demo_adc_leader n rs agg =
     new_adc_server demo_adc_config 0 \<lparr>keypair = [9], exchange = []\<rparr> n rs 1 4 True (Pubkey [9]) agg"

definition demo_adc_run :: "ads_event list" where
  "demo_adc_run = [AdsBegin 5, AdsInbound (Pubkey [1]) [1, 1], AdsInbound (Pubkey [2]) [1, 2], AdsEnd 5,
     AdsInbound (Pubkey [1]) [1, 1], AdsEnd 5, AdsBegin 6, AdsEnd 6]"

lemmas demo_adc_defs =
  demo_adc_codecs_def wire_codecs.defs demo_wire_codecs_def reg_codecs.defs demo_reg_codecs_def codecs.defs
  demo_codecs_def crypto.defs demo_crypto_def

theorem adcnet_rounds_once_witness:
  "\<exists>s' outs. run_ops (ads_step demo_adc_codecs) demo_adc_run (demo_adc_leader 1 [Pubkey [9]] None) = (s', outs) \<and>
     outs \<noteq> [] \<and> distinct (List.map_filter share_out outs) \<and> distinct (List.map_filter decoded_out outs)"
proof -
  let ?s = "demo_adc_leader 1 [Pubkey [9]] None"
  obtain s' outs where run: "run_ops (ads_step demo_adc_codecs) demo_adc_run ?s = (s', outs)" by force
  have "length (snd (run_ops (ads_step demo_adc_codecs) demo_adc_run ?s)) = 3" by code_simp
  then have "outs \<noteq> []" using run by auto
  moreover have "clock_forward (ads_cur ?s) demo_adc_run" by code_simp
  ultimately show ?thesis using adcnet_rounds_once [OF _ run] run by blast
qed

lemma demo_server_contribute_ok: "server_contribute_ok demo_adc_codecs"
  by (auto simp: server_contribute_ok_def demo_adc_defs identity_pubkey_def codec_simps)

theorem adcnet_results_justified_witness:
  "\<exists>keys cs inputs shares.
     SetOut 5 keys \<in> set (snd (run_ops (ads_step demo_adc_codecs) demo_adc_run (demo_adc_leader 1 [Pubkey [9]] None))) \<and>
     cs = key_signers demo_adc_codecs keys \<and> distinct cs \<and> (1 :: nat) \<le> length cs \<and>
     length inputs = length cs \<and> (1 :: nat) \<le> length shares \<and>
     combine_round demo_adc_codecs demo_adc_config 5 inputs shares 1 = Some [[1], [2]]"
proof -
  let ?s = "demo_adc_leader 1 [Pubkey [9]] None"
  have st: "ads_min_clients ?s = 1" "ads_expected ?s = 1" "ads_config ?s = demo_adc_config" "ads_clients ?s = fmempty"
    "ads_shares ?s = fmempty" "ads_sets ?s = fmempty" "ads_client_keys ?s = fmempty" "ads_aggregation ?s = None"
    "seated demo_adc_codecs ?s"
    by (simp_all add: demo_adc_leader_def new_adc_server_def seated_def demo_adc_defs identity_pubkey_def U32_MAX_def)
  have echo: "echoes_only demo_adc_codecs demo_adc_run [] ?s" by code_simp
  have "DecodedOut 5 [[1], [2]] \<in> set (snd (run_ops (ads_step demo_adc_codecs) demo_adc_run ?s))" by code_simp
  from adcnet_results_justified [OF demo_server_contribute_ok st(9,8,4-7) echo this] show ?thesis
    unfolding st(1-3) by blast
qed

definition demo_group_roster :: "(u32, pubkey) fmap" where
  "demo_group_roster = fmap_of_list [(0, Pubkey [0]), (1, Pubkey [1])]"

text \<open>The leader of an aggregated round after the first group's sum was announced.\<close>

definition demo_announced_leader :: adc_server where
  "demo_announced_leader =
     fst (run_ops (ads_step demo_adc_codecs) [AdsBegin 5, AdsInbound (Pubkey [0]) [3, 0, 4], AdsEnd 5]
       (demo_adc_leader 2 [Pubkey [9], Pubkey [8]] (Some demo_group_roster)))"

definition demo_late_sum :: "bytes \<times> bytes" where
  "demo_late_sum = (le_bytes 4 5 @ le_bytes 4 1 @ le_bytes 8 7 @ [7],
     sign demo_crypto \<lparr>keypair = [1], exchange = []\<rparr> (le_bytes 4 5 @ le_bytes 4 1 @ le_bytes 8 7 @ [7]))"

theorem late_aggregate_combined_witness:
  "fmlookup (ads_sets demo_announced_leader) 5 = Some [replicate 32 4] \<and>
   key_signers demo_adc_codecs [[7]] = [replicate 32 7] \<and>
   (\<exists>inputs. combine_inputs 5 [replicate 32 4]
      (fst (announce_phase demo_adc_codecs 6
        (on_group_aggregate demo_adc_codecs 5 1 [7] [[7]] (Pubkey [1]) (snd demo_late_sum) demo_announced_leader))) =
      Some inputs \<and> (5, [7]) \<in> set inputs)"
proof -
  have pre: "ads_aggregation demo_announced_leader = Some demo_group_roster" by code_simp
  have ok: "aggregate_ok demo_adc_codecs 5 1 [7] [[7]] (Pubkey [1]) (snd demo_late_sum) demo_group_roster
      demo_announced_leader" by code_simp
  have sets: "fmlookup (ads_sets demo_announced_leader) 5 = Some [replicate 32 4]" by code_simp
  have fresh: "1 |\<notin>| fmdom (ads_agg_map 5 demo_announced_leader)" by code_simp
  have "key_signers demo_adc_codecs [[7]] = [replicate 32 7]" by code_simp
  then show ?thesis using late_aggregate_combined [OF pre ok sets fresh refl, of 6] sets by blast
qed

theorem group_sum_reaches_leader_witness:
  "\<exists>ag' m. run_steps (ag_step demo_adc_codecs) [AgBegin 5, AgInbound [1, 2], AgInbound [1, 4], AgCheckpoint 5 1]
       ((new_adc_aggregator 0 2 \<lparr>keypair = [0], exchange = []\<rparr>)\<lparr>ag_client_set_max := 2, ag_good_clients := \<lambda>_. True\<rparr>) =
       Some (ag', [m]) \<and>
     (\<exists>blinded keys sg. m = AdcGroupAggregate 5 0 blinded keys (Pubkey [0]) sg)"
proof -
  let ?s = "demo_adc_leader 2 [Pubkey [9], Pubkey [8]] (Some demo_group_roster)"
  let ?ident = "\<lparr>keypair = [0], exchange = []\<rparr>" and ?es = "[AgBegin 5, AgInbound [1, 2], AgInbound [1, 4], AgCheckpoint 5 1]"
  let ?ag = "(new_adc_aggregator 0 2 ?ident)\<lparr>ag_client_set_max := 2, ag_good_clients := \<lambda>_. True\<rparr>"
  have cap: "group_cap (ads_client_set_max ?s) (fm_size demo_group_roster) = 2" by code_simp
  have keys: "recovers_keys demo_adc_codecs" "signing_ok demo_adc_codecs"
    "identity_pubkey demo_adc_codecs ?ident = Pubkey [0]"
    by (auto simp: recovers_keys_def signing_ok_def demo_adc_defs identity_pubkey_def split: list.splits)
  have agg: "ads_aggregation ?s = Some demo_group_roster" "fmlookup demo_group_roster 0 = Some (Pubkey [0])"
    by (simp_all add: demo_adc_leader_def new_adc_server_def demo_group_roster_def)
  have out: "map_option (map (\<lambda>m. case m of AdcGroupAggregate r _ _ _ _ _ \<Rightarrow> r | _ \<Rightarrow> 0) \<circ> snd)
      (run_steps (ag_step demo_adc_codecs) ?es ?ag) = Some [5]" by code_simp
  note reaches = group_sum_reaches_leader [OF keys(1,2) refl agg(1) agg(2) [folded keys(3)],
      where n = 2 and good = "\<lambda>_. True" and es = ?es, unfolded cap keys(3)]
  then obtain p where p: "run_steps (ag_step demo_adc_codecs) ?es ?ag = Some p" by (elim exE conjE)
  obtain ag' outs where run: "p = (ag', outs)" by force
  have each: "\<exists>r blinded keys sg. m = AdcGroupAggregate r 0 blinded keys (Pubkey [0]) sg" if "m \<in> set outs" for m
    using reaches that unfolding p run
    by (elim exE conjE) (simp only: option.inject prod.inject, elim conjE, drule (1) bspec, elim exE conjE, intro exI)
  obtain m where "outs = [m]" using out p run by (auto simp: map_eq_Cons_conv)
  then show ?thesis using p run each [of m] out by auto
qed

end
