(* ===== verification/Spec2Isabelle.thy ===== *)
theory Spec2Isabelle
  imports Scaling Set_Agreement Panetiere_Service Adcnet_Groups
begin

text \<open>
  A verification development of anymone, a node library for anonymous broadcast networks
  (crates/anymone-core and the programs around it).

  \<^bold>\<open>The program.\<close> A committee of schedulers certifies round configurations: which relays run
  which subnets, with which anonymous-broadcast protocol and capacity.  Relays, watchers and
  services register with the committee; the lead proposes a configuration body, the members
  check it against the registrations they saw and approve it, and a configuration with a
  threshold of approvals is published.  Nodes accept verified configurations only, derive from
  them who may publish on which topic, keep a round clock from the genesis epoch, and run the
  sessions of their subnets: a client contributes a message to a round, the relays fix the
  set of clients of the round, each posts a share over that set, and the shares are combined
  into the round's plaintext.  Observers follow the public traffic of every subnet and report
  faults, which the committee uses to keep misbehaving relays out of the next configuration.

  \<^bold>\<open>Conventions.\<close> \<open>Prelude\<close> names the machine types: unsigned integers are natural numbers with
  saturation and wrap-around written out, bytes are 8-bit words, floats are bit patterns,
  hash maps and B-tree maps are finite maps, sets are finite sets, and a walk over a map goes
  in key order.  A struct is a record, an enum a datatype, a method a function from the state
  to the new state and what it returns.  A fallible call returns a sum or an option.  Where
  the code can panic the model returns \<open>None\<close>: such operations run under \<open>run_steps\<close>, the
  total ones under \<open>run_ops\<close>.  Loops recurse structurally or with a measure; none needs
  fuel.  The loop that excludes bad shares (\<open>recover_loop\<close>) ends because every turn
  removes a share or a lane.  Code outside the repository - signatures, hashes, bincode,
  the panetiere and adcnet crates - is a record of functions (\<open>crypto\<close>, \<open>codecs\<close>, \<open>set_codecs\<close>,
  \<open>pan_codecs\<close>, \<open>client_codecs\<close>, \<open>adc_codecs\<close>) that every definition takes as an argument;
  what is relied on of it is a named predicate (\<open>signing_ok\<close>, \<open>rs_ok\<close>, \<open>share_crate_ok\<close>,
  \<open>decode_crate_ok\<close>, \<open>server_contribute_ok\<close>, \<open>recovers_keys\<close>), and instances named \<open>demo_\<close>
  show that each can hold.

  \<^bold>\<open>Shared contracts.\<close> \<open>component\<close> (Prelude) and \<open>machine\<close> (Panetiere_Codecs) carry an
  invariant and a property of the outputs along runs; \<open>once_per_round\<close> (Panetiere_Rounds) says
  that a machine emits a value for a round at most once; \<open>round_pass\<close> (Adcnet_Rounds) is one
  walk over rounds.  They are interpreted on the scheduler, the observers, the set server,
  the Panetiere server, the ADCNet relay and the ADCNet aggregator.

  \<^bold>\<open>Foundations.\<close>
  \<^item> \<open>Keys\<close> (keys.rs, identity.rs): public keys and their text form, signing with a namespace,
    exchange keys, roster indices, seeds.
  \<^item> \<open>Wire\<close> (wire.rs): tags, frames, encoder and decoder; the decoder accepts exactly the
    encodings.
  \<^item> \<open>Config\<close> (config.rs): all configuration types and the multi-signature; verification counts
    distinct members and two quorums overlap.
  \<^item> \<open>Faults\<close> (faults.rs): the liveness tracker; a prompt relay is never blamed, and a run
    described by its events as healthy raises nothing.

  \<^bold>\<open>Governance.\<close>
  \<^item> \<open>Registration\<close> (scheduling.rs): what each kind of registration signs and binds.
  \<^item> \<open>Governance\<close> (governance.rs, discovery.rs, transport.rs, the refresh of the rpc client):
    genesis, acceptance of configurations without rollback, admission on topics.
  \<^item> \<open>Runtime_Rules\<close> (runtime.rs): round clock, leader, subscriptions, aggregators.
  \<^item> \<open>Observers\<close> (the observers of panetiere.rs and adcnet.rs): reports are provable.
  \<^item> \<open>Sizing\<close>, \<open>Scheduler\<close> (scheduler_core.rs): capacity and structure checks, and every
    handler of a committee member over the record \<open>core\<close>.
  \<^item> \<open>Governing\<close>: no handler panics; published configurations carry a threshold of signatures;
    approved bodies match the registrations; the membership record refines an abstract machine
    with one standing per relay; offenders stay out for their backoff; a threshold of approvals
    leads to a publication; the accepted round never falls.  \<open>Scaling\<close>: sizes stay in bounds
    and settle.

  \<^bold>\<open>Client sets\<close> (client_set.rs).  \<open>Client_Set\<close> has the messages, the client's bundles and
  fragments and the set server from receipt to the final set; \<open>Set_Codecs\<close> and \<open>Set_Repair\<close> the
  packed forms and that repair restores the bundles; \<open>Relaying\<close> that the relay rounds are a
  Dolev-Strong agreement on the batches a server accepts, and that a lane that signs two batches
  still leaves servers with different rows; \<open>Set_Agreement\<close> that without such a lane honest
  servers with the same bulletins and fragments fix the same set, and that every set respects
  the budget of abstaining lanes.

  \<^bold>\<open>Sessions.\<close>
  \<^item> \<open>Session\<close> (session.rs, noop.rs): the event interface and the plain protocol.
  \<^item> \<open>Panetiere_Codecs\<close>, \<open>Panetiere_Server\<close>, \<open>Panetiere_Client\<close> (panetiere.rs): the records
    \<open>pan_server\<close>, \<open>pan_client\<close> and \<open>pan_watch\<close> and every method, one definition per message
    kind of \<open>on_inbound\<close> and per phase of \<open>end_round\<close>.  \<open>Panetiere_Rounds\<close> and
    \<open>Panetiere_Bounds\<close>: a server never panics, settles a round once, binds slots to keys,
    shares over exactly the announced set, and bounds the contributions and relays it holds,
    but not the posts waiting for a batch.  \<open>Panetiere_Service\<close>: an honest client's messages
    are filed, repair sends every covered lane its fragment, small gaps that stay unrepaired
    can exclude a client, and the driver builds sessions that meet the conditions above.
  \<^item> \<open>Adcnet\<close> (the one-round flow of adcnet.rs): \<open>adc_client\<close>, \<open>adc_aggregator\<close>, \<open>adc_server\<close>,
    \<open>adc_watch\<close>.  \<open>Adcnet_Rounds\<close>: a round is announced, shared and combined once.
    \<open>Adcnet_Combine\<close>: a result is combined from one signed contribution of every member of
    a set announced in the run and from shares of distinct relays.  \<open>Adcnet_Groups\<close>: a group's sum reaches the leader, and a
    late sum is combined although its clients were not announced.

  \<^bold>\<open>Not modelled.\<close>  The async drivers (\<open>run_subnet\<close>, committee.rs, runtime.rs, bootstrap.rs,
  pipe.rs) appear only as the event sequences they produce.  The scheduled two-round flows of
  panetiere_scheduled.rs and adcnet.rs are modelled as far as sizes and observation need them.
  Left out are the client pool, remote terminal sessions, attestation formats, the commonware
  transport, the HTTP and JSON-RPC programs (rpc client, gateway, txbus, eth bridge and
  service, chat, node, observer) and the mobile bindings: input and output around library
  calls, with no state that the properties above depend on.  Tracing is left out everywhere.
\<close>

end
